(* ===== verification/Dtn_Prelude.thy ===== *)
theory Dtn_Prelude
  imports Main "HOL-Library.Word"
begin

text \<open>
  The vocabulary the components share: the types of the C program's integers and times, the
  faults of C that the code can run into, and the parts of the C library the sources use on
  strings and numbers (\<open>isdigit\<close>, \<open>atoi\<close>, \<open>strtoul\<close>, \<open>strstr\<close>, \<open>printf\<close> of integers,
  \<open>htonl\<close>/\<open>ntohl\<close> on a little-endian host).  Strings are the bytes before the terminating
  NUL of a C string.
\<close>

unbundle bit_operations_syntax

type_synonym u16 = "16 word"
type_synonym u32 = "32 word"
type_synonym u64 = "64 word"
type_synonym time_t = int

named_theorems dtn_defs \<open>definitions of handlers and their small helpers\<close>
named_theorems dtn_frame \<open>which fields an operation leaves alone\<close>

section \<open>Faults of C\<close>

text \<open>
  A write or read outside an array, and a read of an array that was never terminated, are
  undefined behaviour in C.  The model makes them a value: the code never gets past them.
\<close>

datatype c_fault =
    Out_Of_Bounds string int   \<comment> \<open>array, index\<close>
  | Unterminated string        \<comment> \<open>a char array read as a string without a NUL\<close>
  | Buffer_Overflow string nat \<comment> \<open>array, bytes written\<close>
  | Uninitialised string       \<comment> \<open>a variable or array read before anything was stored in it\<close>
  | Null_Pointer string        \<comment> \<open>a NULL pointer is used\<close>

definition is_ok :: "c_fault + 'a \<Rightarrow> bool" where
  "is_ok r = (case r of Inl _ \<Rightarrow> False | Inr _ \<Rightarrow> True)"

lemma is_ok_simps [simp]: "is_ok (Inr x)" "\<not> is_ok (Inl e)"
  by (simp_all add: is_ok_def)

definition bindE :: "'e + 'a \<Rightarrow> ('a \<Rightarrow> 'e + 'b) \<Rightarrow> 'e + 'b" where
  "bindE r k = (case r of Inl e \<Rightarrow> Inl e | Inr x \<Rightarrow> k x)"

lemma bindE_simps [simp]: "bindE (Inl e) k = Inl e" "bindE (Inr x) k = k x"
  by (simp_all add: bindE_def)

lemma bindE_Inr_iff: "bindE r k = Inr y \<longleftrightarrow> (\<exists>x. r = Inr x \<and> k x = Inr y)"
  by (cases r) auto

section \<open>Character classes\<close>

definition char_code :: "char \<Rightarrow> nat" where
  "char_code c = of_char c"

definition isdigit :: "char \<Rightarrow> bool" where
  "isdigit c \<longleftrightarrow> 48 \<le> char_code c \<and> char_code c \<le> 57"

definition isblank :: "char \<Rightarrow> bool" where
  "isblank c \<longleftrightarrow> char_code c = 32 \<or> char_code c = 9"

definition isspace :: "char \<Rightarrow> bool" where
  "isspace c \<longleftrightarrow> char_code c = 32 \<or> (9 \<le> char_code c \<and> char_code c \<le> 13)"

definition isalpha :: "char \<Rightarrow> bool" where
  "isalpha c \<longleftrightarrow> (65 \<le> char_code c \<and> char_code c \<le> 90) \<or> (97 \<le> char_code c \<and> char_code c \<le> 122)"

definition isalnum :: "char \<Rightarrow> bool" where
  "isalnum c \<longleftrightarrow> isdigit c \<or> isalpha c"

definition digit_val :: "char \<Rightarrow> nat" where
  "digit_val c = char_code c - 48"

definition digit_char :: "nat \<Rightarrow> char" where
  "digit_char d = ''0123456789'' ! d"

lemma char_code_of_digit: "d < 10 \<Longrightarrow> char_code (digit_char d) = 48 + d"
proof -
  assume "d < 10"
  then have "d \<in> {0, 1, 2, 3, 4, 5, 6, 7, 8, 9}" by auto
  then show ?thesis by (auto simp: char_code_def digit_char_def)
qed

lemma isdigit_digit_char [simp]: "d < 10 \<Longrightarrow> isdigit (digit_char d)"
  by (simp add: isdigit_def char_code_of_digit)

lemma digit_val_digit_char [simp]: "d < 10 \<Longrightarrow> digit_val (digit_char d) = d"
  by (simp add: digit_val_def char_code_of_digit)

section \<open>Decimal numbers\<close>

fun show_nat :: "nat \<Rightarrow> string" where
  "show_nat n = (if n < 10 then [digit_char n] else show_nat (n div 10) @ [digit_char (n mod 10)])"

declare show_nat.simps [simp del]

definition show_int :: "int \<Rightarrow> string" where
  "show_int i = (if i < 0 then ''-'' @ show_nat (nat (- i)) else show_nat (nat i))"

definition digits_val :: "string \<Rightarrow> nat" where
  "digits_val s = foldl (\<lambda>a c. 10 * a + digit_val c) 0 s"

lemma digits_val_snoc: "digits_val (s @ [c]) = 10 * digits_val s + digit_val c"
  by (simp add: digits_val_def)

lemma digits_val_Nil [simp]: "digits_val [] = 0"
  by (simp add: digits_val_def)

lemma digits_val_show_nat [simp]: "digits_val (show_nat n) = n"
proof (induction n rule: show_nat.induct)
  case (1 n)
  show ?case
  proof (cases "n < 10")
    case True
    then show ?thesis
      by (subst show_nat.simps) (simp add: digits_val_def)
  next
    case False
    with 1 have "digits_val (show_nat (n div 10)) = n div 10" by blast
    with False show ?thesis
      by (subst show_nat.simps) (simp add: digits_val_snoc)
  qed
qed

lemma show_nat_digits: "\<forall>c \<in> set (show_nat n). isdigit c"
proof (induction n rule: show_nat.induct)
  case (1 n)
  then show ?case by (subst show_nat.simps) auto
qed

lemma show_nat_nonempty [simp]: "show_nat n \<noteq> []"
  by (subst show_nat.simps) simp

lemma takeWhile_show_nat [simp]:
  "rest = [] \<or> \<not> isdigit (hd rest) \<Longrightarrow> takeWhile isdigit (show_nat n @ rest) = show_nat n"
proof -
  assume r: "rest = [] \<or> \<not> isdigit (hd rest)"
  have "takeWhile isdigit (show_nat n @ rest) = show_nat n @ takeWhile isdigit rest"
    using show_nat_digits by simp
  also have "takeWhile isdigit rest = []"
    using r by (cases rest) auto
  finally show ?thesis by simp
qed

lemma length_show_nat_le: "n < 10 ^ Suc k \<Longrightarrow> length (show_nat n) \<le> Suc k"
proof (induction k arbitrary: n)
  case 0
  then show ?case by (subst show_nat.simps) simp
next
  case (Suc k)
  show ?case
  proof (cases "n < 10")
    case True
    then show ?thesis by (subst show_nat.simps) simp
  next
    case False
    have "n div 10 < 10 ^ Suc k"
      using Suc.prems by (simp add: div_less_iff_less_mult mult.commute)
    then have "length (show_nat (n div 10)) \<le> Suc k" by (rule Suc.IH)
    with False show ?thesis by (subst show_nat.simps) simp
  qed
qed

lemma length_show_u64: "length (show_nat (unat (w :: u64))) \<le> 20"
proof -
  have "unat w < 2 ^ 64" using unsigned_less [of w, where ?'a = nat] by simp
  then show ?thesis using length_show_nat_le [of "unat w" 19] by simp
qed

section \<open>C library: atoi, strtoul, strstr\<close>

text \<open>
  Conversions to a 32-bit \<open>int\<close> and to \<open>__u32\<close> truncate.  \<open>strtol\<close> and \<open>strtoul\<close> clamp at
  the limits of a 64-bit \<open>long\<close>, and \<open>atoi\<close> is \<open>(int) strtol\<close>, as glibc has it.
\<close>

definition c_int :: "int \<Rightarrow> int" where
  "c_int i = (i + 2 ^ 31) mod 2 ^ 32 - 2 ^ 31"

lemma c_int_id: "- (2 ^ 31) \<le> i \<Longrightarrow> i < 2 ^ 31 \<Longrightarrow> c_int i = i"
  by (simp add: c_int_def)

lemma c_int_range: "- (2 ^ 31) \<le> c_int i \<and> c_int i < 2 ^ 31"
  by (simp add: c_int_def algebra_simps)

definition strtol :: "string \<Rightarrow> int" where
  "strtol s =
     (let s1 = dropWhile isspace s;
          neg = (s1 \<noteq> [] \<and> hd s1 = CHR ''-'');
          s2 = (if s1 \<noteq> [] \<and> (hd s1 = CHR ''-'' \<or> hd s1 = CHR ''+'') then tl s1 else s1);
          v = int (digits_val (takeWhile isdigit s2))
      in if neg then max (- (2 ^ 63)) (- v) else min (2 ^ 63 - 1) v)"

definition atoi :: "string \<Rightarrow> int" where
  "atoi s = c_int (strtol s)"

definition strtoul :: "string \<Rightarrow> u64" where
  "strtoul s =
     (let s1 = dropWhile isspace s;
          neg = (s1 \<noteq> [] \<and> hd s1 = CHR ''-'');
          s2 = (if s1 \<noteq> [] \<and> (hd s1 = CHR ''-'' \<or> hd s1 = CHR ''+'') then tl s1 else s1);
          v = digits_val (takeWhile isdigit s2)
      in if 2 ^ 64 \<le> v then - 1 else if neg then - of_nat v else of_nat v)"

lemma isdigit_not_space: "isdigit c \<Longrightarrow> \<not> isspace c"
  by (auto simp: isdigit_def isspace_def)

lemma isdigit_not_sign: "isdigit c \<Longrightarrow> c \<noteq> CHR ''-'' \<and> c \<noteq> CHR ''+''"
  by (auto simp: isdigit_def char_code_def)

lemma digit_string_head:
  assumes "\<forall>c \<in> set ds. isdigit c"
  shows "dropWhile isspace ds = ds"
    and "\<not> (ds \<noteq> [] \<and> hd ds = CHR ''-'')"
    and "\<not> (ds \<noteq> [] \<and> (hd ds = CHR ''-'' \<or> hd ds = CHR ''+''))"
    and "takeWhile isdigit ds = ds"
proof -
  show "dropWhile isspace ds = ds"
    using assms by (cases ds) (auto dest: isdigit_not_space)
  show "\<not> (ds \<noteq> [] \<and> hd ds = CHR ''-'')" "\<not> (ds \<noteq> [] \<and> (hd ds = CHR ''-'' \<or> hd ds = CHR ''+''))"
    using assms by (cases ds; auto dest: isdigit_not_sign)+
  show "takeWhile isdigit ds = ds"
    using assms by simp
qed

lemma strtol_digits:
  "\<forall>c \<in> set ds. isdigit c \<Longrightarrow> strtol ds = min (2 ^ 63 - 1) (int (digits_val ds))"
  by (simp add: strtol_def Let_def digit_string_head)

lemma atoi_digits:
  "\<forall>c \<in> set ds. isdigit c \<Longrightarrow> digits_val ds < 2 ^ 31 \<Longrightarrow> atoi ds = int (digits_val ds)"
  by (simp add: atoi_def strtol_digits min_def c_int_id)

lemma strtoul_digits:
  "\<forall>c \<in> set ds. isdigit c \<Longrightarrow> digits_val ds < 2 ^ 64 \<Longrightarrow> strtoul ds = of_nat (digits_val ds)"
  by (simp add: strtoul_def Let_def digit_string_head)

lemma atoi_show_nat [simp]: "n < 2 ^ 31 \<Longrightarrow> atoi (show_nat n) = int n"
  using atoi_digits [OF show_nat_digits] by simp

lemma strtoul_show_nat [simp]: "n < 2 ^ 64 \<Longrightarrow> strtoul (show_nat n) = of_nat n"
  using strtoul_digits [OF show_nat_digits] by simp

fun starts_with :: "string \<Rightarrow> string \<Rightarrow> bool" where
  "starts_with [] s = True"
| "starts_with (p # ps) [] = False"
| "starts_with (p # ps) (c # s) = (p = c \<and> starts_with ps s)"

text \<open>\<open>strstr h n\<close>: the suffix of \<open>h\<close> at the first occurrence of \<open>n\<close>.\<close>

fun strstr :: "string \<Rightarrow> string \<Rightarrow> string option" where
  "strstr [] n = (if n = [] then Some [] else None)"
| "strstr (c # s) n = (if starts_with n (c # s) then Some (c # s) else strstr s n)"

definition has_substr :: "string \<Rightarrow> string \<Rightarrow> bool" where
  "has_substr h n = (strstr h n \<noteq> None)"

lemma starts_with_append [simp]: "starts_with n (n @ s)"
  by (induction n) auto

lemma starts_with_length: "starts_with n s \<Longrightarrow> length n \<le> length s"
  by (induction n s rule: starts_with.induct) auto

lemma starts_with_iff: "starts_with n s \<longleftrightarrow> (\<exists>t. s = n @ t)"
  by (induction n s rule: starts_with.induct) auto

lemma strstr_prefix: "strstr (n @ s) n = Some (n @ s)"
  by (cases "n @ s") (auto simp del: starts_with.simps, metis starts_with_append)

lemma has_substr_prefix [simp]: "has_substr (n @ s) n"
  by (simp add: has_substr_def strstr_prefix)

lemma strstr_Some_starts: "strstr h n = Some s \<Longrightarrow> starts_with n s \<and> (\<exists>p. h = p @ s)"
proof (induction h)
  case Nil
  then show ?case by (auto split: if_splits)
next
  case (Cons c h)
  show ?case
  proof (cases "starts_with n (c # h)")
    case True
    with Cons.prems show ?thesis by (auto intro: exI [of _ "[]"])
  next
    case False
    with Cons.prems have "strstr h n = Some s" by simp
    with Cons.IH obtain p where "starts_with n s" "h = p @ s" by blast
    then show ?thesis by (auto intro: exI [of _ "c # p"])
  qed
qed

lemma has_substr_length: "has_substr h n \<Longrightarrow> length n \<le> length h"
  by (auto simp: has_substr_def dest!: strstr_Some_starts starts_with_length)

section \<open>Byte order and addresses\<close>

text \<open>
  \<open>htonl\<close> and \<open>ntohl\<close> swap the four bytes of a 32-bit value on the little-endian hosts the
  module runs on; \<open>htons\<close> swaps two.
\<close>

definition byte_of :: "'a::len word \<Rightarrow> nat \<Rightarrow> 'a word" where
  "byte_of w i = take_bit 8 (drop_bit (8 * i) w)"

definition htonl :: "u32 \<Rightarrow> u32" where
  "htonl w = push_bit 24 (byte_of w 0) OR push_bit 16 (byte_of w 1)
     OR push_bit 8 (byte_of w 2) OR byte_of w 3"

definition ntohl :: "u32 \<Rightarrow> u32" where
  "ntohl w = htonl w"

definition htons :: "u16 \<Rightarrow> u16" where
  "htons w = push_bit 8 (byte_of w 0) OR byte_of w 1"

definition uip_a :: "u32 \<Rightarrow> nat \<Rightarrow> nat" where
  \<comment> \<open>byte \<open>i\<close> of \<open>union uIP\<close>, in memory order\<close>
  "uip_a y i = unat (byte_of y i)"

definition dotted :: "u32 \<Rightarrow> string" where
  "dotted y = show_nat (uip_a y 0) @ ''.'' @ show_nat (uip_a y 1) @ ''.''
     @ show_nat (uip_a y 2) @ ''.'' @ show_nat (uip_a y 3)"

lemma bit_htonl:
  "bit (htonl w) n \<longleftrightarrow> (n < 8 \<and> bit w (n + 24)) \<or> (8 \<le> n \<and> n < 16 \<and> bit w (n + 8))
     \<or> (16 \<le> n \<and> n < 24 \<and> bit w (n - 8)) \<or> (24 \<le> n \<and> n < 32 \<and> bit w (n - 24))"
proof -
  consider "n < 8" | "8 \<le> n" "n < 16" | "16 \<le> n" "n < 24" | "24 \<le> n" "n < 32" | "32 \<le> n"
    by linarith
  then show ?thesis
  proof cases
    case 5
    then have "\<not> bit (htonl w) n" by (simp add: impossible_bit)
    with 5 show ?thesis by simp
  qed (simp_all add: htonl_def byte_of_def bit_simps add.commute less_diff_conv2)
qed

lemma htonl_involution [simp]: "htonl (htonl w) = w"
proof (rule bit_word_eqI)
  fix n :: nat
  consider "n < 8" | "8 \<le> n" "n < 16" | "16 \<le> n" "n < 24" | "24 \<le> n" "n < 32" | "32 \<le> n"
    by linarith
  then show "bit (htonl (htonl w)) n \<longleftrightarrow> bit w n"
    by cases (simp_all add: bit_htonl impossible_bit less_diff_conv2 le_diff_conv2)
qed

lemma ntohl_htonl [simp]: "ntohl (htonl w) = w" "htonl (ntohl w) = w"
  by (simp_all add: ntohl_def)

lemma htonl_inject [simp]: "htonl v = htonl w \<longleftrightarrow> v = w"
  by (metis htonl_involution)

lemma unat_u32_lt: "unat (x :: u32) < 4294967296"
proof -
  have "unat x < 2 ^ LENGTH(32)" by (rule unsigned_less)
  then show ?thesis by simp
qed

section \<open>Hexadecimal, as \<open>printf\<close> writes it\<close>

definition hex_digit :: "nat \<Rightarrow> char" where
  "hex_digit d = ''0123456789ABCDEF'' ! d"

definition hex08 :: "u32 \<Rightarrow> string" where
  "hex08 a = map (\<lambda>i. hex_digit (unat (drop_bit (4 * i) a AND 15))) [7, 6, 5, 4, 3, 2, 1, 0]"

fun show_hex :: "nat \<Rightarrow> string" where
  "show_hex n = (if n < 16 then [hex_digit n] else show_hex (n div 16) @ [hex_digit (n mod 16)])"

declare show_hex.simps [simp del]

lemma length_show_hex_le: "n < 16 ^ Suc k \<Longrightarrow> length (show_hex n) \<le> Suc k"
proof (induction k arbitrary: n)
  case 0
  then show ?case by (subst show_hex.simps) simp
next
  case (Suc k)
  show ?case
  proof (cases "n < 16")
    case True
    then show ?thesis by (subst show_hex.simps) simp
  next
    case False
    have "n div 16 < 16 ^ Suc k" using Suc.prems by (simp add: div_less_iff_less_mult)
    from Suc.IH [OF this] False show ?thesis by (subst show_hex.simps) simp
  qed
qed

section \<open>Bytes in memory\<close>

text \<open>Integers in memory on a little-endian host.\<close>

type_synonym byte = "8 word"

definition load16 :: "byte list \<Rightarrow> nat \<Rightarrow> u16" where
  "load16 bs i = ucast (bs ! i) OR push_bit 8 (ucast (bs ! (i + 1)))"

definition load32 :: "byte list \<Rightarrow> nat \<Rightarrow> u32" where
  "load32 bs i = ucast (bs ! i) OR push_bit 8 (ucast (bs ! (i + 1)))
     OR push_bit 16 (ucast (bs ! (i + 2))) OR push_bit 24 (ucast (bs ! (i + 3)))"

definition store16 :: "u16 \<Rightarrow> byte list" where
  "store16 w = [ucast w, ucast (drop_bit 8 w)]"

definition store32 :: "u32 \<Rightarrow> byte list" where
  "store32 w = [ucast w, ucast (drop_bit 8 w), ucast (drop_bit 16 w), ucast (drop_bit 24 w)]"

lemma length_store [simp]: "length (store16 v) = 2" "length (store32 w) = 4"
  by (simp_all add: store16_def store32_def)

lemma load16_store16: "load16 (xs @ store16 w @ ys) (length xs) = w"
proof (rule bit_word_eqI)
  fix n :: nat
  assume "n < LENGTH(16)"
  then show "bit (load16 (xs @ store16 w @ ys) (length xs)) n \<longleftrightarrow> bit w n"
    by (cases "n < 8") (auto simp: load16_def store16_def nth_append bit_simps)
qed

lemma load32_store32: "load32 (xs @ store32 w @ ys) (length xs) = w"
proof (rule bit_word_eqI)
  fix n :: nat
  assume "n < LENGTH(32)"
  then consider "n < 8" | "8 \<le> n" "n < 16" | "16 \<le> n" "n < 24" | "24 \<le> n" "n < 32"
    by simp linarith
  then show "bit (load32 (xs @ store32 w @ ys) (length xs)) n \<longleftrightarrow> bit w n"
    by cases (auto simp: load32_def store32_def nth_append bit_simps)
qed

lemma load32_skip: "length xs \<le> i \<Longrightarrow> load32 (xs @ ys) i = load32 ys (i - length xs)"
  by (simp add: load32_def nth_append Suc_diff_le)

lemma load16_skip: "length xs \<le> i \<Longrightarrow> load16 (xs @ ys) i = load16 ys (i - length xs)"
  by (simp add: load16_def nth_append Suc_diff_le)

lemma load_first [simp]: "load32 (store32 w @ ys) 0 = w" "load16 (store16 v @ ys) 0 = v"
  using load32_store32 [of "[]"] load16_store16 [of "[]"] by simp_all

text \<open>A C string in an array of \<open>n\<close> bytes.\<close>

definition load_str :: "byte list \<Rightarrow> string" where
  "load_str bs = map (\<lambda>b. char_of (unat b)) (takeWhile (\<lambda>b. b \<noteq> 0) bs)"

definition store_str :: "nat \<Rightarrow> string \<Rightarrow> byte list" where
  "store_str n s = take n (map (\<lambda>c. of_nat (char_code c)) s @ replicate n 0)"

lemma length_store_str [simp]: "length (store_str n s) = n"
  by (simp add: store_str_def)

lemma load_store_str:
  assumes "length s < n" "CHR 0x00 \<notin> set s"
  shows "load_str (store_str n s) = s"
proof -
  have k: "unat (of_nat (char_code c) :: byte) = char_code c" for c
    by (simp add: unat_of_nat char_code_def take_bit_nat_eq_self)
  have c: "char_of (unat (of_nat (char_code c) :: byte)) = c" for c
    unfolding k by (simp add: char_code_def)
  have nz: "(of_nat (char_code c) :: byte) \<noteq> 0" if "c \<in> set s" for c
  proof
    assume "(of_nat (char_code c) :: byte) = 0"
    then have "char_of (0 :: nat) = c" using c [of c] by simp
    moreover have "char_of (0 :: nat) = CHR 0x00" by (simp add: char_of_def)
    ultimately show False using that assms(2) by simp
  qed
  have "store_str n s = map (\<lambda>c. of_nat (char_code c)) s @ replicate (n - length s) 0"
    using assms(1) by (simp add: store_str_def)
  then have "takeWhile (\<lambda>b. b \<noteq> 0) (store_str n s) = map (\<lambda>c. of_nat (char_code c)) s"
  proof -
    obtain k where "n - length s = Suc k" using assms(1) by (metis Suc_diff_Suc)
    moreover have "takeWhile (\<lambda>b. b \<noteq> 0) (map (\<lambda>c. of_nat (char_code c) :: byte) s @ 0 # replicate k 0) =
        map (\<lambda>c. of_nat (char_code c)) s"
      using nz by (subst takeWhile_append2) auto
    ultimately show ?thesis using \<open>store_str n s = _\<close> by simp
  qed
  then show ?thesis by (simp add: load_str_def c comp_def)
qed

end
