(* ===== verification/Peer_Queue.thy ===== *)
theory Peer_Queue
  imports Dtn_Prelude
begin

text \<open>
  The message queue between the destination DTN's detectors and its sender thread
  (\<open>src/userspace/user_dtn.c\<close>): the ring buffer \<open>sMsg[SMSGS_BUFFER_SIZE]\<close> with its indices
  \<open>sMsgsIn\<close> and \<open>sMsgsOut\<close>, guarded by \<open>dtn_mutex\<close> and the conditions \<open>full\<close> and \<open>empty\<close>.  Five
  places post to it (the two queue-occupancy timer handlers, the two reset messages, and the
  start-of-traffic message of \<open>sample_func\<close>); \<open>fDoRunSendMessageToPeer\<close> takes from it and sends
  to the peer.  A poster writes only some fields of the slot it takes, so the others keep what an
  earlier message left there; the model writes the same fields.

  The critical sections run under one mutex, so each is one atomic operation here; a thread that
  waits on a condition is an operation that is not enabled (\<open>None\<close>).
\<close>

section \<open>Messages and the ring buffer\<close>

definition SMSGS_BUFFER_SIZE :: nat where "SMSGS_BUFFER_SIZE = 20"

definition TEST_MSG :: u32 where "TEST_MSG = 0"
definition QINFO_MSG :: u32 where "QINFO_MSG = 1"
definition HPNSSH_MSG :: u32 where "HPNSSH_MSG = 2"
definition RESET_PACING_MSG :: u32 where "RESET_PACING_MSG = 3"
definition CLEANUP_RESET_PACING_MSG :: u32 where "CLEANUP_RESET_PACING_MSG = 4"

lemmas msg_no_defs = TEST_MSG_def QINFO_MSG_def HPNSSH_MSG_def RESET_PACING_MSG_def
  CLEANUP_RESET_PACING_MSG_def

text \<open>\<open>struct PeerMsg\<close> of \<open>unp.h\<close>.  The IP unions are kept as their 32-bit member \<open>y\<close>.  The
  pointers are \<open>None\<close> for NULL; \<open>pts\<close> only ever points to one of the two time stamp buffers of
  \<open>user_dtn.c\<close>, and names it, so that what it points to changes when the buffer does; \<open>ptimes\<close> and
  \<open>pm\<close> are never set.\<close>

datatype ts_buffer = Qinfo_Ms_Ctime_Buf_Min | Qinfo_Ms_Ctime_Buf_Max

record PeerMsg =
  msg_no :: u32
  seq_no :: u32
  msg_value :: u32
  hop_latency :: u32
  queue_occupancy :: u32
  switch_id :: u32
  vlan_id :: u16
  timestamp :: string
  msg_text :: string
  src_ip_addr :: u32
  dst_ip_addr :: u32
  vHopDelay :: u32
  pts :: "ts_buffer option"
  ptimes :: "string option"
  pm :: "string option"

definition zero_msg :: PeerMsg where
  "zero_msg = \<lparr>msg_no = 0, seq_no = 0, msg_value = 0, hop_latency = 0, queue_occupancy = 0,
     switch_id = 0, vlan_id = 0, timestamp = [], msg_text = [], src_ip_addr = 0, dst_ip_addr = 0,
     vHopDelay = 0, pts = None, ptimes = None, pm = None\<rparr>"

record msg_queue =
  sMsg :: "PeerMsg list"
  sMsgsIn :: nat
  sMsgsOut :: nat
  cdone :: bool
  sMsgSeqNo :: u32
  sMsgSeqNoConn :: u32

definition empty_queue :: msg_queue where
  "empty_queue = \<lparr>sMsg = replicate SMSGS_BUFFER_SIZE zero_msg, sMsgsIn = 0, sMsgsOut = 0,
     cdone = False, sMsgSeqNo = 0, sMsgSeqNoConn = 0\<rparr>"

definition q_full :: "msg_queue \<Rightarrow> bool" where
  "q_full q \<longleftrightarrow> (sMsgsIn q + 1) mod SMSGS_BUFFER_SIZE = sMsgsOut q"

definition q_empty :: "msg_queue \<Rightarrow> bool" where
  "q_empty q \<longleftrightarrow> sMsgsIn q = sMsgsOut q"

text \<open>The slot a poster writes, and the common end of the posting sections.\<close>

definition in_slot :: "msg_queue \<Rightarrow> PeerMsg" where
  "in_slot q = sMsg q ! sMsgsIn q"

definition commit_slot :: "PeerMsg \<Rightarrow> msg_queue \<Rightarrow> msg_queue" where
  "commit_slot m q = q\<lparr>sMsg := (sMsg q)[sMsgsIn q := m], cdone := True,
     sMsgsIn := (sMsgsIn q + 1) mod SMSGS_BUFFER_SIZE\<rparr>"

section \<open>The five posters\<close>

definition nl :: string where "nl = [CHR 0x0A]"

definition post_start :: "u16 \<Rightarrow> u32 \<Rightarrow> u32 \<Rightarrow> msg_queue \<Rightarrow> msg_queue option" where
  "post_start vlan src dst q =
    (if q_full q then None
     else let q1 = q\<lparr>sMsgSeqNoConn := sMsgSeqNoConn q + 1\<rparr> in
       Some (commit_slot ((in_slot q)
         \<lparr>msg_text := ''Hello there!!! This is a Start of Traffic  msg...'' @ nl,
          msg_no := htonl TEST_MSG, msg_value := 0, vlan_id := htons vlan,
          src_ip_addr := src, dst_ip_addr := dst, seq_no := htonl (sMsgSeqNoConn q1)\<rparr>) q1))"

definition post_qinfo_hopd :: "u32 \<Rightarrow> u32 \<Rightarrow> u32 \<Rightarrow> u32 \<Rightarrow> msg_queue \<Rightarrow> msg_queue option" where
  "post_qinfo_hopd vQinfo hopd src dst q =
    (if q_full q then None
     else let q1 = q\<lparr>sMsgSeqNo := sMsgSeqNo q + 1\<rparr> in
       Some (commit_slot ((in_slot q)
         \<lparr>msg_text := ''Hello there!!! This is a Qinfo with HopD msg...'' @ nl,
          msg_no := htonl QINFO_MSG, msg_value := htonl vQinfo, vHopDelay := htonl hopd,
          src_ip_addr := src, dst_ip_addr := dst, seq_no := htonl (sMsgSeqNo q1)\<rparr>) q1))"

definition post_qinfo :: "u32 \<Rightarrow> u32 \<Rightarrow> u32 \<Rightarrow> msg_queue \<Rightarrow> msg_queue option" where
  "post_qinfo vQinfo src dst q =
    (if q_full q then None
     else let q1 = q\<lparr>sMsgSeqNo := sMsgSeqNo q + 1\<rparr> in
       Some (commit_slot ((in_slot q)
         \<lparr>msg_text := ''Hello there!!! This is a Qinfo msg...'' @ nl,
          msg_no := htonl QINFO_MSG, msg_value := htonl vQinfo, vHopDelay := 0,
          src_ip_addr := src, dst_ip_addr := dst, seq_no := htonl (sMsgSeqNo q1)\<rparr>) q1))"

definition SendResetCleanUpPacingMsg :: "u32 \<Rightarrow> msg_queue \<Rightarrow> msg_queue option" where
  "SendResetCleanUpPacingMsg src q =
    (if q_full q then None
     else let q1 = q\<lparr>sMsgSeqNo := sMsgSeqNo q + 1\<rparr> in
       Some (commit_slot ((in_slot q)
         \<lparr>msg_text := ''Hello there!!! This is a Reset CleanUp Pacing msg...'' @ nl,
          msg_no := htonl CLEANUP_RESET_PACING_MSG, msg_value := 0, vHopDelay := 0,
          src_ip_addr := src, dst_ip_addr := 0, seq_no := htonl (sMsgSeqNo q1)\<rparr>) q1))"

definition SendResetPacingMsg :: "u32 \<Rightarrow> u32 \<Rightarrow> msg_queue \<Rightarrow> msg_queue option" where
  "SendResetPacingMsg key_src key_dst q =
    (if q_full q then None
     else let q1 = q\<lparr>sMsgSeqNo := sMsgSeqNo q + 1\<rparr> in
       Some (commit_slot ((in_slot q)
         \<lparr>msg_text := ''Hello there!!! This is a Reset Pacing msg...'' @ nl,
          msg_no := htonl RESET_PACING_MSG, msg_value := 0, vHopDelay := 0,
          src_ip_addr := ntohl key_src, dst_ip_addr := ntohl key_dst,
          seq_no := htonl (sMsgSeqNo q1)\<rparr>) q1))"

section \<open>The sender's critical section\<close>

definition take_msg :: "msg_queue \<Rightarrow> (PeerMsg \<times> msg_queue) option" where
  "take_msg q =
    (if q_empty q then None
     else Some (sMsg q ! sMsgsOut q,
       q\<lparr>sMsgsOut := (sMsgsOut q + 1) mod SMSGS_BUFFER_SIZE, cdone := False\<rparr>))"

text \<open>The posts as one operation, and the message each leaves in its slot.\<close>

datatype peer_post =
    Post_Start u16 u32 u32
  | Post_Qinfo_HopD u32 u32 u32 u32
  | Post_Qinfo u32 u32 u32
  | Post_Cleanup u32
  | Post_Reset u32 u32

fun post :: "peer_post \<Rightarrow> msg_queue \<Rightarrow> msg_queue option" where
  "post (Post_Start vlan src dst) q = post_start vlan src dst q"
| "post (Post_Qinfo_HopD v h src dst) q = post_qinfo_hopd v h src dst q"
| "post (Post_Qinfo v src dst) q = post_qinfo v src dst q"
| "post (Post_Cleanup src) q = SendResetCleanUpPacingMsg src q"
| "post (Post_Reset src dst) q = SendResetPacingMsg src dst q"

lemmas post_defs = post_start_def post_qinfo_hopd_def post_qinfo_def
  SendResetCleanUpPacingMsg_def SendResetPacingMsg_def

section \<open>The interface: a bounded FIFO\<close>

text \<open>
  What the code relies on is a bounded first-in first-out queue: a post is refused exactly when
  the queue holds \<open>cap\<close> messages, a take exactly when it holds none, and neither changes the
  messages in between.  A run is a sequence of posts and takes of which none had to wait.
\<close>

datatype 'p queue_op = Put 'p | Take

fun queue_run ::
  "('p \<Rightarrow> 's \<Rightarrow> 's option) \<Rightarrow> ('s \<Rightarrow> ('m \<times> 's) option) \<Rightarrow> ('p \<Rightarrow> 's \<Rightarrow> 'm) \<Rightarrow>
   'p queue_op list \<Rightarrow> 's \<Rightarrow> ('m list \<times> 'm list \<times> 's) option" where
  "queue_run enq deq mk [] s = Some ([], [], s)"
| "queue_run enq deq mk (Put p # ops) s =
    (case enq p s of None \<Rightarrow> None
     | Some s' \<Rightarrow> (case queue_run enq deq mk ops s' of None \<Rightarrow> None
        | Some (posted, taken, s'') \<Rightarrow> Some (mk p s # posted, taken, s'')))"
| "queue_run enq deq mk (Take # ops) s =
    (case deq s of None \<Rightarrow> None
     | Some (m, s') \<Rightarrow> (case queue_run enq deq mk ops s' of None \<Rightarrow> None
        | Some (posted, taken, s'') \<Rightarrow> Some (posted, m # taken, s'')))"

locale bounded_queue =
  fixes enq :: "'p \<Rightarrow> 's \<Rightarrow> 's option"
    and deq :: "'s \<Rightarrow> ('m \<times> 's) option"
    and mk :: "'p \<Rightarrow> 's \<Rightarrow> 'm"
    and cont :: "'s \<Rightarrow> 'm list"
    and inv :: "'s \<Rightarrow> bool"
    and cap :: nat
  assumes enq_inv: "inv s \<Longrightarrow> enq p s = Some s' \<Longrightarrow> inv s'"
    and enq_cont: "inv s \<Longrightarrow> enq p s = Some s' \<Longrightarrow> cont s' = cont s @ [mk p s]"
    and enq_None: "inv s \<Longrightarrow> enq p s = None \<longleftrightarrow> length (cont s) = cap"
    and deq_inv: "inv s \<Longrightarrow> deq s = Some (m, s') \<Longrightarrow> inv s'"
    and deq_cont: "inv s \<Longrightarrow> deq s = Some (m, s') \<Longrightarrow> cont s = m # cont s'"
    and deq_None: "inv s \<Longrightarrow> deq s = None \<longleftrightarrow> cont s = []"
    and cont_cap: "inv s \<Longrightarrow> length (cont s) \<le> cap"
    and cap_pos: "0 < cap"
begin

lemma run_fifo:
  "inv s \<Longrightarrow> queue_run enq deq mk ops s = Some (posted, taken, s') \<Longrightarrow>
   inv s' \<and> cont s @ posted = taken @ cont s' \<and> length (cont s') \<le> cap"
proof (induction ops arbitrary: s posted taken)
  case Nil
  then show ?case by (simp add: cont_cap)
next
  case (Cons a ops)
  show ?case
  proof (cases a)
    case (Put p)
    with Cons.prems obtain s1 p1 where s1: "enq p s = Some s1" "posted = mk p s # p1"
      "queue_run enq deq mk ops s1 = Some (p1, taken, s')"
      by (auto split: option.splits)
    from Cons.IH [OF enq_inv [OF Cons.prems(1) s1(1)] s1(3)] enq_cont [OF Cons.prems(1) s1(1)] s1(2)
    show ?thesis by simp
  next
    case Take
    with Cons.prems obtain m s1 t1 where s1: "deq s = Some (m, s1)" "taken = m # t1"
      "queue_run enq deq mk ops s1 = Some (posted, t1, s')"
      by (auto split: option.splits)
    from Cons.IH [OF deq_inv [OF Cons.prems(1) s1(1)] s1(3)] deq_cont [OF Cons.prems(1) s1(1)] s1(2)
    show ?thesis by simp
  qed
qed

lemma not_stuck: "inv s \<Longrightarrow> enq p s \<noteq> None \<or> deq s \<noteq> None"
  using enq_None deq_None cap_pos by fastforce

lemma put_after_take: "inv s \<Longrightarrow> deq s = Some (m, s') \<Longrightarrow> enq p s' \<noteq> None"
  using deq_cont [of s m s'] cont_cap [of s] enq_None [OF deq_inv, of s m s' p] by simp

lemma drain:
  "inv s \<Longrightarrow> \<exists>s'. queue_run enq deq mk (replicate (length (cont s)) Take) s = Some ([], cont s, s')
     \<and> inv s' \<and> cont s' = []"
proof (induction "cont s" arbitrary: s)
  case Nil
  then show ?case by simp
next
  case (Cons m ms)
  have "deq s \<noteq> None" using deq_None [OF Cons.prems] Cons.hyps(2) by auto
  then obtain m' s1 where s1: "deq s = Some (m', s1)" by auto
  have c: "cont s = m' # cont s1" "inv s1"
    using deq_cont [OF Cons.prems s1] deq_inv [OF Cons.prems s1] by auto
  with Cons.hyps(2) have "ms = cont s1" by simp
  from Cons.hyps(1) [OF this c(2)] s1 c show ?case by auto
qed

end

section \<open>The ring buffer is a bounded FIFO\<close>

definition queue_inv :: "msg_queue \<Rightarrow> bool" where
  "queue_inv q \<longleftrightarrow> length (sMsg q) = SMSGS_BUFFER_SIZE \<and> sMsgsIn q < SMSGS_BUFFER_SIZE
     \<and> sMsgsOut q < SMSGS_BUFFER_SIZE"

definition pending :: "msg_queue \<Rightarrow> nat" where
  "pending q = (sMsgsIn q + SMSGS_BUFFER_SIZE - sMsgsOut q) mod SMSGS_BUFFER_SIZE"

definition contents :: "msg_queue \<Rightarrow> PeerMsg list" where
  "contents q = map (\<lambda>i. sMsg q ! ((sMsgsOut q + i) mod SMSGS_BUFFER_SIZE)) [0..<pending q]"

definition posted_msg :: "peer_post \<Rightarrow> msg_queue \<Rightarrow> PeerMsg" where
  "posted_msg p q = (case post p q of None \<Rightarrow> in_slot q | Some q' \<Rightarrow> sMsg q' ! sMsgsIn q)"

lemma queue_inv_empty [simp]: "queue_inv empty_queue"
  by (simp add: queue_inv_def empty_queue_def SMSGS_BUFFER_SIZE_def)

lemma contents_empty [simp]: "contents empty_queue = []"
  by (simp add: contents_def pending_def empty_queue_def SMSGS_BUFFER_SIZE_def)

lemma length_contents [simp]: "length (contents q) = pending q"
  by (simp add: contents_def)

lemma mod_step_facts:
  fixes i n :: nat
  assumes "i < n" "0 < n"
  shows "(i + 1) mod n = (if i + 1 = n then 0 else i + 1)"
  using assms by auto

lemma pending_le: "queue_inv q \<Longrightarrow> pending q < SMSGS_BUFFER_SIZE"
  by (simp add: pending_def SMSGS_BUFFER_SIZE_def)

lemma pending_alt:
  "queue_inv q \<Longrightarrow> pending q =
     (if sMsgsOut q \<le> sMsgsIn q then sMsgsIn q - sMsgsOut q
      else sMsgsIn q + SMSGS_BUFFER_SIZE - sMsgsOut q)"
  by (auto simp: pending_def queue_inv_def SMSGS_BUFFER_SIZE_def mod_if)

lemma q_full_pending: "queue_inv q \<Longrightarrow> q_full q \<longleftrightarrow> pending q = SMSGS_BUFFER_SIZE - 1"
  by (auto simp: pending_alt q_full_def queue_inv_def SMSGS_BUFFER_SIZE_def mod_if split: if_splits)

lemma q_empty_pending: "queue_inv q \<Longrightarrow> q_empty q \<longleftrightarrow> pending q = 0"
  by (auto simp: pending_alt q_empty_def queue_inv_def SMSGS_BUFFER_SIZE_def)

lemma queue_inv_commit [simp]: "queue_inv q \<Longrightarrow> queue_inv (commit_slot m q)"
  by (simp add: queue_inv_def commit_slot_def SMSGS_BUFFER_SIZE_def)

lemma pending_commit:
  "queue_inv q \<Longrightarrow> \<not> q_full q \<Longrightarrow> pending (commit_slot m q) = Suc (pending q)"
  by (auto simp: pending_alt q_full_def commit_slot_def queue_inv_def SMSGS_BUFFER_SIZE_def mod_if
      split: if_splits)

lemma slot_of_pending:
  assumes q: "queue_inv q" and i: "i \<le> pending q"
  shows "(sMsgsOut q + i) mod SMSGS_BUFFER_SIZE = sMsgsIn q \<longleftrightarrow> i = pending q"
proof -
  have b: "sMsgsOut q < 20" "sMsgsIn q < 20"
    using q by (simp_all add: queue_inv_def SMSGS_BUFFER_SIZE_def)
  have s: "(sMsgsOut q + i) mod 20 = (if sMsgsOut q + i < 20 then sMsgsOut q + i
      else sMsgsOut q + i - 20)"
    using i b pending_le [OF q] by (simp add: mod_if SMSGS_BUFFER_SIZE_def)
  show ?thesis
  proof (cases "sMsgsOut q \<le> sMsgsIn q")
    case True
    with i b s show ?thesis
      by (auto simp: pending_alt [OF q] SMSGS_BUFFER_SIZE_def)
  next
    case False
    with i b s show ?thesis
      by (auto simp: pending_alt [OF q] SMSGS_BUFFER_SIZE_def split: if_splits)
  qed
qed

lemma contents_commit:
  assumes q: "queue_inv q" "\<not> q_full q"
  shows "contents (commit_slot m q) = contents q @ [m]"
proof -
  have "sMsg (commit_slot m q) ! ((sMsgsOut q + i) mod SMSGS_BUFFER_SIZE) =
      sMsg q ! ((sMsgsOut q + i) mod SMSGS_BUFFER_SIZE)" if "i < pending q" for i
    using slot_of_pending [of q i] that q(1) by (simp add: commit_slot_def)
  moreover have "sMsg (commit_slot m q) ! ((sMsgsOut q + pending q) mod SMSGS_BUFFER_SIZE) = m"
    using slot_of_pending [of q "pending q"] q(1) by (simp add: commit_slot_def queue_inv_def)
  moreover have "sMsgsOut (commit_slot m q) = sMsgsOut q"
    by (simp add: commit_slot_def)
  ultimately show ?thesis
    using q by (simp add: contents_def pending_commit)
qed

lemma ring_cong:
  assumes "sMsg q1 = sMsg q" "sMsgsIn q1 = sMsgsIn q" "sMsgsOut q1 = sMsgsOut q"
  shows "contents q1 = contents q" "queue_inv q1 = queue_inv q" "q_full q1 = q_full q"
    "pending q1 = pending q"
  using assms by (simp_all add: contents_def pending_def queue_inv_def q_full_def)

lemma post_shape:
  assumes "post p q = Some q'"
  obtains m q1 where "q' = commit_slot m q1" "sMsg q1 = sMsg q" "sMsgsIn q1 = sMsgsIn q"
    "sMsgsOut q1 = sMsgsOut q" "\<not> q_full q"
  using assms by (cases p) (auto simp: post_defs Let_def split: if_splits)

lemma post_None_iff: "post p q = None \<longleftrightarrow> q_full q"
  by (cases p) (auto simp: post_defs Let_def)

lemma post_step:
  assumes q: "queue_inv q" and p: "post p q = Some q'"
  shows "queue_inv q' \<and> contents q' = contents q @ [posted_msg p q]"
proof -
  obtain m q1 where m: "q' = commit_slot m q1" "sMsg q1 = sMsg q" "sMsgsIn q1 = sMsgsIn q"
    "sMsgsOut q1 = sMsgsOut q" "\<not> q_full q"
    using post_shape [OF p] by metis
  note c = ring_cong [OF m(2,3,4)]
  have "posted_msg p q = m"
    using p q m by (simp add: posted_msg_def commit_slot_def queue_inv_def)
  then show ?thesis
    using m(1,5) q c contents_commit [of q1 m] by simp
qed

lemma take_step:
  assumes q: "queue_inv q" and t: "take_msg q = Some (m, q')"
  shows "queue_inv q' \<and> contents q = m # contents q'"
proof -
  have ne: "pending q \<noteq> 0" and m: "m = sMsg q ! sMsgsOut q"
    and q': "q' = q\<lparr>sMsgsOut := (sMsgsOut q + 1) mod SMSGS_BUFFER_SIZE, cdone := False\<rparr>"
    using t q by (auto simp: take_msg_def q_empty_pending split: if_splits)
  have i: "queue_inv q'" using q q' by (simp add: queue_inv_def SMSGS_BUFFER_SIZE_def)
  obtain n where n: "pending q = Suc n" using ne not0_implies_Suc by blast
  have p: "pending q' = n"
    using n q i q' by (auto simp: pending_alt queue_inv_def SMSGS_BUFFER_SIZE_def mod_if
        split: if_splits)
  have o: "sMsgsOut q mod SMSGS_BUFFER_SIZE = sMsgsOut q"
    using q by (simp add: queue_inv_def)
  have "(sMsgsOut q' + k) mod SMSGS_BUFFER_SIZE = (sMsgsOut q + Suc k) mod SMSGS_BUFFER_SIZE" for k
    using q' by (simp add: mod_add_left_eq)
  moreover have "sMsg q' = sMsg q" using q' by simp
  ultimately have "contents q' = map (\<lambda>k. sMsg q ! ((sMsgsOut q + Suc k) mod SMSGS_BUFFER_SIZE)) [0..<n]"
    by (simp add: contents_def p)
  moreover have "contents q = m # map (\<lambda>k. sMsg q ! ((sMsgsOut q + Suc k) mod SMSGS_BUFFER_SIZE)) [0..<n]"
    using m n o by (simp add: contents_def upt_conv_Cons map_Suc_upt [symmetric] o_def del: upt_Suc)
  ultimately show ?thesis using i by simp
qed

interpretation peer_q: bounded_queue post take_msg posted_msg contents queue_inv
  "SMSGS_BUFFER_SIZE - 1"
proof unfold_locales
  fix q p
  assume q: "queue_inv q"
  show "post p q = None \<longleftrightarrow> length (contents q) = SMSGS_BUFFER_SIZE - 1"
    using q by (simp add: post_None_iff q_full_pending)
next
  fix q
  assume q: "queue_inv q"
  show "take_msg q = None \<longleftrightarrow> contents q = []"
    using q by (simp add: take_msg_def q_empty_pending contents_def)
  show "length (contents q) \<le> SMSGS_BUFFER_SIZE - 1"
    using pending_le [OF q] by simp
qed (auto simp: SMSGS_BUFFER_SIZE_def dest: post_step take_step)

section \<open>Sequence numbers\<close>

text \<open>Start messages are numbered by \<open>sMsgSeqNoConn\<close>, all the others by \<open>sMsgSeqNo\<close>.\<close>

definition is_start :: "PeerMsg \<Rightarrow> bool" where
  "is_start m \<longleftrightarrow> ntohl (msg_no m) = TEST_MSG"

definition seq_of :: "PeerMsg \<Rightarrow> u32" where
  "seq_of m = ntohl (seq_no m)"

lemma msg_no_neq [simp]:
  "QINFO_MSG \<noteq> TEST_MSG" "RESET_PACING_MSG \<noteq> TEST_MSG" "CLEANUP_RESET_PACING_MSG \<noteq> TEST_MSG"
  by (simp_all add: msg_no_defs)

lemma post_seq:
  assumes q: "queue_inv q" and p: "post p q = Some q'"
  shows "if is_start (posted_msg p q)
    then sMsgSeqNo q' = sMsgSeqNo q \<and> sMsgSeqNoConn q' = sMsgSeqNoConn q + 1
      \<and> seq_of (posted_msg p q) = sMsgSeqNoConn q + 1
    else sMsgSeqNo q' = sMsgSeqNo q + 1 \<and> sMsgSeqNoConn q' = sMsgSeqNoConn q
      \<and> seq_of (posted_msg p q) = sMsgSeqNo q + 1"
  using p q by (cases p)
    (auto simp: posted_msg_def post_defs Let_def commit_slot_def queue_inv_def is_start_def
      seq_of_def split: if_splits)

lemma take_seq:
  "take_msg q = Some (m, q') \<Longrightarrow> sMsgSeqNo q' = sMsgSeqNo q \<and> sMsgSeqNoConn q' = sMsgSeqNoConn q"
  by (auto simp: take_msg_def split: if_splits)

definition count_from :: "u32 \<Rightarrow> nat \<Rightarrow> u32 list" where
  "count_from n k = map (\<lambda>i. n + 1 + of_nat i) [0..<k]"

lemma count_from_0 [simp]: "count_from n 0 = []"
  by (simp add: count_from_def)

lemma count_from_Suc [simp]: "count_from n (Suc k) = (n + 1) # count_from (n + 1) k"
  by (simp add: count_from_def upt_conv_Cons map_Suc_upt [symmetric] o_def ac_simps del: upt_Suc)

lemma take_count_from: "k \<le> n \<Longrightarrow> take k (count_from a n) = count_from a k"
  by (simp add: count_from_def take_map)

lemma run_seq:
  "queue_inv q \<Longrightarrow> queue_run post take_msg posted_msg ops q = Some (posted, taken, q') \<Longrightarrow>
   map seq_of (filter (\<lambda>m. \<not> is_start m) posted)
     = count_from (sMsgSeqNo q) (length (filter (\<lambda>m. \<not> is_start m) posted))
   \<and> map seq_of (filter is_start posted)
     = count_from (sMsgSeqNoConn q) (length (filter is_start posted))"
proof (induction ops arbitrary: q posted taken)
  case Nil
  then show ?case by simp
next
  case (Cons a ops)
  show ?case
  proof (cases a)
    case (Put p)
    with Cons.prems obtain s1 p1 where s1: "post p q = Some s1" "posted = posted_msg p q # p1"
      "queue_run post take_msg posted_msg ops s1 = Some (p1, taken, q')"
      by (auto split: option.splits)
    have "queue_inv s1" using post_step [OF Cons.prems(1) s1(1)] by simp
    from Cons.IH [OF this s1(3)] post_seq [OF Cons.prems(1) s1(1)] s1(2)
    show ?thesis by (auto split: if_splits)
  next
    case Take
    with Cons.prems obtain m s1 t1 where s1: "take_msg q = Some (m, s1)"
      "queue_run post take_msg posted_msg ops s1 = Some (posted, t1, q')"
      by (auto split: option.splits)
    have "queue_inv s1" using take_step [OF Cons.prems(1) s1(1)] by simp
    from Cons.IH [OF this s1(2)] take_seq [OF s1(1)] show ?thesis by simp
  qed
qed

section \<open>The sender thread\<close>

text \<open>
  One pass of \<open>fDoRunSendMessageToPeer\<close> over a message it took.  A socket is opened before the
  source address is looked at; \<open>connected\<close> is the value \<open>Connect\<close> returns, \<open>shut\<close> and \<open>closed\<close> those
  of \<open>shutdown\<close> and \<open>close\<close>.  \<open>wire\<close> is what was written, with the address dialled; \<open>mtu_asked\<close> are
  the calls of \<open>fGetMtuInfoOfDevices\<close>; \<open>announced\<close> the kinds and numbers the log names.
\<close>

datatype sent_kind = Sent_QINFO | Sent_RESET | Sent_START

record sender =
  open_fds :: nat
  aDst_IpPrev :: string
  mtu_asked :: "string list"
  wire :: "(string \<times> PeerMsg) list"
  announced :: "(sent_kind \<times> u32) list"

definition sent_kind_of :: "PeerMsg \<Rightarrow> sent_kind" where
  "sent_kind_of m = (if msg_no m \<noteq> 0 \<and> msg_value m \<noteq> 0 then Sent_QINFO
     else if msg_no m \<noteq> 0 then Sent_RESET else Sent_START)"

definition send_dial :: "int \<Rightarrow> PeerMsg \<Rightarrow> sender \<Rightarrow> sender" where
  "send_dial vDebugLevel m s =
    (let aDst_Ip = dotted (dst_ip_addr m);
         asked = (if msg_no m = 0 \<and> 0 < vDebugLevel \<and> aDst_Ip \<noteq> aDst_IpPrev s
                  then mtu_asked s @ [aDst_Ip] else mtu_asked s)
     in s\<lparr>open_fds := open_fds s + 1, mtu_asked := asked, aDst_IpPrev := aDst_Ip\<rparr>)"

definition send_msg :: "int \<Rightarrow> int \<Rightarrow> int \<Rightarrow> int \<Rightarrow> PeerMsg \<Rightarrow> sender \<Rightarrow> sender" where
  "send_msg vDebugLevel connected shut closed m s =
    (if src_ip_addr m = 0 then s\<lparr>open_fds := open_fds s + 1\<rparr>
     else
       let s1 = send_dial vDebugLevel m s in
       if connected \<noteq> 0 then s1
       else
         let m2 = m\<lparr>src_ip_addr := htonl (src_ip_addr m), dst_ip_addr := htonl (dst_ip_addr m)\<rparr>;
             s2 = s1\<lparr>wire := wire s1 @ [(dotted (src_ip_addr m), m2)]\<rparr>;
             s3 = (if shut = 0 \<and> 0 < vDebugLevel
                   then s2\<lparr>announced := announced s2 @ [(sent_kind_of m2, ntohl (seq_no m2))]\<rparr>
                   else s2)
         in (if closed = -1 then s3 else s3\<lparr>open_fds := open_fds s3 - 1\<rparr>))"

text \<open>The pass with its wait: not enabled while the queue is empty.\<close>

definition sender_pass :: "int \<Rightarrow> int \<Rightarrow> int \<Rightarrow> int \<Rightarrow> msg_queue \<times> sender \<Rightarrow> (msg_queue \<times> sender) option" where
  "sender_pass vDebugLevel connected shut closed qs =
    (case take_msg (fst qs) of None \<Rightarrow> None
     | Some (m, q') \<Rightarrow> Some (q', send_msg vDebugLevel connected shut closed m (snd qs)))"

text \<open>What the peer gets of a message: both addresses in network order.\<close>

definition on_wire :: "PeerMsg \<Rightarrow> PeerMsg" where
  "on_wire m = m\<lparr>src_ip_addr := htonl (src_ip_addr m), dst_ip_addr := htonl (dst_ip_addr m)\<rparr>"

text \<open>Detectors that post and the sender's passes, in any order: the messages posted and those the
  sender took with what \<open>Connect\<close> returned for them.\<close>

datatype peer_op = Posting peer_post | Passing int int int

fun peer_run :: "int \<Rightarrow> peer_op list \<Rightarrow> msg_queue \<times> sender \<Rightarrow>
    (PeerMsg list \<times> (PeerMsg \<times> int) list \<times> msg_queue \<times> sender) option" where
  "peer_run dbg [] (q, s) = Some ([], [], q, s)"
| "peer_run dbg (Posting p # ops) (q, s) =
    (case post p q of None \<Rightarrow> None
     | Some q1 \<Rightarrow> (case peer_run dbg ops (q1, s) of None \<Rightarrow> None
        | Some (posted, taken, q', s') \<Rightarrow> Some (posted_msg p q # posted, taken, q', s')))"
| "peer_run dbg (Passing connected shut closed # ops) (q, s) =
    (case (take_msg q, sender_pass dbg connected shut closed (q, s)) of
       (Some (m, _), Some (q1, s1)) \<Rightarrow> (case peer_run dbg ops (q1, s1) of None \<Rightarrow> None
        | Some (posted, taken, q', s') \<Rightarrow> Some (posted, (m, connected) # taken, q', s'))
     | _ \<Rightarrow> None)"

text \<open>A taken message reaches its peer if it has a source and the connection was made.\<close>

definition delivered :: "PeerMsg \<times> int \<Rightarrow> bool" where
  "delivered mc \<longleftrightarrow> src_ip_addr (fst mc) \<noteq> 0 \<and> snd mc = 0"

definition closes :: "peer_op \<Rightarrow> bool" where
  "closes op \<longleftrightarrow> (case op of Passing _ _ closed \<Rightarrow> closed \<noteq> -1 | _ \<Rightarrow> True)"

lemma send_msg_cases:
  assumes "closed \<noteq> -1"
  shows "src_ip_addr m \<noteq> 0 \<and> connected = 0 \<Longrightarrow>
      open_fds (send_msg dbg connected shut closed m s) = open_fds s \<and>
      wire (send_msg dbg connected shut closed m s) = wire s @ [(dotted (src_ip_addr m),
        m\<lparr>src_ip_addr := htonl (src_ip_addr m), dst_ip_addr := htonl (dst_ip_addr m)\<rparr>)]"
    and "\<not> (src_ip_addr m \<noteq> 0 \<and> connected = 0) \<Longrightarrow>
      open_fds (send_msg dbg connected shut closed m s) = open_fds s + 1 \<and>
      wire (send_msg dbg connected shut closed m s) = wire s"
  using assms by (auto simp: send_msg_def send_dial_def Let_def)

section \<open>Properties\<close>

text \<open>First in, first out, nothing lost.  Whatever sequence of posts and takes the detector
  threads and the sender perform, the messages pending before it followed by those posted during
  it are those taken during it followed by those pending after it, and at most 19 are pending.\<close>

theorem peer_queue_fifo:
  assumes "queue_inv q"
    and "queue_run post take_msg posted_msg ops q = Some (posted, taken, q')"
  shows "contents q @ posted = taken @ contents q' \<and> length (contents q') \<le> SMSGS_BUFFER_SIZE - 1"
  using peer_q.run_fifo [OF assms] by simp

lemma run_example:
  "\<exists>posted taken q'. queue_run post take_msg posted_msg
     [Put (Post_Qinfo 500 1 2), Put (Post_Start 7 1 2), Take, Put (Post_Reset 3 4), Take, Take]
     empty_queue = Some (posted, taken, q')"
  by (simp add: post_defs Let_def q_full_def q_empty_def empty_queue_def commit_slot_def
      take_msg_def SMSGS_BUFFER_SIZE_def)

theorem peer_queue_fifo_witness:
  "\<exists>posted taken q'. queue_run post take_msg posted_msg
     [Put (Post_Qinfo 500 1 2), Put (Post_Start 7 1 2), Take, Put (Post_Reset 3 4), Take, Take]
     empty_queue = Some (posted, taken, q') \<and> posted = taken @ contents q'"
  using run_example peer_queue_fifo [OF queue_inv_empty] by fastforce

text \<open>The peer sees no gap.  Of the messages the sender takes from a queue that started
  empty, those that are not start-of-traffic messages carry consecutive sequence numbers from the
  counter's next value on, in the order they are sent, and so do the start-of-traffic messages
  from their own counter (both modulo 2 to the 32).\<close>

theorem peer_seq_no_gap:
  assumes "queue_inv q" "contents q = []"
    and run: "queue_run post take_msg posted_msg ops q = Some (posted, taken, q')"
  shows "map seq_of (filter (\<lambda>m. \<not> is_start m) taken)
      = count_from (sMsgSeqNo q) (length (filter (\<lambda>m. \<not> is_start m) taken))
    \<and> map seq_of (filter is_start taken)
      = count_from (sMsgSeqNoConn q) (length (filter is_start taken))"
proof -
  have p: "posted = taken @ contents q'"
    using peer_q.run_fifo [OF assms(1) run] assms(2) by simp
  have pre: "map seq_of (filter P taken) = count_from a (length (filter P taken))"
    if "map seq_of (filter P posted) = count_from a (length (filter P posted))" for P a
  proof -
    have "map seq_of (filter P taken) = take (length (filter P taken)) (map seq_of (filter P posted))"
      by (simp add: p)
    also have "\<dots> = count_from a (length (filter P taken))"
      unfolding that by (rule take_count_from) (simp add: p)
    finally show ?thesis .
  qed
  show ?thesis using run_seq [OF assms(1) run] pre by blast
qed



text \<open>The sender delivers a message exactly when it has a source address and the connection
  is made: then it dials that address, writes the message with both addresses in network order and
  keeps no socket; otherwise nothing is written and the socket it opened is never closed.\<close>

theorem sender_delivers_or_leaks:
  assumes "closed \<noteq> -1" and "take_msg q = Some (m, q')"
  shows "\<exists>s'. sender_pass dbg connected shut closed (q, s) = Some (q', s')
    \<and> (if src_ip_addr m \<noteq> 0 \<and> connected = 0
       then open_fds s' = open_fds s
         \<and> wire s' = wire s @ [(dotted (src_ip_addr m), m\<lparr>src_ip_addr := htonl (src_ip_addr m),
             dst_ip_addr := htonl (dst_ip_addr m)\<rparr>)]
       else open_fds s' = open_fds s + 1 \<and> wire s' = wire s)"
  using assms send_msg_cases [OF assms(1), of m connected dbg shut s]
  by (auto simp: sender_pass_def)


definition idle_sender :: sender where
  "idle_sender = \<lparr>open_fds = 0, aDst_IpPrev = [], mtu_asked = [], wire = [], announced = []\<rparr>"

definition one_reset_queue :: msg_queue where
  "one_reset_queue = the (post (Post_Reset 3 4) empty_queue)"

theorem sender_delivers_or_leaks_witness:
  "\<exists>m q' s'. take_msg one_reset_queue = Some (m, q')
    \<and> sender_pass 1 (-1) 0 0 (one_reset_queue, idle_sender) = Some (q', s') \<and> open_fds s' = 1"
proof -
  have "\<exists>m q'. take_msg one_reset_queue = Some (m, q')"
    by (simp add: one_reset_queue_def post_defs Let_def q_full_def q_empty_def empty_queue_def
        commit_slot_def take_msg_def SMSGS_BUFFER_SIZE_def)
  then obtain m q' where t: "take_msg one_reset_queue = Some (m, q')" by blast
  then show ?thesis
    using sender_delivers_or_leaks [of 0 one_reset_queue m q' 1 "-1" 0 idle_sender]
    by (auto simp: idle_sender_def)
qed

lemma peer_run_example:
  "\<exists>posted m1 m2 q' s'. peer_run 1 [Posting (Post_Reset 3 4), Posting (Post_Start 7 1 2), Passing (-1) 0 0, Passing 0 0 0]
      (empty_queue, idle_sender) = Some (posted, [(m1, -1), (m2, 0)], q', s') \<and> src_ip_addr m2 \<noteq> 0"
  by (simp add: post_defs Let_def q_full_def q_empty_def empty_queue_def commit_slot_def
      take_msg_def SMSGS_BUFFER_SIZE_def sender_pass_def)


end
