(* ===== verification/C_Double.thy ===== *)
theory C_Double
  imports Dtn_Prelude "HOL-Library.Log_Nat"
begin

text \<open>
  The C type \<open>double\<close>.  A finite double is its rational value; every operation computes the
  exact result and rounds it once, to nearest with ties to even, to a significand of 53 bits
  (\<open>rnd\<close>), as IEEE 754 has it.  A literal is the rounded decimal.  The exponent range is not
  bounded: the rates and percentages the module computes are far from overflow and underflow,
  and no infinity or NaN is a value of the model.  The file ends with the two decimals
  \<open>printf("%.2f")\<close> prints.
\<close>

type_synonym double = rat

section \<open>Rounding\<close>

definition rne :: "rat \<Rightarrow> int" where
  \<comment> \<open>to the nearest integer, ties to even\<close>
  "rne x = (let f = \<lfloor>x\<rfloor>; d = x - of_int f in
     if d < 1 / 2 then f else if 1 / 2 < d then f + 1 else if even f then f else f + 1)"

definition flog2 :: "rat \<Rightarrow> int" where
  \<comment> \<open>the exponent of the leading bit of a positive rational\<close>
  "flog2 x = (let (p, q) = quotient_of x;
                  k = bitlen p - bitlen q
              in if 2 powi k \<le> x then k else k - 1)"

definition rnd_pos :: "rat \<Rightarrow> rat" where
  "rnd_pos x = (let e = flog2 x in of_int (rne (x * 2 powi (52 - e))) * 2 powi (e - 52))"

definition rnd :: "rat \<Rightarrow> double" where
  "rnd x = (if x = 0 then 0 else if 0 < x then rnd_pos x else - rnd_pos (- x))"

section \<open>Arithmetic\<close>

definition dadd :: "double \<Rightarrow> double \<Rightarrow> double" where "dadd x y = rnd (x + y)"
definition dmul :: "double \<Rightarrow> double \<Rightarrow> double" where "dmul x y = rnd (x * y)"
definition ddiv :: "double \<Rightarrow> double \<Rightarrow> double" where "ddiv x y = rnd (x / y)"
definition dint :: "int \<Rightarrow> double" where "dint i = rnd (of_int i)"
definition dlit :: "rat \<Rightarrow> double" where "dlit r = rnd r"

section \<open>Facts about rounding\<close>

lemma rne_of_int [simp]: "rne (of_int i) = i"
  by (simp add: rne_def)

lemma rne_bounds: "x - 1 / 2 \<le> of_int (rne x) \<and> of_int (rne x) \<le> x + 1 / 2"
proof -
  have "of_int \<lfloor>x\<rfloor> \<le> x" "x < of_int \<lfloor>x\<rfloor> + 1" by linarith+
  then show ?thesis by (simp add: rne_def Let_def) linarith
qed

lemma rne_mono: assumes "x \<le> y" shows "rne x \<le> rne y"
proof (cases "\<lfloor>x\<rfloor> = \<lfloor>y\<rfloor>")
  case True
  with assms show ?thesis by (auto simp: rne_def Let_def)
next
  case False
  with assms have lt: "\<lfloor>x\<rfloor> + 1 \<le> \<lfloor>y\<rfloor>" using floor_mono [OF assms] by linarith
  have "rne x \<le> \<lfloor>x\<rfloor> + 1" "\<lfloor>y\<rfloor> \<le> rne y" by (auto simp: rne_def Let_def)
  with lt show ?thesis by linarith
qed

lemma floorlog_pow_bounds:
  assumes "0 < n" shows "(2::rat) powi (int (floorlog 2 n) - 1) \<le> of_nat n"
    and "of_nat n < (2::rat) powi int (floorlog 2 n)"
proof -
  have b: "2 ^ (floorlog 2 n - 1) \<le> n \<and> n < 2 ^ floorlog 2 n"
    using floorlog_bounds [of n 2] assms by simp
  have pos: "0 < floorlog 2 n" using assms by (simp add: floorlog_def)
  have e: "int (floorlog 2 n) - 1 = int (floorlog 2 n - 1)" using pos by simp
  have "(2::rat) ^ (floorlog 2 n - 1) \<le> of_nat n"
    using b by (metis of_nat_le_iff of_nat_numeral of_nat_power)
  then show "(2::rat) powi (int (floorlog 2 n) - 1) \<le> of_nat n"
    unfolding e by simp
  have "of_nat n < (2::rat) ^ floorlog 2 n"
    using b by (metis of_nat_less_iff of_nat_numeral of_nat_power)
  then show "of_nat n < (2::rat) powi int (floorlog 2 n)"
    by simp
qed

lemma flog2_bounds:
  assumes "0 < x" shows "2 powi (flog2 x) \<le> x" and "x < 2 powi (flog2 x + 1)"
proof -
  obtain p q where pq: "quotient_of x = (p, q)" by (cases "quotient_of x")
  have q: "0 < q" using quotient_of_denom_pos [OF pq] .
  have x: "x = of_int p / of_int q" using quotient_of_div [OF pq] .
  have p: "0 < p" using assms q x by (simp add: zero_less_divide_iff)
  let ?a = "int (floorlog 2 (nat p))" and ?b = "int (floorlog 2 (nat q))"
  have pa: "2 powi (?a - 1) \<le> (of_int p :: rat)" "of_int p < (2 :: rat) powi ?a"
    using floorlog_pow_bounds [of "nat p"] p by simp_all
  have qb: "2 powi (?b - 1) \<le> (of_int q :: rat)" "of_int q < (2 :: rat) powi ?b"
    using floorlog_pow_bounds [of "nat q"] q by simp_all
  have "2 powi (?a - 1 - ?b) = (2 :: rat) powi (?a - 1) / 2 powi ?b"
    by (simp add: power_int_diff)
  also have "\<dots> \<le> of_int p / of_int q"
    using pa qb p q by (intro frac_le) auto
  finally have lo: "2 powi (?a - ?b - 1) \<le> x" by (simp add: x algebra_simps)
  have "of_int p / of_int q < (2 :: rat) powi ?a / 2 powi (?b - 1)"
    using pa qb p q by (intro frac_less) auto
  also have "\<dots> = 2 powi (?a - (?b - 1))" by (simp add: power_int_diff)
  finally have hi: "x < 2 powi (?a - ?b + 1)" by (simp add: x algebra_simps)
  show "2 powi (flog2 x) \<le> x" "x < 2 powi (flog2 x + 1)"
    using lo hi by (auto simp: flog2_def pq Let_def bitlen_def)
qed

lemma flog2_mono:
  assumes "0 < x" and "x \<le> y" shows "flog2 x \<le> flog2 y"
proof (rule ccontr)
  assume "\<not> flog2 x \<le> flog2 y"
  then have "(2 :: rat) powi (flog2 y + 1) \<le> 2 powi (flog2 x)"
    by (intro power_int_increasing) auto
  with flog2_bounds [of x] flog2_bounds [of y] assms show False by linarith
qed

lemma rnd_pos_bounds:
  assumes "0 < x" shows "2 powi (flog2 x) \<le> rnd_pos x" and "rnd_pos x \<le> 2 powi (flog2 x + 1)"
proof -
  let ?e = "flog2 x" and ?s = "x * 2 powi (52 - flog2 x)"
  have "(2 :: rat) powi 52 = 2 powi ?e * 2 powi (52 - ?e)" by (simp add: power_int_add [symmetric])
  also have "\<dots> \<le> ?s" using flog2_bounds(1) [OF assms] by (simp add: mult_right_mono)
  finally have "rne (of_int (2 ^ 52)) \<le> rne ?s" by (intro rne_mono) simp
  then have lo: "2 ^ 52 \<le> rne ?s" by (simp only: rne_of_int)
  have "?s \<le> 2 powi (?e + 1) * 2 powi (52 - ?e)"
    using flog2_bounds(2) [OF assms] by (simp add: mult_right_mono)
  also have "\<dots> = (2 :: rat) powi 53" by (simp add: power_int_add [symmetric])
  finally have "rne ?s \<le> rne (of_int (2 ^ 53))" by (intro rne_mono) simp
  then have hi: "rne ?s \<le> 2 ^ 53" by (simp only: rne_of_int)
  have "(2 :: rat) powi ?e = of_int (2 ^ 52) * 2 powi (?e - 52)"
    by (simp add: power_int_diff)
  also have "\<dots> \<le> of_int (rne ?s) * 2 powi (?e - 52)"
    using lo by (intro mult_right_mono) (simp_all only: of_int_le_iff, simp)
  finally show "2 powi ?e \<le> rnd_pos x" by (simp add: rnd_pos_def Let_def)
  have "of_int (rne ?s) * 2 powi (?e - 52) \<le> of_int (2 ^ 53) * (2 :: rat) powi (?e - 52)"
    using hi by (intro mult_right_mono) (simp_all only: of_int_le_iff, simp)
  also have "\<dots> = 2 powi (?e + 1)" by (simp add: power_int_diff power_int_add)
  finally show "rnd_pos x \<le> 2 powi (?e + 1)" by (simp add: rnd_pos_def Let_def)
qed

lemma rnd_pos_mono:
  assumes "0 < x" and "x \<le> y" shows "rnd_pos x \<le> rnd_pos y"
proof (cases "flog2 x = flog2 y")
  case True
  have "rne (x * 2 powi (52 - flog2 y)) \<le> rne (y * 2 powi (52 - flog2 y))"
    using assms by (intro rne_mono mult_right_mono) auto
  with True show ?thesis by (simp add: rnd_pos_def Let_def mult_right_mono)
next
  case False
  with flog2_mono [OF assms] have "flog2 x + 1 \<le> flog2 y" by simp
  then have "(2 :: rat) powi (flog2 x + 1) \<le> 2 powi (flog2 y)" by (intro power_int_increasing) auto
  with rnd_pos_bounds(2) [of x] rnd_pos_bounds(1) [of y] assms show ?thesis by linarith
qed

lemma rnd_pos_pos: "0 < x \<Longrightarrow> 0 < rnd_pos x"
  by (rule less_le_trans [OF _ rnd_pos_bounds(1)]) simp_all

lemma rnd_0 [simp]: "rnd 0 = 0"
  by (simp add: rnd_def)

lemma rnd_mono: assumes "x \<le> y" shows "rnd x \<le> rnd y"
proof -
  consider "0 < x" | "x \<le> 0" "0 \<le> y" | "y < 0" by linarith
  then show ?thesis
  proof cases
    case 1
    with assms show ?thesis by (simp add: rnd_def rnd_pos_mono)
  next
    case 2
    then show ?thesis
      using rnd_pos_pos [of y] rnd_pos_pos [of "- x"] by (simp add: rnd_def) linarith
  next
    case 3
    with assms show ?thesis by (simp add: rnd_def rnd_pos_mono)
  qed
qed

lemma rnd_nonneg: "0 \<le> x \<Longrightarrow> 0 \<le> rnd x"
  using rnd_mono [of 0 x] by simp

lemma rnd_eq_0_iff [simp]: "rnd x = 0 \<longleftrightarrow> x = 0"
  using rnd_pos_pos [of x] rnd_pos_pos [of "- x"] by (auto simp: rnd_def)

lemma rnd_pos_exact:
  assumes "x * 2 powi (52 - flog2 x) = of_int m" shows "rnd_pos x = x"
proof -
  have "rnd_pos x = (x * 2 powi (52 - flog2 x)) * 2 powi (flog2 x - 52)"
    by (simp add: rnd_pos_def Let_def assms)
  also have "\<dots> = x * 2 powi (52 - flog2 x + (flog2 x - 52))"
    by (simp only: mult.assoc) (simp add: power_int_add [symmetric])
  finally show ?thesis by simp
qed

lemma rnd_pos_of_int: assumes "0 < i" and "i < 2 ^ 53" shows "rnd_pos (of_int i) = of_int i"
proof -
  have "flog2 (of_int i) < 53"
  proof (rule ccontr)
    assume "\<not> ?thesis"
    then have "(2 :: rat) powi 53 \<le> 2 powi flog2 (of_int i)" by (intro power_int_increasing) auto
    with flog2_bounds(1) [of "of_int i"] assms have "(2 :: rat) ^ 53 \<le> of_int i" by simp
    then have "(of_int (2 ^ 53) :: rat) \<le> of_int i" by simp
    with assms show False by (simp only: of_int_le_iff)
  qed
  then have "(2 :: rat) powi (52 - flog2 (of_int i)) = of_int (2 ^ nat (52 - flog2 (of_int i)))"
    by (simp add: power_int_def)
  then show ?thesis
    by (intro rnd_pos_exact [where m = "i * 2 ^ nat (52 - flog2 (of_int i))"]) simp
qed

lemma rnd_of_int: "\<bar>i\<bar> < 2 ^ 53 \<Longrightarrow> rnd (of_int i) = of_int i"
  using rnd_pos_of_int [of i] rnd_pos_of_int [of "- i"] by (auto simp: rnd_def)

lemma rnd_numeral: "numeral n < (2 ^ 53 :: int) \<Longrightarrow> rnd (numeral n) = numeral n"
  using rnd_of_int [of "numeral n"] by simp

lemma rnd_1 [simp]: "rnd 1 = 1"
  using rnd_of_int [of 1] by simp

lemma dint_exact: "\<bar>i\<bar> < 2 ^ 53 \<Longrightarrow> dint i = of_int i"
  by (simp add: dint_def rnd_of_int)

lemma dadd_mono: "x \<le> x' \<Longrightarrow> y \<le> y' \<Longrightarrow> dadd x y \<le> dadd x' y'"
  by (simp add: dadd_def rnd_mono add_mono)

lemma dmul_mono: "x \<le> x' \<Longrightarrow> 0 \<le> y \<Longrightarrow> dmul x y \<le> dmul x' y"
  by (simp add: dmul_def rnd_mono mult_right_mono)

lemma dmul_le_bound:
  assumes "0 \<le> x" and "x \<le> n" and "0 \<le> r" and "r \<le> 1" and "rnd n = n"
  shows "dmul x r \<le> n"
proof -
  have "x * r \<le> n * 1" using assms by (intro mult_mono) auto
  then have "rnd (x * r) \<le> rnd n" by (intro rnd_mono) simp
  with assms show ?thesis by (simp add: dmul_def)
qed

section \<open>Printing with a fixed number of decimals\<close>

definition pad_zeros :: "nat \<Rightarrow> string \<Rightarrow> string" where
  "pad_zeros k s = replicate (k - length s) (CHR ''0'') @ s"

definition show_fixed :: "nat \<Rightarrow> double \<Rightarrow> string" where
  \<comment> \<open>\<open>printf("%.kf")\<close> of a double, the value rounded to nearest, ties to even\<close>
  "show_fixed k x =
     (let m = nat \<bar>rne (x * 10 ^ k)\<bar>
      in (if x < 0 then ''-'' else []) @ show_nat (m div 10 ^ k) @
         (if k = 0 then [] else ''.'' @ pad_zeros k (show_nat (m mod 10 ^ k))))"

end
