(* ===== verification/Ip_Table.thy ===== *)
theory Ip_Table
  imports C_Double
begin

text \<open>
  The two tables of peers (\<open>src/userspace/user_dtn.c\<close>): \<open>aSrc_Dtn_IPs\<close>, the sources seen by a
  destination (filled by \<open>sample_func\<close>), and \<open>aDest_Dtn_IPs\<close>, the destinations seen by a source
  (filled by \<open>fDoRunGetMessageFromPeer\<close>), each of \<open>MAX_NUM_IP_ATTACHED\<close> slots with a counter, and
  the housekeeping timer \<open>tHouseKeeping_TimerID_Handler\<close> that clears the idle ones.

  Both fill loops are the same code over different structs, so the loop is one definition over the
  struct's address field; the two callers supply what they write to the slot.
\<close>

definition MAX_NUM_IP_ATTACHED :: nat where "MAX_NUM_IP_ATTACHED = 10"
definition MAX_NUM_PORTS_ON_THIS_IP :: nat where "MAX_NUM_PORTS_ON_THIS_IP = 20"

section \<open>The slots\<close>

record sSrc_Dtn_IPs =
  sip_addr :: u32
  aSrc_Ip2 :: string
  sip_last_time :: time_t
  aSrc_port :: "(u16 \<times> time_t) list"
  sip_rsvd :: u16
  currently_attached_ports :: u32
  sip_exist :: bool

definition zero_src_ip :: sSrc_Dtn_IPs where
  "zero_src_ip = \<lparr>sip_addr = 0, aSrc_Ip2 = [], sip_last_time = 0,
     aSrc_port = replicate MAX_NUM_PORTS_ON_THIS_IP (0, 0), sip_rsvd = 0,
     currently_attached_ports = 0, sip_exist = False\<rparr>"

text \<open>The retransmission counters of a destination; \<open>double\<close>s are rationals rounded by the
  operations of \<open>C_Double\<close>.\<close>

record sRetransmission_Cntrs =
  total_retrans :: u64
  packets_sent :: u64
  int_total_retrans :: u64
  int_packets_sent :: u64
  vRateCount :: int
  fRateArrayDone :: bool
  retr_found :: bool
  vRetransmissionRate :: double

definition zero_retrans :: sRetransmission_Cntrs where
  "zero_retrans = \<lparr>total_retrans = 0, packets_sent = 0, int_total_retrans = 0,
     int_packets_sent = 0, vRateCount = 0, fRateArrayDone = False, retr_found = False,
     vRetransmissionRate = 0\<rparr>"

record sDest_Dtn_IPs =
  dip_addr :: u32
  dip_Ip2 :: string
  dip_Ip2_Binary :: string
  dip_last_time :: time_t
  dip_exist :: bool
  vIsVlan :: u16
  vThis_app_tx_Gbits_per_sec :: double
  retrans_cntrs :: sRetransmission_Cntrs

definition zero_dest_ip :: sDest_Dtn_IPs where
  "zero_dest_ip = \<lparr>dip_addr = 0, dip_Ip2 = [], dip_Ip2_Binary = [], dip_last_time = 0,
     dip_exist = False, vIsVlan = 0, vThis_app_tx_Gbits_per_sec = 0, retrans_cntrs = zero_retrans\<rparr>"

section \<open>The scan, the insertion and the expiry\<close>

text \<open>The loop over the slots with its \<open>break\<close>: the index where the address was found, and
  \<open>First_IP_Index_Not_Exist\<close>, one more than the first free slot passed (0 if none).\<close>

fun scan_ips :: "('e \<Rightarrow> u32) \<Rightarrow> u32 \<Rightarrow> 'e list \<Rightarrow> nat \<Rightarrow> nat \<Rightarrow> nat option \<times> nat" where
  "scan_ips key a [] i first = (None, first)"
| "scan_ips key a (e # es) i first =
    (if key e = a then (Some i, first)
     else scan_ips key a es (i + 1) (if key e = 0 \<and> first = 0 then i + 1 else first))"

text \<open>After the loop: a found slot is touched; otherwise the index is decremented and the slot it
  names is filled.  The third component says that the address was new.\<close>

definition attach_ip ::
  "string \<Rightarrow> ('e \<Rightarrow> u32) \<Rightarrow> ('e \<Rightarrow> 'e) \<Rightarrow> ('e \<Rightarrow> 'e) \<Rightarrow> u32 \<Rightarrow> 'e list \<Rightarrow> u32 \<Rightarrow>
   c_fault + ('e list \<times> u32 \<times> bool)" where
  "attach_ip arr key touch fill a es n =
    (case scan_ips key a es 0 0 of
       (Some i, _) \<Rightarrow> Inr (es[i := touch (es ! i)], n, False)
     | (None, first) \<Rightarrow>
         (let idx = int first - 1 in
          if idx < 0 \<or> int (length es) \<le> idx then Inl (Out_Of_Bounds arr idx)
          else Inr (es[nat idx := fill (es ! nat idx)], n + 1, True)))"

text \<open>The housekeeping loop; the clock is read anew for each slot.\<close>

fun expire_ips ::
  "('e \<Rightarrow> u32) \<Rightarrow> ('e \<Rightarrow> time_t) \<Rightarrow> 'e \<Rightarrow> time_t \<Rightarrow> (nat \<Rightarrow> time_t) \<Rightarrow> nat \<Rightarrow> 'e list \<Rightarrow> u32 \<Rightarrow>
   'e list \<times> u32" where
  "expire_ips key tm z house clk i [] n = ([], n)"
| "expire_ips key tm z house clk i (e # es) n =
    (if key e \<noteq> 0 \<and> clk i - tm e \<ge> house
     then (let (es', n') = expire_ips key tm z house clk (i + 1) es (n - 1) in (z # es', n'))
     else (let (es', n') = expire_ips key tm z house clk (i + 1) es n in (e # es', n')))"

section \<open>The two tables\<close>

record ip_tables =
  aSrc_Dtn_IPs :: "sSrc_Dtn_IPs list"
  currently_attached_networks :: u32
  new_traffic :: bool
  vIamADestDtn :: bool
  aDest_Dtn_IPs :: "sDest_Dtn_IPs list"
  currently_dest_networks :: u32
  vIamASrcDtn :: bool
  aDest_Ip2 :: string
  aDest_Ip2_Binary :: string

definition no_peers :: ip_tables where
  "no_peers = \<lparr>aSrc_Dtn_IPs = replicate MAX_NUM_IP_ATTACHED zero_src_ip,
     currently_attached_networks = 0, new_traffic = False, vIamADestDtn = False,
     aDest_Dtn_IPs = replicate MAX_NUM_IP_ATTACHED zero_dest_ip, currently_dest_networks = 0,
     vIamASrcDtn = False, aDest_Ip2 = [], aDest_Ip2_Binary = []\<rparr>"

definition src_touch :: "time_t \<Rightarrow> sSrc_Dtn_IPs \<Rightarrow> sSrc_Dtn_IPs" where
  "src_touch clk e = e\<lparr>sip_exist := True, sip_last_time := clk\<rparr>"

definition src_fill :: "time_t \<Rightarrow> u32 \<Rightarrow> sSrc_Dtn_IPs \<Rightarrow> sSrc_Dtn_IPs" where
  "src_fill clk a e = e\<lparr>aSrc_Ip2 := dotted a, sip_exist := True, sip_last_time := clk,
     sip_addr := a\<rparr>"

definition attach_src :: "time_t \<Rightarrow> u32 \<Rightarrow> ip_tables \<Rightarrow> c_fault + ip_tables" where
  "attach_src clk a t =
    bindE (attach_ip ''aSrc_Dtn_IPs'' sip_addr (src_touch clk) (src_fill clk a) a
            (aSrc_Dtn_IPs t) (currently_attached_networks t))
      (\<lambda>(es, n, new). Inr (t\<lparr>aSrc_Dtn_IPs := es, currently_attached_networks := n,
                             new_traffic := new\<rparr>))"

definition dest_touch :: "time_t \<Rightarrow> sDest_Dtn_IPs \<Rightarrow> sDest_Dtn_IPs" where
  "dest_touch clk e = e\<lparr>dip_exist := True, dip_last_time := clk\<rparr>"

definition dest_fill :: "time_t \<Rightarrow> u32 \<Rightarrow> sDest_Dtn_IPs \<Rightarrow> sDest_Dtn_IPs" where
  "dest_fill clk a e = e\<lparr>dip_addr := a, dip_exist := True, dip_last_time := clk,
     dip_Ip2_Binary := hex08 a, dip_Ip2 := dotted a\<rparr>"

definition attach_dest :: "time_t \<Rightarrow> u32 \<Rightarrow> ip_tables \<Rightarrow> c_fault + ip_tables" where
  "attach_dest clk a t =
    bindE (attach_ip ''aDest_Dtn_IPs'' dip_addr (dest_touch clk) (dest_fill clk a) a
            (aDest_Dtn_IPs t) (currently_dest_networks t))
      (\<lambda>(es, n, new). Inr (t\<lparr>aDest_Dtn_IPs := es, currently_dest_networks := n,
                             aDest_Ip2_Binary := hex08 a, vIamASrcDtn := True,
                             aDest_Ip2 := dotted a\<rparr>))"

definition house_src :: "time_t \<Rightarrow> (nat \<Rightarrow> time_t) \<Rightarrow> ip_tables \<Rightarrow> ip_tables" where
  "house_src vHouseTime clk t =
    (if vIamADestDtn t
     then let (es, n) = expire_ips sip_addr sip_last_time zero_src_ip vHouseTime clk 0
                (aSrc_Dtn_IPs t) (currently_attached_networks t)
          in t\<lparr>aSrc_Dtn_IPs := es, currently_attached_networks := n, vIamADestDtn := (n \<noteq> 0)\<rparr>
     else t)"

definition house_dest :: "time_t \<Rightarrow> (nat \<Rightarrow> time_t) \<Rightarrow> ip_tables \<Rightarrow> ip_tables" where
  "house_dest vHouseTime clk t =
    (if vIamASrcDtn t
     then let (es, n) = expire_ips dip_addr dip_last_time zero_dest_ip vHouseTime clk 0
                (aDest_Dtn_IPs t) (currently_dest_networks t)
          in t\<lparr>aDest_Dtn_IPs := es, currently_dest_networks := n, vIamASrcDtn := (n \<noteq> 0)\<rparr>
     else t)"

definition tHouseKeeping_TimerID_Handler ::
  "time_t \<Rightarrow> (nat \<Rightarrow> time_t) \<Rightarrow> (nat \<Rightarrow> time_t) \<Rightarrow> ip_tables \<Rightarrow> ip_tables" where
  "tHouseKeeping_TimerID_Handler vHouseTime clk_src clk_dest t =
    house_dest vHouseTime clk_dest (house_src vHouseTime clk_src t)"

section \<open>The interface: slots keyed by an address\<close>

text \<open>What both tables promise: the addresses in use are distinct, and the counter is their
  number.  The laws are those of the structs: a cleared slot has address 0, touching a slot keeps
  its address, filling it sets it.\<close>

definition live_keys :: "('e \<Rightarrow> u32) \<Rightarrow> 'e list \<Rightarrow> u32 list" where
  "live_keys key es = filter (\<lambda>k. k \<noteq> 0) (map key es)"

definition slots_ok :: "('e \<Rightarrow> u32) \<Rightarrow> 'e list \<Rightarrow> u32 \<Rightarrow> bool" where
  "slots_ok key es n \<longleftrightarrow> length es = MAX_NUM_IP_ATTACHED \<and> distinct (live_keys key es)
     \<and> n = of_nat (length (live_keys key es))"

lemma live_keys_simps [simp]:
  "live_keys key [] = []"
  "live_keys key (e # es) = (if key e = 0 then live_keys key es else key e # live_keys key es)"
  "live_keys key (xs @ ys) = live_keys key xs @ live_keys key ys"
  by (simp_all add: live_keys_def)

lemma set_live_keys: "set (live_keys key es) = key ` set es - {0}"
  by (auto simp: live_keys_def)

lemma live_keys_update:
  assumes "i < length es"
  shows "live_keys key (es[i := e]) =
    live_keys key (take i es) @ (if key e = 0 then [] else [key e]) @ live_keys key (drop (Suc i) es)"
  using assms by (simp add: upd_conv_take_nth_drop)

lemma live_keys_split:
  assumes "i < length es"
  shows "live_keys key es =
    live_keys key (take i es) @ (if key (es ! i) = 0 then [] else [key (es ! i)])
      @ live_keys key (drop (Suc i) es)"
  using live_keys_update [OF assms, of key "es ! i"] by simp

lemma length_live_keys: "length (live_keys key es) \<le> length es"
  by (induction es) auto

lemma live_keys_full: "length (live_keys key es) = length es \<longleftrightarrow> (\<forall>e \<in> set es. key e \<noteq> 0)"
proof (induction es)
  case (Cons e es)
  then show ?case using length_live_keys [of key es] by auto
qed simp

lemma scan_ips_found:
  "scan_ips key a es i first = (Some j, f) \<Longrightarrow>
     i \<le> j \<and> j < i + length es \<and> key (es ! (j - i)) = a"
  by (induction key a es i first arbitrary: j f rule: scan_ips.induct)
     (fastforce split: if_splits simp: nth_Cons')+

lemma scan_ips_None:
  "scan_ips key a es i first = (None, f) \<Longrightarrow> a \<notin> key ` set es"
  by (induction key a es i first rule: scan_ips.induct) (auto split: if_splits)

lemma scan_ips_first_kept:
  "scan_ips key a es i first = (None, f) \<Longrightarrow> first \<noteq> 0 \<Longrightarrow> f = first"
  by (induction key a es i first rule: scan_ips.induct) (auto split: if_splits)

lemma scan_ips_first:
  "scan_ips key a es i 0 = (None, f) \<Longrightarrow>
     (f = 0 \<and> 0 \<notin> key ` set es) \<or>
     (i < f \<and> f \<le> i + length es \<and> key (es ! (f - 1 - i)) = 0)"
proof (induction es arbitrary: i)
  case (Cons e es)
  show ?case
  proof (cases "key e = 0")
    case True
    with Cons.prems have "scan_ips key a es (i + 1) (i + 1) = (None, f)"
      by (simp split: if_splits)
    then have "f = i + 1" using scan_ips_first_kept by fastforce
    with True show ?thesis by simp
  next
    case False
    with Cons.prems have "scan_ips key a es (i + 1) 0 = (None, f)"
      by (simp split: if_splits)
    from Cons.IH [OF this] False show ?thesis
      by (auto simp: nth_Cons' Suc_diff_le)
  qed
qed simp

lemma scan_ips_present:
  "a \<in> key ` set es \<Longrightarrow> \<exists>j f. scan_ips key a es i first = (Some j, f)"
  by (induction key a es i first rule: scan_ips.induct) auto

lemma expire_ips_nth:
  "expire_ips key tm z house clk k es n = (es', n') \<Longrightarrow>
     length es' = length es \<and>
     (\<forall>i < length es. es' ! i = (if key (es ! i) \<noteq> 0 \<and> clk (k + i) - tm (es ! i) \<ge> house
        then z else es ! i))"
proof (induction es arbitrary: k n es' n')
  case (Cons e es)
  obtain es1 n1 where r: "expire_ips key tm z house clk (k + 1) es
      (if key e \<noteq> 0 \<and> clk k - tm e \<ge> house then n - 1 else n) = (es1, n1)"
    by fastforce
  with Cons.prems have "es' = (if key e \<noteq> 0 \<and> clk k - tm e \<ge> house then z else e) # es1"
    by (auto split: if_splits)
  with Cons.IH [OF r] show ?case
    by (auto simp: nth_Cons' less_Suc_eq_0_disj)
qed simp

locale keyed_slots =
  fixes key :: "'e \<Rightarrow> u32"
    and tm :: "'e \<Rightarrow> time_t"
    and z :: 'e
    and touch :: "time_t \<Rightarrow> 'e \<Rightarrow> 'e"
    and fill :: "time_t \<Rightarrow> u32 \<Rightarrow> 'e \<Rightarrow> 'e"
    and arr :: string
  assumes key_zero: "key z = 0"
    and key_touch: "key (touch c e) = key e"
    and key_fill: "key (fill c a e) = a"
    and tm_touch: "tm (touch c e) = c"
    and tm_fill: "tm (fill c a e) = c"
begin

lemma attach_found:
  assumes "attach_ip arr key (touch c) (fill c a) a es n = Inr (es', n', new)" "\<not> new"
  obtains i where "i < length es" "key (es ! i) = a" "es' = es[i := touch c (es ! i)]" "n' = n"
  using assms scan_ips_found [of key a es 0 0]
  by (auto simp: attach_ip_def Let_def split: option.splits prod.splits if_splits)

lemma attach_new:
  assumes "attach_ip arr key (touch c) (fill c a) a es n = Inr (es', n', new)" "new"
  obtains i where "i < length es" "key (es ! i) = 0" "es' = es[i := fill c a (es ! i)]"
    "n' = n + 1" "a \<notin> key ` set es"
proof -
  obtain f where f: "scan_ips key a es 0 0 = (None, f)" "0 < f"
    "es' = es[f - 1 := fill c a (es ! (f - 1))]" "n' = n + 1"
    using assms by (auto simp: attach_ip_def Let_def nat_diff_distrib split: option.splits prod.splits if_splits)
  have "f \<le> length es" "key (es ! (f - 1)) = 0"
    using scan_ips_first [OF f(1)] f(2) by auto
  with f scan_ips_None [OF f(1)] that [of "f - 1"] show ?thesis by auto
qed

lemma attach_ok:
  assumes ok: "slots_ok key es n"
    and r: "attach_ip arr key (touch c) (fill c a) a es n = Inr (es', n', new)"
  shows "slots_ok key es' n'"
    and "set (live_keys key es') = insert a (set (live_keys key es)) - {0}"
    and "new \<longleftrightarrow> a \<notin> key ` set es"
proof -
  have "slots_ok key es' n' \<and> set (live_keys key es') = insert a (set (live_keys key es)) - {0}
      \<and> (new \<longleftrightarrow> a \<notin> key ` set es)"
  proof (cases new)
    case True
    obtain i where i: "i < length es" "key (es ! i) = 0" "es' = es[i := fill c a (es ! i)]"
      "n' = n + 1" "a \<notin> key ` set es"
      using attach_new [OF r True] by metis
    have "a \<noteq> 0" using i(1,2,5) nth_mem by force
    moreover have "a \<notin> set (live_keys key es)" using i(5) by (simp add: set_live_keys)
    moreover have "live_keys key es = live_keys key (take i es) @ live_keys key (drop (Suc i) es)"
      using live_keys_split [OF i(1), of key] i(2) by simp
    moreover have "live_keys key es' = live_keys key (take i es) @ [a] @ live_keys key (drop (Suc i) es)"
      using live_keys_update [OF i(1), of key "fill c a (es ! i)"] i(3) key_fill \<open>a \<noteq> 0\<close> by simp
    ultimately show ?thesis
      using ok i True by (auto simp: slots_ok_def set_live_keys)
  next
    case False
    obtain i where i: "i < length es" "key (es ! i) = a" "es' = es[i := touch c (es ! i)]" "n' = n"
      using attach_found [OF r False] by metis
    have "live_keys key es' = live_keys key es"
      using live_keys_update [OF i(1), of key "touch c (es ! i)"] live_keys_split [OF i(1), of key]
        i(3) key_touch by simp
    moreover have "a \<in> key ` set es" using i(1,2) nth_mem by force
    ultimately show ?thesis
      using ok i False by (auto simp: slots_ok_def set_live_keys)
  qed
  then show "slots_ok key es' n'"
    and "set (live_keys key es') = insert a (set (live_keys key es)) - {0}"
    and "new \<longleftrightarrow> a \<notin> key ` set es" by simp_all
qed

lemma attach_fault_iff:
  assumes ok: "slots_ok key es n"
  shows "attach_ip arr key (touch c) (fill c a) a es n = Inl e \<longleftrightarrow>
    e = Out_Of_Bounds arr (- 1) \<and> a \<notin> key ` set es \<and> length (live_keys key es) = MAX_NUM_IP_ATTACHED"
proof (cases "a \<in> key ` set es")
  case True
  then show ?thesis
    using scan_ips_present [of a key es 0 0] by (auto simp: attach_ip_def)
next
  case False
  obtain f where f: "scan_ips key a es 0 0 = (None, f)"
    using scan_ips_found [of key a es 0 0] False
    by (cases "scan_ips key a es 0 0"; cases "fst (scan_ips key a es 0 0)") fastforce+
  have l: "length (live_keys key es) = MAX_NUM_IP_ATTACHED \<longleftrightarrow> 0 \<notin> key ` set es"
    using live_keys_full [of key es] ok by (auto simp: slots_ok_def)
  show ?thesis
  proof (cases "f = 0")
    case True
    then have "0 \<notin> key ` set es"
      using scan_ips_first [OF f] by auto
    with True f False l show ?thesis by (auto simp: attach_ip_def)
  next
    case nz: False
    then have "f \<le> length es" "key (es ! (f - 1)) = 0"
      using scan_ips_first [OF f] by auto
    moreover from this nz have "0 \<in> key ` set es" using nth_mem [of "f - 1" es] by force
    ultimately show ?thesis using nz f False l by (auto simp: attach_ip_def Let_def)
  qed
qed

lemma expire_live:
  "expire_ips key tm z house clk k es n = (es', n') \<Longrightarrow>
     n' + of_nat (length (live_keys key es)) = n + of_nat (length (live_keys key es'))
     \<and> set (live_keys key es') \<subseteq> set (live_keys key es)
     \<and> (distinct (live_keys key es) \<longrightarrow> distinct (live_keys key es'))"
proof (induction es arbitrary: k n es' n')
  case (Cons e es)
  let ?x = "key e \<noteq> 0 \<and> clk k - tm e \<ge> house"
  obtain es1 n1 where r: "expire_ips key tm z house clk (k + 1) es (if ?x then n - 1 else n) = (es1, n1)"
    by fastforce
  with Cons.prems have e: "es' = (if ?x then z else e) # es1" "n' = n1"
    by (auto split: if_splits)
  from Cons.IH [OF r] e key_zero show ?case
    by (auto simp: algebra_simps)
qed simp

lemma expire_ok:
  assumes "slots_ok key es n" "expire_ips key tm z house clk k es n = (es', n')"
  shows "slots_ok key es' n'"
  using assms expire_live [OF assms(2)] expire_ips_nth [OF assms(2)]
  by (auto simp: slots_ok_def)

end

interpretation src_slots: keyed_slots sip_addr sip_last_time zero_src_ip src_touch src_fill
  "''aSrc_Dtn_IPs''"
  by unfold_locales (simp_all add: zero_src_ip_def src_touch_def src_fill_def)

interpretation dest_slots: keyed_slots dip_addr dip_last_time zero_dest_ip dest_touch dest_fill
  "''aDest_Dtn_IPs''"
  by unfold_locales (simp_all add: zero_dest_ip_def dest_touch_def dest_fill_def)

section \<open>Both tables through a run\<close>

definition tables_ok :: "ip_tables \<Rightarrow> bool" where
  "tables_ok t \<longleftrightarrow> slots_ok sip_addr (aSrc_Dtn_IPs t) (currently_attached_networks t)
     \<and> slots_ok dip_addr (aDest_Dtn_IPs t) (currently_dest_networks t)"

definition sources :: "ip_tables \<Rightarrow> u32 list" where
  "sources t = live_keys sip_addr (aSrc_Dtn_IPs t)"

definition destinations :: "ip_tables \<Rightarrow> u32 list" where
  "destinations t = live_keys dip_addr (aDest_Dtn_IPs t)"

text \<open>A packet from a source, a connection of a peer, a firing of the housekeeping timer.\<close>

datatype table_event = Packet_From time_t u32 | Peer_Connects time_t u32
  | Housekeeping "time_t list" "time_t list"

fun table_step :: "time_t \<Rightarrow> table_event \<Rightarrow> ip_tables \<Rightarrow> c_fault + ip_tables" where
  "table_step house (Packet_From clk a) t = attach_src clk a t"
| "table_step house (Peer_Connects clk a) t = attach_dest clk a t"
| "table_step house (Housekeeping cs cd) t =
     Inr (tHouseKeeping_TimerID_Handler house (\<lambda>i. cs ! i) (\<lambda>i. cd ! i) t)"

fun table_run :: "time_t \<Rightarrow> table_event list \<Rightarrow> ip_tables \<Rightarrow> c_fault + ip_tables" where
  "table_run house [] t = Inr t"
| "table_run house (e # es) t = bindE (table_step house e t) (table_run house es)"

fun event_src :: "table_event \<Rightarrow> u32 set" where
  "event_src (Packet_From clk a) = {a}"
| "event_src (Peer_Connects clk a) = {}"
| "event_src (Housekeeping cs cd) = {}"

fun event_dest :: "table_event \<Rightarrow> u32 set" where
  "event_dest (Packet_From clk a) = {}"
| "event_dest (Peer_Connects clk a) = {a}"
| "event_dest (Housekeeping cs cd) = {}"

lemma tables_ok_no_peers [simp]: "tables_ok no_peers"
  by (simp add: tables_ok_def slots_ok_def no_peers_def zero_src_ip_def zero_dest_ip_def
      live_keys_def)

lemma live_no_peers [simp]: "sources no_peers = []" "destinations no_peers = []"
  by (simp_all add: sources_def destinations_def no_peers_def zero_src_ip_def zero_dest_ip_def
      live_keys_def)

lemma attach_src_Inr:
  assumes "tables_ok t" "attach_src clk a t = Inr t'"
  shows "tables_ok t'" "set (sources t') = insert a (set (sources t)) - {0}"
    "destinations t' = destinations t"
    "new_traffic t' \<longleftrightarrow> a \<notin> sip_addr ` set (aSrc_Dtn_IPs t)"
proof -
  obtain es n new where r: "attach_ip ''aSrc_Dtn_IPs'' sip_addr (src_touch clk) (src_fill clk a) a
      (aSrc_Dtn_IPs t) (currently_attached_networks t) = Inr (es, n, new)"
    "t' = t\<lparr>aSrc_Dtn_IPs := es, currently_attached_networks := n, new_traffic := new\<rparr>"
    using assms(2) by (auto simp: attach_src_def bindE_Inr_iff)
  have ok: "slots_ok sip_addr (aSrc_Dtn_IPs t) (currently_attached_networks t)"
    using assms(1) by (simp add: tables_ok_def)
  from src_slots.attach_ok [OF ok r(1)] assms(1) r(2)
  show "tables_ok t'" "set (sources t') = insert a (set (sources t)) - {0}"
    "destinations t' = destinations t"
    "new_traffic t' \<longleftrightarrow> a \<notin> sip_addr ` set (aSrc_Dtn_IPs t)"
    by (simp_all add: tables_ok_def sources_def destinations_def)
qed

lemma attach_dest_Inr:
  assumes "tables_ok t" "attach_dest clk a t = Inr t'"
  shows "tables_ok t'" "set (destinations t') = insert a (set (destinations t)) - {0}"
    "sources t' = sources t" "vIamASrcDtn t'"
proof -
  obtain es n new where r: "attach_ip ''aDest_Dtn_IPs'' dip_addr (dest_touch clk) (dest_fill clk a) a
      (aDest_Dtn_IPs t) (currently_dest_networks t) = Inr (es, n, new)"
    "t' = t\<lparr>aDest_Dtn_IPs := es, currently_dest_networks := n, aDest_Ip2_Binary := hex08 a,
       vIamASrcDtn := True, aDest_Ip2 := dotted a\<rparr>"
    using assms(2) by (auto simp: attach_dest_def bindE_Inr_iff)
  have ok: "slots_ok dip_addr (aDest_Dtn_IPs t) (currently_dest_networks t)"
    using assms(1) by (simp add: tables_ok_def)
  from dest_slots.attach_ok [OF ok r(1)] assms(1) r(2)
  show "tables_ok t'" "set (destinations t') = insert a (set (destinations t)) - {0}"
    "sources t' = sources t" "vIamASrcDtn t'"
    by (simp_all add: tables_ok_def sources_def destinations_def)
qed

lemma attach_src_Inl_iff:
  assumes "tables_ok t"
  shows "attach_src clk a t = Inl e \<longleftrightarrow> e = Out_Of_Bounds ''aSrc_Dtn_IPs'' (- 1)
    \<and> a \<notin> sip_addr ` set (aSrc_Dtn_IPs t) \<and> length (sources t) = MAX_NUM_IP_ATTACHED"
proof -
  have "attach_src clk a t = Inl e \<longleftrightarrow> attach_ip ''aSrc_Dtn_IPs'' sip_addr (src_touch clk)
      (src_fill clk a) a (aSrc_Dtn_IPs t) (currently_attached_networks t) = Inl e"
    by (auto simp: attach_src_def bindE_def split: sum.splits prod.splits)
  with src_slots.attach_fault_iff assms show ?thesis
    unfolding tables_ok_def sources_def by blast
qed

lemma attach_dest_Inl_iff:
  assumes "tables_ok t"
  shows "attach_dest clk a t = Inl e \<longleftrightarrow> e = Out_Of_Bounds ''aDest_Dtn_IPs'' (- 1)
    \<and> a \<notin> dip_addr ` set (aDest_Dtn_IPs t) \<and> length (destinations t) = MAX_NUM_IP_ATTACHED"
proof -
  have "attach_dest clk a t = Inl e \<longleftrightarrow> attach_ip ''aDest_Dtn_IPs'' dip_addr (dest_touch clk)
      (dest_fill clk a) a (aDest_Dtn_IPs t) (currently_dest_networks t) = Inl e"
    by (auto simp: attach_dest_def bindE_def split: sum.splits prod.splits)
  with dest_slots.attach_fault_iff assms show ?thesis
    unfolding tables_ok_def destinations_def by blast
qed

lemma house_src_ok:
  assumes "tables_ok t"
  shows "tables_ok (house_src house clk t)"
    and "set (sources (house_src house clk t)) \<subseteq> set (sources t)"
    and "destinations (house_src house clk t) = destinations t"
    and "vIamASrcDtn (house_src house clk t) = vIamASrcDtn t"
proof -
  obtain es n where r: "expire_ips sip_addr sip_last_time zero_src_ip house clk 0 (aSrc_Dtn_IPs t)
      (currently_attached_networks t) = (es, n)" by fastforce
  show "tables_ok (house_src house clk t)"
    and "set (sources (house_src house clk t)) \<subseteq> set (sources t)"
    and "destinations (house_src house clk t) = destinations t"
    and "vIamASrcDtn (house_src house clk t) = vIamASrcDtn t"
    using assms src_slots.expire_ok [OF _ r] src_slots.expire_live [OF r]
    by (simp_all add: house_src_def r tables_ok_def sources_def destinations_def)
qed

lemma house_dest_ok:
  assumes "tables_ok t"
  shows "tables_ok (house_dest house clk t)"
    and "set (destinations (house_dest house clk t)) \<subseteq> set (destinations t)"
    and "sources (house_dest house clk t) = sources t"
    and "vIamADestDtn (house_dest house clk t) = vIamADestDtn t"
proof -
  obtain es n where r: "expire_ips dip_addr dip_last_time zero_dest_ip house clk 0 (aDest_Dtn_IPs t)
      (currently_dest_networks t) = (es, n)" by fastforce
  show "tables_ok (house_dest house clk t)"
    and "set (destinations (house_dest house clk t)) \<subseteq> set (destinations t)"
    and "sources (house_dest house clk t) = sources t"
    and "vIamADestDtn (house_dest house clk t) = vIamADestDtn t"
    using assms dest_slots.expire_ok [OF _ r] dest_slots.expire_live [OF r]
    by (simp_all add: house_dest_def r tables_ok_def sources_def destinations_def)
qed

lemma table_step_Inr:
  assumes "tables_ok t" "table_step house e t = Inr t'"
  shows "tables_ok t'" "set (sources t') \<subseteq> set (sources t) \<union> event_src e"
    "set (destinations t') \<subseteq> set (destinations t) \<union> event_dest e"
proof -
  have "tables_ok t' \<and> set (sources t') \<subseteq> set (sources t) \<union> event_src e
      \<and> set (destinations t') \<subseteq> set (destinations t) \<union> event_dest e"
  proof (cases e)
    case (Packet_From clk a)
    then show ?thesis using attach_src_Inr [OF assms(1)] assms(2) by auto
  next
    case (Peer_Connects clk a)
    then show ?thesis using attach_dest_Inr [OF assms(1)] assms(2) by auto
  next
    case (Housekeeping cs cd)
    let ?t1 = "house_src house (\<lambda>i. cs ! i) t"
    have "t' = house_dest house (\<lambda>i. cd ! i) ?t1"
      using Housekeeping assms(2) by (simp add: tHouseKeeping_TimerID_Handler_def)
    then show ?thesis
      using house_src_ok [OF assms(1), of house "\<lambda>i. cs ! i"] house_dest_ok [of ?t1 house "\<lambda>i. cd ! i"]
      by auto
  qed
  then show "tables_ok t'" "set (sources t') \<subseteq> set (sources t) \<union> event_src e"
    "set (destinations t') \<subseteq> set (destinations t) \<union> event_dest e" by simp_all
qed

lemma table_run_Inr:
  "tables_ok t \<Longrightarrow> table_run house es t = Inr t' \<Longrightarrow>
     tables_ok t' \<and> set (sources t') \<subseteq> set (sources t) \<union> (\<Union>e \<in> set es. event_src e)
     \<and> set (destinations t') \<subseteq> set (destinations t) \<union> (\<Union>e \<in> set es. event_dest e)"
proof (induction es arbitrary: t)
  case (Cons e es)
  then obtain t1 where "table_step house e t = Inr t1" "table_run house es t1 = Inr t'"
    by (auto simp: bindE_Inr_iff)
  with Cons.IH [OF table_step_Inr(1) [OF Cons.prems(1)]] table_step_Inr [OF Cons.prems(1)]
  show ?case by fastforce
qed simp

lemma attach_src_full:
  assumes "tables_ok t" "attach_src clk a t = Inl e"
  shows "card (insert a (set (sources t))) = Suc MAX_NUM_IP_ATTACHED"
proof -
  from attach_src_Inl_iff [OF assms(1)] assms(2)
  have "a \<notin> set (sources t)" "length (sources t) = MAX_NUM_IP_ATTACHED"
    by (auto simp: sources_def set_live_keys)
  moreover have "distinct (sources t)"
    using assms(1) by (simp add: tables_ok_def slots_ok_def sources_def)
  ultimately show ?thesis by (simp add: distinct_card)
qed

lemma attach_dest_full:
  assumes "tables_ok t" "attach_dest clk a t = Inl e"
  shows "card (insert a (set (destinations t))) = Suc MAX_NUM_IP_ATTACHED"
proof -
  from attach_dest_Inl_iff [OF assms(1)] assms(2)
  have "a \<notin> set (destinations t)" "length (destinations t) = MAX_NUM_IP_ATTACHED"
    by (auto simp: destinations_def set_live_keys)
  moreover have "distinct (destinations t)"
    using assms(1) by (simp add: tables_ok_def slots_ok_def destinations_def)
  ultimately show ?thesis by (simp add: distinct_card)
qed

lemma table_run_no_fault:
  assumes "finite S" "finite D" "card S \<le> MAX_NUM_IP_ATTACHED" "card D \<le> MAX_NUM_IP_ATTACHED"
  shows "tables_ok t \<Longrightarrow> set (sources t) \<union> (\<Union>e \<in> set es. event_src e) \<subseteq> S \<Longrightarrow>
    set (destinations t) \<union> (\<Union>e \<in> set es. event_dest e) \<subseteq> D \<Longrightarrow>
    is_ok (table_run house es t)"
proof (induction es arbitrary: t)
  case (Cons e es)
  show ?case
  proof (cases "table_step house e t")
    case (Inr t1)
    have "set (sources t1) \<subseteq> S" "set (destinations t1) \<subseteq> D"
      using table_step_Inr(2,3) [OF Cons.prems(1) Inr] Cons.prems(2,3) by auto
    moreover have "(\<Union>e \<in> set es. event_src e) \<subseteq> S" "(\<Union>e \<in> set es. event_dest e) \<subseteq> D"
      using Cons.prems(2,3) by auto
    ultimately have "is_ok (table_run house es t1)"
      by (intro Cons.IH [OF table_step_Inr(1) [OF Cons.prems(1) Inr]] Un_least)
    then show ?thesis by (simp add: Inr)
  next
    case (Inl f)
    have False
    proof (cases e)
      case (Packet_From clk a)
      then have "card (insert a (set (sources t))) = Suc MAX_NUM_IP_ATTACHED"
        using attach_src_full [OF Cons.prems(1)] Inl by auto
      moreover have "insert a (set (sources t)) \<subseteq> S" using Packet_From Cons.prems(2) by auto
      ultimately show False using card_mono [OF assms(1), of "insert a (set (sources t))"] assms(3) by simp
    next
      case (Peer_Connects clk a)
      then have "card (insert a (set (destinations t))) = Suc MAX_NUM_IP_ATTACHED"
        using attach_dest_full [OF Cons.prems(1)] Inl by auto
      moreover have "insert a (set (destinations t)) \<subseteq> D" using Peer_Connects Cons.prems(3) by auto
      ultimately show False using card_mono [OF assms(2), of "insert a (set (destinations t))"] assms(4) by simp
    next
      case (Housekeeping cs cd)
      then show False using Inl by simp
    qed
    then show ?thesis by simp
  qed
qed simp

section \<open>Properties\<close>

text \<open>C5: Inserting a source.  From consistent tables (ten slots each, no address twice, the counter
  is the number of addresses), a packet's source address ends up in the table exactly once and
  the tables stay consistent, \<open>new_traffic\<close> says whether it was new; the only other outcome is a
  write at index -1 of the array, which happens exactly when ten other sources are recorded.\<close>

theorem source_table_insert:
  assumes "tables_ok t"
  shows "case attach_src clk a t of
      Inr t' \<Rightarrow> tables_ok t' \<and> set (sources t') = insert a (set (sources t)) - {0}
        \<and> destinations t' = destinations t
        \<and> (new_traffic t' \<longleftrightarrow> a \<notin> sip_addr ` set (aSrc_Dtn_IPs t))
    | Inl e \<Rightarrow> e = Out_Of_Bounds ''aSrc_Dtn_IPs'' (- 1)
        \<and> card (insert a (set (sources t))) = Suc MAX_NUM_IP_ATTACHED"
  using attach_src_Inr [OF assms] attach_src_Inl_iff [OF assms] attach_src_full [OF assms]
  by (auto split: sum.splits)

theorem source_table_insert_witness:
  "case attach_src 5 77 no_peers of Inr t' \<Rightarrow> set (sources t') = {77} | Inl e \<Rightarrow> False"
proof -
  have "attach_src 5 77 no_peers \<noteq> Inl e" for e
    using attach_src_Inl_iff [of no_peers 5 77 e] by (simp add: MAX_NUM_IP_ATTACHED_def)
  then show ?thesis
    using source_table_insert [of no_peers 77 5] by (auto split: sum.splits)
qed

text \<open>Inserting a destination, when a peer connects: the same contract on the other table, and
  the process knows from then on that it is a source.  The write at index -1 happens exactly when
  ten other destinations are recorded.\<close>

theorem dest_table_insert:
  assumes "tables_ok t"
  shows "case attach_dest clk a t of
      Inr t' \<Rightarrow> tables_ok t' \<and> set (destinations t') = insert a (set (destinations t)) - {0}
        \<and> sources t' = sources t \<and> vIamASrcDtn t'
    | Inl e \<Rightarrow> e = Out_Of_Bounds ''aDest_Dtn_IPs'' (- 1)
        \<and> card (insert a (set (destinations t))) = Suc MAX_NUM_IP_ATTACHED"
  using attach_dest_Inr [OF assms] attach_dest_Inl_iff [OF assms] attach_dest_full [OF assms]
  by (auto split: sum.splits)

text \<open>C6: Ten peers are safe.  A run of packets, peer connections and housekeeping firings in any
  order, from empty tables, never writes outside the arrays as long as at most ten different
  source addresses and ten different peer addresses occur in it.\<close>

theorem ten_peers_never_fault:
  assumes "card (\<Union>e \<in> set es. event_src e) \<le> MAX_NUM_IP_ATTACHED"
    and "card (\<Union>e \<in> set es. event_dest e) \<le> MAX_NUM_IP_ATTACHED"
  shows "\<exists>t. table_run house es no_peers = Inr t \<and> tables_ok t"
proof -
  have "finite (event_src e)" "finite (event_dest e)" for e
    by (cases e; simp)+
  then have fin: "finite (\<Union>e \<in> set es. event_src e)" "finite (\<Union>e \<in> set es. event_dest e)"
    by simp_all
  have "is_ok (table_run house es no_peers)"
    by (rule table_run_no_fault [OF fin assms]) simp_all
  then obtain t where "table_run house es no_peers = Inr t"
    by (cases "table_run house es no_peers") auto
  with table_run_Inr [OF tables_ok_no_peers this] show ?thesis by blast
qed

theorem ten_peers_never_fault_witness:
  "\<exists>t. table_run 18 [Packet_From 1 7, Peer_Connects 2 8, Packet_From 3 9,
      Housekeeping (replicate 10 30) (replicate 10 30)] no_peers = Inr t \<and> tables_ok t"
  by (rule ten_peers_never_fault) (simp_all add: MAX_NUM_IP_ATTACHED_def)

text \<open>Housekeeping of the sources.  When the timer fires on a destination DTN, a source's slot is
  cleared exactly if it was last seen at least \<open>vHouseTime\<close> before the clock read for that slot,
  the others are untouched, the tables stay consistent, and the process stops regarding itself as
  a destination exactly when no source is left.\<close>

theorem housekeeping_expires_idle:
  assumes "tables_ok t" "vIamADestDtn t"
    and "t' = tHouseKeeping_TimerID_Handler house cs cd t"
  shows "tables_ok t'
    \<and> (\<forall>i < MAX_NUM_IP_ATTACHED. aSrc_Dtn_IPs t' ! i =
        (if sip_addr (aSrc_Dtn_IPs t ! i) \<noteq> 0 \<and> house \<le> cs i - sip_last_time (aSrc_Dtn_IPs t ! i)
         then zero_src_ip else aSrc_Dtn_IPs t ! i))
    \<and> (vIamADestDtn t' \<longleftrightarrow> sources t' \<noteq> [])"
proof -
  obtain es n where r: "expire_ips sip_addr sip_last_time zero_src_ip house cs 0 (aSrc_Dtn_IPs t)
      (currently_attached_networks t) = (es, n)" by fastforce
  let ?t1 = "house_src house cs t"
  have t1: "?t1 = t\<lparr>aSrc_Dtn_IPs := es, currently_attached_networks := n, vIamADestDtn := (n \<noteq> 0)\<rparr>"
    using assms(2) by (simp add: house_src_def r)
  have ok: "tables_ok t'" "tables_ok ?t1"
    using house_src_ok(1) [OF assms(1)] house_dest_ok(1) assms(3)
    by (simp_all add: tHouseKeeping_TimerID_Handler_def)
  have same: "aSrc_Dtn_IPs t' = es" "vIamADestDtn t' = (n \<noteq> 0)"
    using t1 assms(3)
    by (simp_all add: tHouseKeeping_TimerID_Handler_def house_dest_def split: prod.splits)
  have "length (live_keys sip_addr es) \<le> 10" "n = of_nat (length (live_keys sip_addr es))"
    using ok(2) length_live_keys [of sip_addr es] t1
    by (simp_all add: tables_ok_def slots_ok_def MAX_NUM_IP_ATTACHED_def)
  then have "n = 0 \<longleftrightarrow> length (live_keys sip_addr es) = 0"
    by (simp add: word_of_nat_eq_0_iff nat_dvd_not_less)
      (use nat_dvd_not_less in fastforce)
  then have "n = 0 \<longleftrightarrow> sources t' = []" using same by (simp add: sources_def)
  with ok(1) expire_ips_nth [OF r] same assms(1) show ?thesis
    by (auto simp: tables_ok_def slots_ok_def)
qed

definition one_old_source :: ip_tables where
  "one_old_source = no_peers\<lparr>aSrc_Dtn_IPs := src_fill 5 77 zero_src_ip # replicate 9 zero_src_ip,
     currently_attached_networks := 1, vIamADestDtn := True\<rparr>"

end
