(* ===== verification/Activity_Log.thy ===== *)
theory Activity_Log
  imports Dtn_Prelude
begin

text \<open>
  The record of tuning activities (\<open>src/userspace/user_dtn.c\<close>): \<open>sFlowCounters\<close>, a ring of
  \<open>NUM_OF_FLOWS_TO_KEEP_TRACK_OF\<close> flows, each with a ring of \<open>MAX_TUNING_ACTIVITIES_PER_FLOW\<close>
  strings; \<open>record_activity\<close> adds one, the end of \<open>fDoRunGetThresholds\<close> moves on to the next flow
  when receive traffic starts, and the \<open>-pc\<close> request of \<open>check_req\<close> prints them.
\<close>

definition NUM_FLOWS :: nat where "NUM_FLOWS = 4"
definition MAX_ACTIVITIES :: nat where "MAX_ACTIVITIES = 10"
definition MAX_SIZE_TUNING_STRING :: nat where "MAX_SIZE_TUNING_STRING = 1500"

definition MAX_SIZE_OF_THE_RESPONSE :: nat where
  "MAX_SIZE_OF_THE_RESPONSE = MAX_ACTIVITIES * MAX_SIZE_TUNING_STRING * NUM_FLOWS + 2 * 4 * NUM_FLOWS"

lemmas activity_sizes = NUM_FLOWS_def MAX_ACTIVITIES_def MAX_SIZE_TUNING_STRING_def

record sFlowCounters =
  num_tuning_activities :: nat
  gFlowCountUsed :: bool
  what_was_done :: "string list"

record activity_log =
  flow_counters :: "sFlowCounters list"
  vFlowCount :: nat
  vFlowCountWrapped :: bool
  myCount :: u32
  vFirstTimeThru :: bool
  rx_traffic :: bool

definition zero_flow :: sFlowCounters where
  "zero_flow = \<lparr>num_tuning_activities = 0, gFlowCountUsed = False,
     what_was_done = replicate MAX_ACTIVITIES []\<rparr>"

definition empty_log :: activity_log where
  "empty_log = \<lparr>flow_counters = replicate NUM_FLOWS zero_flow, vFlowCount = 0,
     vFlowCountWrapped = False, myCount = 0, vFirstTimeThru = True, rx_traffic = False\<rparr>"

section \<open>Recording an activity\<close>

text \<open>The text appended to the caller's buffer, which has \<open>MAX_SIZE_TUNING_STRING\<close> bytes like the
  slot it is copied to.\<close>

definition activity_tag :: "activity_log \<Rightarrow> string" where
  "activity_tag l = '':::***vFlowcount = '' @ show_nat (vFlowCount l) @ '', num_tuning_activty = ''
     @ show_nat (num_tuning_activities (flow_counters l ! vFlowCount l) + 1)
     @ '', myCount = '' @ show_nat (unat (myCount l))"

definition add_activity :: "string \<Rightarrow> sFlowCounters \<Rightarrow> sFlowCounters" where
  "add_activity s f =
    (let f1 = f\<lparr>what_was_done := (what_was_done f)[num_tuning_activities f := s],
                gFlowCountUsed := True,
                num_tuning_activities := num_tuning_activities f + 1\<rparr>
     in if num_tuning_activities f1 = MAX_ACTIVITIES then f1\<lparr>num_tuning_activities := 0\<rparr> else f1)"

definition record_activity :: "string \<Rightarrow> activity_log \<Rightarrow> c_fault + activity_log" where
  "record_activity pActivity l =
    (let s = pActivity @ activity_tag l in
     if MAX_SIZE_TUNING_STRING \<le> length s then Inl (Buffer_Overflow ''activity'' (length s + 1))
     else Inr (l\<lparr>flow_counters := (flow_counters l)[vFlowCount l :=
                   add_activity s (flow_counters l ! vFlowCount l)],
                 myCount := myCount l + 1\<rparr>))"

section \<open>A new flow\<close>

definition clear_flow :: "sFlowCounters \<Rightarrow> sFlowCounters" where
  "clear_flow f = f\<lparr>num_tuning_activities := 0, gFlowCountUsed := False\<rparr>"

definition advance_flow :: "activity_log \<Rightarrow> activity_log" where
  "advance_flow l =
    (let l1 = (if vFlowCount l + 1 = NUM_FLOWS then l\<lparr>vFlowCountWrapped := True, vFlowCount := 0\<rparr>
               else l\<lparr>vFlowCount := vFlowCount l + 1\<rparr>)
     in l1\<lparr>flow_counters := (flow_counters l1)[vFlowCount l1 :=
             clear_flow (flow_counters l1 ! vFlowCount l1)]\<rparr>)"

text \<open>The edge of receive traffic at the end of a round of \<open>fDoRunGetThresholds\<close>: the log, and what
  is assigned to \<open>new_traffic\<close> (\<open>None\<close>: nothing).\<close>

definition track_rx_traffic :: "nat \<Rightarrow> activity_log \<Rightarrow> activity_log \<times> bool option" where
  "track_rx_traffic rx_kbits_per_sec l =
    (if rx_kbits_per_sec = 0 then (l\<lparr>rx_traffic := False\<rparr>, Some False)
     else if rx_traffic l then (l, None)
     else
       let l1 = l\<lparr>rx_traffic := True\<rparr>
       in (if vFirstTimeThru l1 then l1\<lparr>vFirstTimeThru := False\<rparr> else advance_flow l1, Some True))"

section \<open>The report\<close>

definition flow_reported :: "sFlowCounters \<Rightarrow> string list" where
  "flow_reported f =
    (let num_activities = (if num_tuning_activities f = 0 \<and> gFlowCountUsed f then MAX_ACTIVITIES
                           else num_tuning_activities f)
     in take num_activities (what_was_done f))"

definition flow_text :: "sFlowCounters \<Rightarrow> string" where
  "flow_text f = concat (map (\<lambda>s. s @ [CHR 0x0A]) (flow_reported f))"

definition no_activity_text :: string where
  "no_activity_text = ''***No tuning activity has happened so far***'' @ [CHR 0x0A]"

fun report_loop :: "bool \<Rightarrow> nat \<Rightarrow> sFlowCounters list \<Rightarrow> string \<Rightarrow> string" where
  "report_loop wrapped g [] aResp = aResp"
| "report_loop wrapped g (f # fs) aResp =
    report_loop wrapped (g + 1) fs
      (if num_tuning_activities f = 0 \<and> \<not> gFlowCountUsed f \<and> \<not> wrapped \<and> g = 0
       then no_activity_text else aResp @ flow_text f)"

definition flows_shown :: "activity_log \<Rightarrow> sFlowCounters list" where
  "flows_shown l = take (if vFlowCountWrapped l then NUM_FLOWS else vFlowCount l + 1) (flow_counters l)"

text \<open>The text ends at the NUL written over the last newline, at \<open>aResp[start-1]\<close>.\<close>

definition report_activities :: "activity_log \<Rightarrow> c_fault + string" where
  "report_activities l =
    (let aResp = report_loop (vFlowCountWrapped l) 0 (flows_shown l) [] in
     if aResp = [] then Inl (Out_Of_Bounds ''aResp'' (- 1)) else Inr (butlast aResp))"

section \<open>What a flow's ring holds\<close>

text \<open>The activities recorded since the flow began are its history; the ring starts over after
  every tenth, so what it can report is the block of the history since then.\<close>

definition last_block :: "string list \<Rightarrow> string list" where
  "last_block h = drop (MAX_ACTIVITIES * ((length h - 1) div MAX_ACTIVITIES)) h"

definition flow_holds :: "sFlowCounters \<Rightarrow> string list \<Rightarrow> bool" where
  "flow_holds f h \<longleftrightarrow> num_tuning_activities f = length h mod MAX_ACTIVITIES
     \<and> gFlowCountUsed f = (h \<noteq> []) \<and> length (what_was_done f) = MAX_ACTIVITIES
     \<and> flow_reported f = last_block h"

lemma last_block_Nil [simp]: "last_block [] = []"
  by (simp add: last_block_def)

lemma pred_div_ten: "(n::nat) mod 10 \<noteq> 0 \<Longrightarrow> (n - 1) div 10 = n div 10"
proof -
  assume a: "n mod 10 \<noteq> 0"
  define q r where "q = n div 10" and "r = n mod 10"
  have "n = 10 * q + r" "r < 10" "0 < r" using a by (simp_all add: q_def r_def)
  then have "10 * q \<le> n - 1" "n - 1 < 10 * Suc q" by simp_all
  then show ?thesis unfolding q_def by (rule div_nat_eqI)
qed

lemma last_block_snoc:
  "last_block (h @ [s]) = (if length h mod MAX_ACTIVITIES = 0 then [s] else last_block h @ [s])"
proof (cases "length h mod MAX_ACTIVITIES = 0")
  case True
  then have "10 * (length h div 10) = length h"
    unfolding MAX_ACTIVITIES_def by (metis add.right_neutral mult_div_mod_eq)
  with True show ?thesis by (simp only: last_block_def MAX_ACTIVITIES_def) simp
next
  case False
  then have "(length h - 1) div 10 = length h div 10"
    unfolding MAX_ACTIVITIES_def by (rule pred_div_ten)
  moreover have "10 * (length h div 10) \<le> length h" by simp
  ultimately show ?thesis using False by (simp only: last_block_def MAX_ACTIVITIES_def) simp
qed

lemma take_Suc_update:
  "n < length xs \<Longrightarrow> take (Suc n) (xs[n := x]) = take n xs @ [x]"
  by (simp add: take_Suc_conv_app_nth)

lemma flow_holds_add:
  assumes "flow_holds f h"
  shows "flow_holds (add_activity s f) (h @ [s])"
proof -
  let ?n = "num_tuning_activities f"
  have n: "?n = length h mod 10" "?n < length (what_was_done f)"
    using assms by (simp_all add: flow_holds_def MAX_ACTIVITIES_def)
  have prefix: "take ?n (what_was_done f) = (if ?n = 0 then [] else last_block h)"
    using assms by (auto simp: flow_holds_def flow_reported_def)
  have block: "last_block (h @ [s]) = take ?n (what_was_done f) @ [s]"
    unfolding prefix using n by (simp add: last_block_snoc MAX_ACTIVITIES_def)
  have m: "Suc (length h) mod 10 = (if ?n + 1 = 10 then 0 else ?n + 1)"
    using n by (simp add: mod_Suc)
  let ?w = "(what_was_done f)[?n := s]"
  have "take (Suc ?n) ?w = last_block (h @ [s])"
    using take_Suc_update [OF n(2), of s] block by simp
  moreover have "length ?w = 10" using assms by (simp add: flow_holds_def MAX_ACTIVITIES_def)
  moreover from this have "take 10 ?w = ?w" by simp
  ultimately have rep: "flow_reported (add_activity s f) = last_block (h @ [s])"
    by (cases "Suc ?n = 10")
      (simp_all add: flow_reported_def add_activity_def Let_def MAX_ACTIVITIES_def del: take_all_iff)
  show ?thesis
    using assms n m rep by (simp add: flow_holds_def add_activity_def Let_def MAX_ACTIVITIES_def)
qed

lemma flow_holds_clear: "length (what_was_done f) = MAX_ACTIVITIES \<Longrightarrow> flow_holds (clear_flow f) []"
  by (simp add: flow_holds_def clear_flow_def flow_reported_def)

section \<open>Invariant\<close>

definition flow_ok :: "sFlowCounters \<Rightarrow> bool" where
  "flow_ok f \<longleftrightarrow> num_tuning_activities f < MAX_ACTIVITIES \<and> length (what_was_done f) = MAX_ACTIVITIES
     \<and> (\<forall>s \<in> set (what_was_done f). length s < MAX_SIZE_TUNING_STRING)"

definition log_ok :: "activity_log \<Rightarrow> bool" where
  "log_ok l \<longleftrightarrow> length (flow_counters l) = NUM_FLOWS \<and> vFlowCount l < NUM_FLOWS
     \<and> (\<forall>f \<in> set (flow_counters l). flow_ok f)"

definition current_flow :: "activity_log \<Rightarrow> sFlowCounters" where
  "current_flow l = flow_counters l ! vFlowCount l"

lemma flow_ok_add:
  "flow_ok f \<Longrightarrow> length s < MAX_SIZE_TUNING_STRING \<Longrightarrow> flow_ok (add_activity s f)"
  by (auto simp: flow_ok_def add_activity_def Let_def MAX_ACTIVITIES_def
      dest!: subsetD [OF set_update_subset_insert])

lemma flow_ok_clear: "flow_ok f \<Longrightarrow> flow_ok (clear_flow f)"
  by (simp add: flow_ok_def clear_flow_def activity_sizes)

lemma log_ok_current: "log_ok l \<Longrightarrow> flow_ok (current_flow l)"
  by (simp add: log_ok_def current_flow_def)

lemma log_ok_empty [simp]: "log_ok empty_log"
  by (simp add: log_ok_def empty_log_def flow_ok_def zero_flow_def activity_sizes)

lemma log_ok_update:
  "log_ok l \<Longrightarrow> flow_ok f \<Longrightarrow> log_ok (l\<lparr>flow_counters := (flow_counters l)[i := f], myCount := c\<rparr>)"
  by (auto simp: log_ok_def dest!: subsetD [OF set_update_subset_insert])

lemma record_activity_Inr:
  assumes "log_ok l" "record_activity a l = Inr l'"
  shows "log_ok l'" "vFlowCount l' = vFlowCount l"
    "current_flow l' = add_activity (a @ activity_tag l) (current_flow l)"
proof -
  have l': "length (a @ activity_tag l) < MAX_SIZE_TUNING_STRING"
    "l' = l\<lparr>flow_counters := (flow_counters l)[vFlowCount l :=
       add_activity (a @ activity_tag l) (current_flow l)], myCount := myCount l + 1\<rparr>"
    using assms(2) by (auto simp: record_activity_def Let_def current_flow_def split: if_splits)
  show "log_ok l'"
    unfolding l'(2) by (rule log_ok_update [OF assms(1)])
      (rule flow_ok_add [OF log_ok_current [OF assms(1)] l'(1)])
  show "vFlowCount l' = vFlowCount l"
    "current_flow l' = add_activity (a @ activity_tag l) (current_flow l)"
    using assms(1) by (simp_all add: l'(2) current_flow_def log_ok_def)
qed

lemma advance_flow_ok: "log_ok l \<Longrightarrow> log_ok (advance_flow l) \<and> flow_holds (current_flow (advance_flow l)) []"
proof -
  assume l: "log_ok l"
  let ?g = "if vFlowCount l + 1 = NUM_FLOWS then 0 else vFlowCount l + 1"
  have g: "?g < length (flow_counters l)" "length (flow_counters l) = NUM_FLOWS"
    using l by (auto simp: log_ok_def NUM_FLOWS_def)
  have a: "flow_counters (advance_flow l) = (flow_counters l)[?g := clear_flow (flow_counters l ! ?g)]"
    "vFlowCount (advance_flow l) = ?g"
    by (simp_all add: advance_flow_def Let_def)
  have f: "flow_ok (flow_counters l ! ?g)" using l g by (auto simp: log_ok_def)
  have "\<forall>f \<in> set (flow_counters (advance_flow l)). flow_ok f"
    using l flow_ok_clear [OF f] unfolding a log_ok_def
    by (auto dest!: subsetD [OF set_update_subset_insert])
  moreover have "flow_holds (current_flow (advance_flow l)) []"
    using f g by (simp only: current_flow_def a nth_list_update_eq) (simp add: flow_holds_clear flow_ok_def)
  ultimately show ?thesis using g by (simp add: log_ok_def a)
qed

lemma track_rx_traffic_ok: "log_ok l \<Longrightarrow> log_ok (fst (track_rx_traffic rx l))"
proof -
  assume l: "log_ok l"
  have "log_ok (l\<lparr>rx_traffic := b\<rparr>)" "log_ok (l\<lparr>rx_traffic := b, vFirstTimeThru := c\<rparr>)" for b c
    using l by (simp_all add: log_ok_def)
  with l advance_flow_ok show ?thesis by (simp add: track_rx_traffic_def Let_def)
qed

text \<open>A series of activities recorded without a new flow between them: the tagged strings, in
  order, and the log.\<close>

fun record_all :: "string list \<Rightarrow> activity_log \<Rightarrow> c_fault + (string list \<times> activity_log)" where
  "record_all [] l = Inr ([], l)"
| "record_all (a # as) l =
    bindE (record_activity a l) (\<lambda>l1. bindE (record_all as l1)
      (\<lambda>(ss, l2). Inr ((a @ activity_tag l) # ss, l2)))"

lemma record_all_holds:
  "log_ok l \<Longrightarrow> flow_holds (current_flow l) h \<Longrightarrow> record_all as l = Inr (ss, l') \<Longrightarrow>
     log_ok l' \<and> flow_holds (current_flow l') (h @ ss) \<and> length ss = length as"
proof (induction as arbitrary: l h ss)
  case (Cons a as)
  then obtain l1 ss1 where r: "record_activity a l = Inr l1" "record_all as l1 = Inr (ss1, l')"
    "ss = (a @ activity_tag l) # ss1"
    by (auto simp: bindE_Inr_iff)
  have "flow_holds (current_flow l1) (h @ [a @ activity_tag l])"
    using record_activity_Inr(3) [OF Cons.prems(1) r(1)] flow_holds_add [OF Cons.prems(2)] by simp
  from Cons.IH [OF record_activity_Inr(1) [OF Cons.prems(1) r(1)] this r(2)] r(3)
  show ?case by simp
qed simp

section \<open>The report and its buffer\<close>

lemma flow_text_Nil_iff: "flow_text f = [] \<longleftrightarrow> flow_reported f = []"
  by (auto simp: flow_text_def)

lemma report_loop_later: "0 < g \<Longrightarrow> report_loop w g fs r = r @ concat (map flow_text fs)"
  by (induction fs arbitrary: g r) auto

lemma report_loop_wrapped: "report_loop True g fs r = r @ concat (map flow_text fs)"
  by (induction fs arbitrary: g r) auto

lemma length_concat_le:
  "(\<And>x. x \<in> set xs \<Longrightarrow> length (f x) \<le> k) \<Longrightarrow> length (concat (map f xs)) \<le> length xs * k"
proof (induction xs)
  case (Cons x xs)
  then have "length (f x) \<le> k" "length (concat (map f xs)) \<le> length xs * k" by simp_all
  then show ?case by simp
qed simp

lemma length_flow_text:
  assumes "flow_ok f"
  shows "length (flow_text f) \<le> MAX_ACTIVITIES * MAX_SIZE_TUNING_STRING"
proof -
  have "length (flow_text f) \<le> length (flow_reported f) * MAX_SIZE_TUNING_STRING"
    unfolding flow_text_def
  proof (rule length_concat_le)
    fix s assume "s \<in> set (flow_reported f)"
    then have "s \<in> set (what_was_done f)"
      by (auto simp: flow_reported_def Let_def dest: in_set_takeD)
    with assms show "length (s @ [CHR 0x0A]) \<le> MAX_SIZE_TUNING_STRING"
      by (simp add: flow_ok_def Suc_le_eq)
  qed
  also have "length (flow_reported f) \<le> MAX_ACTIVITIES"
    using assms by (simp add: flow_reported_def Let_def flow_ok_def)
  finally show ?thesis by simp
qed

lemma report_length:
  assumes "log_ok l"
  shows "length (report_loop (vFlowCountWrapped l) 0 (flows_shown l) []) \<le>
    NUM_FLOWS * (MAX_ACTIVITIES * MAX_SIZE_TUNING_STRING)"
proof -
  let ?B = "MAX_ACTIVITIES * MAX_SIZE_TUNING_STRING"
  have ok: "\<forall>f \<in> set (flows_shown l). flow_ok f" "length (flows_shown l) \<le> NUM_FLOWS"
    using assms by (auto simp: flows_shown_def log_ok_def dest: in_set_takeD)
  show ?thesis
  proof (cases "flows_shown l")
    case (Cons f fs)
    have first: "length (if c then no_activity_text else flow_text f) \<le> ?B" for c
      using length_flow_text [of f] ok Cons by (simp add: no_activity_text_def activity_sizes)
    have rest: "length (concat (map flow_text fs)) \<le> length fs * ?B"
      using ok Cons by (intro length_concat_le length_flow_text) auto
    have "report_loop (vFlowCountWrapped l) 0 (flows_shown l) [] =
        (if num_tuning_activities f = 0 \<and> \<not> gFlowCountUsed f \<and> \<not> vFlowCountWrapped l
         then no_activity_text else flow_text f) @ concat (map flow_text fs)"
      by (simp add: Cons report_loop_later)
    then have "length (report_loop (vFlowCountWrapped l) 0 (flows_shown l) []) \<le> ?B + length fs * ?B"
      using first rest by (simp only: length_append add_mono)
    also have "\<dots> = length (flows_shown l) * ?B" by (simp add: Cons)
    also have "\<dots> \<le> NUM_FLOWS * ?B" using ok(2) by simp
    finally show ?thesis .
  qed simp
qed

lemma report_empty_iff:
  assumes "log_ok l"
  shows "report_loop (vFlowCountWrapped l) 0 (flows_shown l) [] = [] \<longleftrightarrow>
    vFlowCountWrapped l \<and> (\<forall>f \<in> set (flow_counters l). flow_reported f = [])"
proof (cases "vFlowCountWrapped l")
  case True
  then show ?thesis
    using assms by (simp add: report_loop_wrapped flows_shown_def log_ok_def flow_text_Nil_iff)
next
  case False
  obtain f fs where f: "flows_shown l = f # fs"
    using assms False by (cases "flow_counters l") (auto simp: flows_shown_def log_ok_def NUM_FLOWS_def)
  then have "f \<in> set (flow_counters l)" by (metis flows_shown_def in_set_takeD list.set_intros(1))
  then have "length (what_was_done f) = MAX_ACTIVITIES" using assms by (simp add: log_ok_def flow_ok_def)
  then show ?thesis
    using False f
    by (auto simp: report_loop_later flow_text_Nil_iff no_activity_text_def flow_reported_def
        MAX_ACTIVITIES_def)
qed

lemma length_activity_tag:
  assumes "log_ok l"
  shows "length (activity_tag l) \<le> 67"
proof -
  have "length (show_nat (vFlowCount l)) \<le> Suc 0"
    by (rule length_show_nat_le) (use assms in \<open>simp add: log_ok_def NUM_FLOWS_def\<close>)
  moreover have "length (show_nat (num_tuning_activities (flow_counters l ! vFlowCount l) + 1)) \<le> Suc 1"
    by (rule length_show_nat_le)
      (use log_ok_current [OF assms] in \<open>simp add: flow_ok_def MAX_ACTIVITIES_def current_flow_def\<close>)
  moreover have "length (show_nat (unat (myCount l))) \<le> Suc 9"
    by (rule length_show_nat_le) (use unat_u32_lt [of "myCount l"] in simp)
  ultimately show ?thesis by (simp add: activity_tag_def)
qed

section \<open>Properties\<close>

text \<open>Recording an activity never leaves its buffers as long as the caller leaves room for the
  appended tag: an activity of fewer than 1433 characters is recorded, every index stays in
  range, and the other flows and the flow index are untouched.\<close>

theorem record_activity_in_bounds:
  assumes "log_ok l" "length act + 67 < MAX_SIZE_TUNING_STRING"
  shows "\<exists>l'. record_activity act l = Inr l' \<and> log_ok l' \<and> vFlowCount l' = vFlowCount l
    \<and> (\<forall>g. g \<noteq> vFlowCount l \<longrightarrow> flow_counters l' ! g = flow_counters l ! g)
    \<and> act @ activity_tag l \<in> set (flow_reported (current_flow l'))"
proof -
  let ?s = "act @ activity_tag l" and ?f = "current_flow l"
  have "length ?s < MAX_SIZE_TUNING_STRING" using length_activity_tag [OF assms(1)] assms(2) by simp
  then obtain l' where l': "record_activity act l = Inr l'"
    "flow_counters l' = (flow_counters l)[vFlowCount l := add_activity ?s ?f]"
    by (simp add: record_activity_def Let_def current_flow_def)
  have n: "num_tuning_activities ?f < length (what_was_done ?f)"
    "length (what_was_done ?f) = MAX_ACTIVITIES"
    using log_ok_current [OF assms(1)] by (simp_all add: flow_ok_def)
  have "?s \<in> set (take (Suc (num_tuning_activities ?f))
      ((what_was_done ?f)[num_tuning_activities ?f := ?s]))"
    using take_Suc_update [OF n(1)] by simp
  then have "?s \<in> set (flow_reported (add_activity ?s ?f))"
    using n by (auto simp: flow_reported_def add_activity_def Let_def dest: in_set_takeD)
  with l' record_activity_Inr [OF assms(1) l'(1)] show ?thesis by auto
qed

text \<open>C9: What a flow's report lists.  After any number of activities recorded since the flow
  began, the \<open>-pc\<close> report lists, in the order they were recorded, the activities since the last
  multiple of ten before the newest one: all of them while there are at most ten, and after the
  eleventh only the newest, although the ring still holds ten.\<close>

theorem activities_reported:
  assumes "log_ok l" "flow_holds (current_flow l) []" "record_all acts l = Inr (ss, l')"
  shows "length ss = length acts \<and> flow_reported (current_flow l') = last_block ss
    \<and> (length acts \<le> 10 \<longrightarrow> last_block ss = ss)
    \<and> (length acts = 11 \<longrightarrow> flow_reported (current_flow l') = [last ss])"
proof -
  have h: "flow_holds (current_flow l') ss" "length ss = length acts"
    using record_all_holds [OF assms] by simp_all
  have "last_block ss = [last ss]" if "length ss = 11"
  proof -
    have "last_block ss = drop (length ss - 1) ss"
      using that by (simp add: last_block_def MAX_ACTIVITIES_def)
    also have "\<dots> = [last ss]" using that by (cases ss rule: rev_cases) auto
    finally show ?thesis .
  qed
  moreover have "last_block ss = ss" if "length ss \<le> 10"
    using that by (simp add: last_block_def MAX_ACTIVITIES_def)
  ultimately show ?thesis using h by (simp add: flow_holds_def)
qed

lemma flow_holds_empty_log: "flow_holds (current_flow empty_log) []"
  by (simp add: flow_holds_def current_flow_def empty_log_def zero_flow_def flow_reported_def
      activity_sizes)

theorem activities_reported_witness:
  "\<exists>ss l'. record_all [''a'', ''b''] empty_log = Inr (ss, l')
     \<and> flow_reported (current_flow l') = ss"
proof -
  obtain l1 where l1: "record_activity ''a'' empty_log = Inr l1"
    using length_activity_tag [OF log_ok_empty]
    by (auto simp: record_activity_def Let_def MAX_SIZE_TUNING_STRING_def)
  obtain l2 where l2: "record_activity ''b'' l1 = Inr l2"
    using length_activity_tag [OF record_activity_Inr(1) [OF log_ok_empty l1]]
    by (auto simp: record_activity_def Let_def MAX_SIZE_TUNING_STRING_def)
  have "\<exists>ss l'. record_all [''a'', ''b''] empty_log = Inr (ss, l')"
    by (simp add: l1 l2)
  then show ?thesis
    using activities_reported [OF log_ok_empty flow_holds_empty_log] by fastforce
qed

text \<open>The report fits the response buffer.  From a consistent log the \<open>-pc\<close> report with its
  NUL stays within the buffer \<open>on_http_request\<close> gives it; the one other outcome is a write in
  front of that buffer, exactly when the flows have wrapped and no flow reports an activity.\<close>

theorem report_fits_response:
  assumes "log_ok l"
  shows "case report_activities l of
      Inr s \<Rightarrow> length s + 1 \<le> MAX_SIZE_OF_THE_RESPONSE
        \<and> \<not> (vFlowCountWrapped l \<and> (\<forall>f \<in> set (flow_counters l). flow_reported f = []))
    | Inl e \<Rightarrow> e = Out_Of_Bounds ''aResp'' (- 1)
        \<and> vFlowCountWrapped l \<and> (\<forall>f \<in> set (flow_counters l). flow_reported f = [])"
proof -
  let ?r = "report_loop (vFlowCountWrapped l) 0 (flows_shown l) []"
  have "length ?r \<le> MAX_SIZE_OF_THE_RESPONSE"
    using report_length [OF assms] by (simp add: MAX_SIZE_OF_THE_RESPONSE_def activity_sizes)
  then show ?thesis
    using report_empty_iff [OF assms] by (simp add: report_activities_def Let_def)
qed

fun rx_rounds :: "nat list \<Rightarrow> activity_log \<Rightarrow> activity_log" where
  "rx_rounds [] l = l"
| "rx_rounds (r # rs) l = rx_rounds rs (fst (track_rx_traffic r l))"

lemma idle_flows_wrap:
  "report_activities (rx_rounds [1, 0, 1, 0, 1, 0, 1, 0, 1] empty_log) = Inl (Out_Of_Bounds ''aResp'' (- 1))"
  by (simp add: track_rx_traffic_def empty_log_def advance_flow_def Let_def NUM_FLOWS_def
      clear_flow_def zero_flow_def report_activities_def flows_shown_def flow_text_def
      flow_reported_def numeral_eq_Suc)

theorem report_fits_response_witness:
  "vFlowCountWrapped (rx_rounds [1, 0, 1, 0, 1, 0, 1, 0, 1] empty_log)"
proof -
  have "log_ok l \<Longrightarrow> log_ok (rx_rounds rs l)" for rs l
    by (induction rs arbitrary: l) (simp_all add: track_rx_traffic_ok)
  from report_fits_response [OF this [OF log_ok_empty], of "[1, 0, 1, 0, 1, 0, 1, 0, 1]"]
  show ?thesis by (simp only: idle_flows_wrap) simp
qed

end
