(* ===== verification/Settings.thy ===== *)
theory Settings
  imports C_Double
begin

text \<open>
  The detection thresholds of \<open>src/userspace/user_dtn.c\<close>, read by the INT consumer and changed by the
  HTTP server, and the two phases of the tuning module.
\<close>

record thresholds =
  vHOP_LATENCY_DELTA :: u32
  vFLOW_LATENCY_DELTA :: u32
  vQUEUE_OCCUPANCY_DELTA :: u32
  vFLOW_SINK_TIME_DELTA :: u32

definition default_thresholds :: thresholds where
  "default_thresholds = \<lparr>vHOP_LATENCY_DELTA = 500000, vFLOW_LATENCY_DELTA = 500000,
     vQUEUE_OCCUPANCY_DELTA = 415, vFLOW_SINK_TIME_DELTA = 4000000000\<rparr>"

datatype phase = ASSESSMENT | LEARNING | TUNING

end
