(* ===== verification/Timers.thy ===== *)
theory Timers
  imports Peer_Queue Ip_Table Activity_Log Settings
begin

text \<open>
  The destination DTN's alarm logic (\<open>src/userspace/user_dtn.c\<close>): the one-shot timers
  \<open>qOCC_Hop_TimerID\<close>, \<open>qOCC_TimerID\<close> and \<open>qEvaluation_TimerID\<close>, the flags \<open>vq_TimerIsSet\<close>,
  \<open>vCanStartEvaluationTimer\<close> and \<open>vSentPacingOver\<close>, what each INT hop does to them
  (\<open>sample_func\<close>, \<open>EvaluateQOcc_and_HopDelay\<close>, \<open>EvaluateQOccUserInfo\<close>), the handlers, and the
  section of \<open>fDoRunGetThresholds\<close> that runs when the link is idle.

  \<open>timer_settime\<close> is the kernel's: whether it armed the timer is the argument \<open>ret\<close> (0 is
  success), and a timer armed with no interval is disarmed when it fires.  A thread that wants to
  post waits on \<open>dtn_mutex\<close> and \<open>empty\<close> between what it did before and the post itself, so each
  operation is split there: it yields the post it is about to make, and \<open>proceed\<close> makes it.
\<close>

record timer_data =
  td_src :: u32
  td_dst :: u32
  td_vQinfo :: u32
  td_vHopDelay :: u32

record timers =
  vq_TimerIsSet :: bool
  vCanStartEvaluationTimer :: bool
  vSentPacingOver :: bool
  hop_armed :: bool    \<comment> \<open>the kernel's state of \<open>qOCC_Hop_TimerID\<close>\<close>
  occ_armed :: bool    \<comment> \<open>of \<open>qOCC_TimerID\<close>\<close>
  eval_armed :: bool   \<comment> \<open>of \<open>qEvaluation_TimerID\<close>\<close>
  sqOCC_TimerID_Data :: timer_data
  curr_hop_key_hop_index :: u32

record detector =
  tmr :: timers
  peerq :: msg_queue
  acts :: activity_log

definition initial_timers :: timers where
  "initial_timers = \<lparr>vq_TimerIsSet = False, vCanStartEvaluationTimer = True,
     vSentPacingOver = False, hop_armed = False, occ_armed = False, eval_armed = False,
     sqOCC_TimerID_Data = \<lparr>td_src = 0, td_dst = 0, td_vQinfo = 0, td_vHopDelay = 0\<rparr>,
     curr_hop_key_hop_index = 0\<rparr>"

text \<open>The flow key and hop index of an INT report, as they come from the kernel.\<close>

record hop_key =
  fk_switch_id :: u32
  fk_egress_port :: u16
  fk_vlan_id :: u16
  fk_src_ip :: u32
  fk_dst_ip :: u32
  fk_src_port :: u16
  fk_dst_port :: u16
  fk_resv1 :: u32
  hop_index :: u32

section \<open>Arming\<close>

definition fStartEvaluationTimer :: "bool \<Rightarrow> int \<Rightarrow> timers \<Rightarrow> timers" where
  "fStartEvaluationTimer gUseApacheKafka ret t =
    (if ret = 0 then t\<lparr>eval_armed := True, vCanStartEvaluationTimer := False,
        vSentPacingOver := (if gUseApacheKafka then vSentPacingOver t else True)\<rparr>
     else t)"

definition EvaluateQOcc_and_HopDelay :: "int \<Rightarrow> hop_key \<Rightarrow> u32 \<Rightarrow> u32 \<Rightarrow> timers \<Rightarrow> timers" where
  "EvaluateQOcc_and_HopDelay ret key vQinfo hopd t =
    (if \<not> vq_TimerIsSet t \<and> ret = 0
     then t\<lparr>hop_armed := True, vq_TimerIsSet := True, curr_hop_key_hop_index := hop_index key,
        sqOCC_TimerID_Data := \<lparr>td_src = ntohl (fk_src_ip key), td_dst = ntohl (fk_dst_ip key),
          td_vQinfo = vQinfo, td_vHopDelay = hopd\<rparr>\<rparr>
     else t)"

definition EvaluateQOccUserInfo :: "int \<Rightarrow> hop_key \<Rightarrow> u32 \<Rightarrow> timers \<Rightarrow> timers" where
  "EvaluateQOccUserInfo ret key vQinfo t =
    (if \<not> vq_TimerIsSet t \<and> ret = 0
     then t\<lparr>occ_armed := True, vq_TimerIsSet := True, curr_hop_key_hop_index := hop_index key,
        sqOCC_TimerID_Data := \<lparr>td_src = ntohl (fk_src_ip key), td_dst = ntohl (fk_dst_ip key),
          td_vQinfo = vQinfo, td_vHopDelay = 0\<rparr>\<rparr>
     else t)"

section \<open>What waits to be posted\<close>

datatype wait =
    W_Qinfo_HopD
  | W_Qinfo
  | W_Reset u32 u32
  | W_Cleanup
  | W_Start u16 u32 u32

text \<open>Going on from the wait: the post under the mutex, and what follows it in the caller.  \<open>src\<close>
  is the global \<open>src_ip_addr\<close>, \<open>ret\<close> what \<open>timer_settime\<close> returns for the evaluation timer.\<close>

fun proceed :: "bool \<Rightarrow> int \<Rightarrow> u32 \<Rightarrow> wait \<Rightarrow> detector \<Rightarrow> detector option" where
  "proceed gUseApacheKafka ret src W_Qinfo_HopD d =
    (let td = sqOCC_TimerID_Data (tmr d) in
     case post_qinfo_hopd (td_vQinfo td) (td_vHopDelay td) (td_src td) (td_dst td) (peerq d) of
       None \<Rightarrow> None
     | Some q \<Rightarrow> Some (d\<lparr>peerq := q, tmr := fStartEvaluationTimer gUseApacheKafka ret (tmr d)\<rparr>))"
| "proceed gUseApacheKafka ret src W_Qinfo d =
    (let td = sqOCC_TimerID_Data (tmr d) in
     case post_qinfo (td_vQinfo td) (td_src td) (td_dst td) (peerq d) of
       None \<Rightarrow> None
     | Some q \<Rightarrow> Some (d\<lparr>peerq := q, tmr := fStartEvaluationTimer gUseApacheKafka ret (tmr d)\<rparr>))"
| "proceed gUseApacheKafka ret src (W_Reset ksrc kdst) d =
    (case SendResetPacingMsg ksrc kdst (peerq d) of
       None \<Rightarrow> None
     | Some q \<Rightarrow> Some (d\<lparr>peerq := q, tmr := (tmr d)\<lparr>vSentPacingOver := False\<rparr>\<rparr>))"
| "proceed gUseApacheKafka ret src W_Cleanup d =
    (case SendResetCleanUpPacingMsg src (peerq d) of
       None \<Rightarrow> None
     | Some q \<Rightarrow> Some (d\<lparr>peerq := q, tmr := (tmr d)\<lparr>vSentPacingOver := False\<rparr>\<rparr>))"
| "proceed gUseApacheKafka ret src (W_Start vlan s dst) d =
    (case post_start vlan s dst (peerq d) of
       None \<Rightarrow> None
     | Some q \<Rightarrow> Some (d\<lparr>peerq := q\<rparr>))"

section \<open>The handlers\<close>

definition alarm_activity :: "string \<Rightarrow> string \<Rightarrow> timers \<Rightarrow> string" where
  "alarm_activity ctime_buf phase t = ctime_buf @ '' '' @ phase @ '': ***hop_key.hop_index ''
     @ show_hex (unat (curr_hop_key_hop_index t)) @ '', Doing Something''"

definition qOCC_Hop_TimerID_Handler ::
  "string \<Rightarrow> string \<Rightarrow> detector \<Rightarrow> c_fault + (detector \<times> wait list)" where
  "qOCC_Hop_TimerID_Handler ctime_buf phase d =
    bindE (record_activity (alarm_activity ctime_buf phase (tmr d)) (acts d))
      (\<lambda>l. Inr (d\<lparr>acts := l, tmr := (tmr d)\<lparr>vq_TimerIsSet := False\<rparr>\<rparr>,
                if vCanStartEvaluationTimer (tmr d) then [W_Qinfo_HopD] else []))"

definition qOCC_TimerID_Handler ::
  "string \<Rightarrow> string \<Rightarrow> detector \<Rightarrow> c_fault + (detector \<times> wait list)" where
  "qOCC_TimerID_Handler ctime_buf phase d =
    bindE (record_activity (alarm_activity ctime_buf phase (tmr d)) (acts d))
      (\<lambda>l. Inr (d\<lparr>acts := l, tmr := (tmr d)\<lparr>vq_TimerIsSet := False\<rparr>\<rparr>,
                if vCanStartEvaluationTimer (tmr d) then [W_Qinfo] else []))"

definition qEvaluation_TimerID_Handler :: "timers \<Rightarrow> timers" where
  "qEvaluation_TimerID_Handler t = t\<lparr>vCanStartEvaluationTimer := True\<rparr>"

section \<open>An INT hop, and an idle link\<close>

text \<open>The part of \<open>sample_func\<close>'s loop that looks at one hop's queue occupancy and hop latency;
  \<open>disable\<close> is \<open>timer_settime\<close> with \<open>sDisableTimer\<close> on an existing timer.\<close>

definition low_disable :: "bool \<Rightarrow> timers \<Rightarrow> timers" where
  "low_disable vUseRetransmissionRate t =
    (if vq_TimerIsSet t
     then t\<lparr>occ_armed := (if vUseRetransmissionRate then False else occ_armed t),
            hop_armed := False, vq_TimerIsSet := False\<rparr>
     else t)"

definition evaluate_hop ::
  "bool \<Rightarrow> thresholds \<Rightarrow> int \<Rightarrow> hop_key \<Rightarrow> u32 \<Rightarrow> u32 \<Rightarrow> timers \<Rightarrow> timers \<times> wait list" where
  "evaluate_hop vUseRetransmissionRate th ret key Qinfo hop_latency_thr t =
    (if vHOP_LATENCY_DELTA th < hop_latency_thr \<and> vQUEUE_OCCUPANCY_DELTA th < Qinfo
     then (EvaluateQOcc_and_HopDelay ret key Qinfo hop_latency_thr t, [])
     else if vUseRetransmissionRate \<and> vQUEUE_OCCUPANCY_DELTA th < Qinfo
     then (EvaluateQOccUserInfo ret key Qinfo t, [])
     else
       let t1 = low_disable vUseRetransmissionRate t in
       (t1, if vSentPacingOver t1 \<and> vCanStartEvaluationTimer t1
            then [W_Reset (fk_src_ip key) (fk_dst_ip key)] else []))"

text \<open>\<open>fDoRunGetThresholds\<close> when neither side of the link moved data in this round.\<close>

definition idle_link :: "bool \<Rightarrow> timers \<Rightarrow> timers \<times> wait list" where
  "idle_link vTwiceInaRow t =
    (let t1 = (if vq_TimerIsSet t
               then t\<lparr>occ_armed := False, hop_armed := False, vq_TimerIsSet := False\<rparr> else t);
         t2 = (if \<not> vCanStartEvaluationTimer t1 \<and> vTwiceInaRow
               then t1\<lparr>eval_armed := False, vCanStartEvaluationTimer := True\<rparr> else t1)
     in (t2, if vSentPacingOver t2 \<and> vTwiceInaRow \<and> vCanStartEvaluationTimer t2
             then [W_Cleanup] else []))"

section \<open>The machine\<close>

text \<open>
  The threads and signal handlers interleaved: the perf thread looking at a hop, the three timers
  firing, the threshold thread on an idle link, a waiting poster going on, the sender taking a
  message, and the HTTP server changing \<open>vUseRetransmissionRate\<close>.  The perf thread does not look at
  another hop while its reset message waits, nor the threshold thread start another round while
  its cleanup message does.
\<close>

record machine =
  det :: detector
  waits :: "wait list"
  vUseRetransmissionRate :: bool

datatype event =
    E_Hop int hop_key u32 u32
  | E_Fire_Hop string string
  | E_Fire_Occ string string
  | E_Fire_Eval
  | E_Idle bool
  | E_Proceed int u32 wait
  | E_Sender
  | E_Use_Retransmission bool

definition waits_reset :: "wait list \<Rightarrow> bool" where
  "waits_reset ws \<longleftrightarrow> (\<exists>w \<in> set ws. case w of W_Reset _ _ \<Rightarrow> True | _ \<Rightarrow> False)"

definition with_tmr :: "timers \<Rightarrow> machine \<Rightarrow> machine" where
  "with_tmr t m = m\<lparr>det := (det m)\<lparr>tmr := t\<rparr>\<rparr>"

inductive det_step :: "bool \<Rightarrow> thresholds \<Rightarrow> machine \<Rightarrow> event \<Rightarrow> machine \<Rightarrow> bool"
  for kafka :: bool and th :: thresholds where
  step_hop: "\<not> waits_reset (waits m) \<Longrightarrow>
    evaluate_hop (vUseRetransmissionRate m) th ret key Qinfo hopd (tmr (det m)) = (t, ws) \<Longrightarrow>
    det_step kafka th m (E_Hop ret key Qinfo hopd) ((with_tmr t m)\<lparr>waits := waits m @ ws\<rparr>)"
| step_fire_hop: "hop_armed (tmr (det m)) \<Longrightarrow>
    qOCC_Hop_TimerID_Handler ctime phase ((det m)\<lparr>tmr := (tmr (det m))\<lparr>hop_armed := False\<rparr>\<rparr>) = Inr (d, ws) \<Longrightarrow>
    det_step kafka th m (E_Fire_Hop ctime phase) (m\<lparr>det := d, waits := waits m @ ws\<rparr>)"
| step_fire_occ: "occ_armed (tmr (det m)) \<Longrightarrow>
    qOCC_TimerID_Handler ctime phase ((det m)\<lparr>tmr := (tmr (det m))\<lparr>occ_armed := False\<rparr>\<rparr>) = Inr (d, ws) \<Longrightarrow>
    det_step kafka th m (E_Fire_Occ ctime phase) (m\<lparr>det := d, waits := waits m @ ws\<rparr>)"
| step_fire_eval: "eval_armed (tmr (det m)) \<Longrightarrow>
    det_step kafka th m E_Fire_Eval
      (with_tmr (qEvaluation_TimerID_Handler ((tmr (det m))\<lparr>eval_armed := False\<rparr>)) m)"
| step_idle: "W_Cleanup \<notin> set (waits m) \<Longrightarrow> idle_link twice (tmr (det m)) = (t, ws) \<Longrightarrow>
    det_step kafka th m (E_Idle twice) ((with_tmr t m)\<lparr>waits := waits m @ ws\<rparr>)"
| step_proceed: "w \<in> set (waits m) \<Longrightarrow> proceed kafka ret src w (det m) = Some d \<Longrightarrow>
    det_step kafka th m (E_Proceed ret src w) (m\<lparr>det := d, waits := remove1 w (waits m)\<rparr>)"
| step_sender: "take_msg (peerq (det m)) = Some (msg, q) \<Longrightarrow>
    det_step kafka th m E_Sender (m\<lparr>det := (det m)\<lparr>peerq := q\<rparr>\<rparr>)"
| step_use: "det_step kafka th m (E_Use_Retransmission b) (m\<lparr>vUseRetransmissionRate := b\<rparr>)"

inductive det_run :: "bool \<Rightarrow> thresholds \<Rightarrow> machine \<Rightarrow> event list \<Rightarrow> machine \<Rightarrow> bool"
  for kafka :: bool and th :: thresholds where
  run_nil: "det_run kafka th m [] m"
| run_step: "det_run kafka th m es m' \<Longrightarrow> det_step kafka th m' e m'' \<Longrightarrow>
    det_run kafka th m (es @ [e]) m''"

inductive_cases det_step_cases: "det_step kafka th m e m'"

definition initial_machine :: "bool \<Rightarrow> machine" where
  "initial_machine use = \<lparr>det = \<lparr>tmr = initial_timers, peerq = empty_queue, acts = empty_log\<rparr>,
     waits = [], vUseRetransmissionRate = use\<rparr>"

section \<open>Invariants\<close>

text \<open>Whatever the settings: a timer the flag promises is armed, and the gate is closed only while
  the evaluation timer that reopens it is armed.\<close>

definition timers_ok :: "timers \<Rightarrow> bool" where
  "timers_ok t \<longleftrightarrow> (vq_TimerIsSet t \<longrightarrow> hop_armed t \<or> occ_armed t)
     \<and> (\<not> vCanStartEvaluationTimer t \<longrightarrow> eval_armed t)"

text \<open>With \<open>vUseRetransmissionRate\<close> constant the flag is exact: at most one of the two timers is
  armed, and one is exactly while the flag is set.\<close>

definition timers_exact :: "bool \<Rightarrow> timers \<Rightarrow> bool" where
  "timers_exact use t \<longleftrightarrow> (vq_TimerIsSet t \<longleftrightarrow> hop_armed t \<or> occ_armed t)
     \<and> \<not> (hop_armed t \<and> occ_armed t) \<and> (\<not> use \<longrightarrow> \<not> occ_armed t)"

named_theorems timer_ops \<open>the timer operations, unfolded\<close>
lemmas [timer_ops] = fStartEvaluationTimer_def EvaluateQOcc_and_HopDelay_def
  EvaluateQOccUserInfo_def low_disable_def qEvaluation_TimerID_Handler_def Let_def

lemma proceed_tmr:
  "proceed kafka ret src w d = Some d' \<Longrightarrow>
     (tmr d' = fStartEvaluationTimer kafka ret (tmr d) \<and> w \<in> {W_Qinfo_HopD, W_Qinfo}) \<or>
     tmr d' = (tmr d)\<lparr>vSentPacingOver := False\<rparr> \<or> tmr d' = tmr d"
  by (cases w) (auto simp: Let_def split: option.splits)

lemma handler_tmr:
  assumes "qOCC_Hop_TimerID_Handler c p d = Inr (d', ws) \<or> qOCC_TimerID_Handler c p d = Inr (d', ws)"
  shows "tmr d' = (tmr d)\<lparr>vq_TimerIsSet := False\<rparr>" "peerq d' = peerq d"
    "\<not> vCanStartEvaluationTimer (tmr d) \<Longrightarrow> ws = []"
  using assms by (auto simp: qOCC_Hop_TimerID_Handler_def qOCC_TimerID_Handler_def bindE_Inr_iff
      split: if_splits)

lemma start_evaluation_keeps:
  "timers_ok t \<Longrightarrow> timers_ok (fStartEvaluationTimer kafka ret t)"
  "timers_exact use t \<Longrightarrow> timers_exact use (fStartEvaluationTimer kafka ret t)"
  by (simp_all add: timers_ok_def timers_exact_def fStartEvaluationTimer_def)

lemma sent_flag_keeps [simp]:
  "timers_ok (t\<lparr>vSentPacingOver := b\<rparr>) = timers_ok t"
  "timers_exact use (t\<lparr>vSentPacingOver := b\<rparr>) = timers_exact use t"
  by (simp_all add: timers_ok_def timers_exact_def)

lemma proceed_keeps:
  assumes "proceed kafka ret src w d = Some d'"
  shows "timers_ok (tmr d) \<Longrightarrow> timers_ok (tmr d')"
    "timers_exact use (tmr d) \<Longrightarrow> timers_exact use (tmr d')"
  using proceed_tmr [OF assms] start_evaluation_keeps by auto

lemma evaluate_hop_keeps:
  "timers_ok t \<Longrightarrow> timers_ok (fst (evaluate_hop use th ret key q h t))"
  "timers_exact use t \<Longrightarrow> timers_exact use (fst (evaluate_hop use th ret key q h t))"
proof -
  have a: "timers_ok t \<Longrightarrow> timers_ok (EvaluateQOcc_and_HopDelay ret key q h t)"
    "timers_ok t \<Longrightarrow> timers_ok (EvaluateQOccUserInfo ret key q t)"
    "timers_ok t \<Longrightarrow> timers_ok (low_disable use t)"
    by (simp_all add: timers_ok_def EvaluateQOcc_and_HopDelay_def EvaluateQOccUserInfo_def low_disable_def)
  have b: "timers_exact use t \<Longrightarrow> timers_exact use (EvaluateQOcc_and_HopDelay ret key q h t)"
    "use \<Longrightarrow> timers_exact use t \<Longrightarrow> timers_exact use (EvaluateQOccUserInfo ret key q t)"
    "timers_exact use t \<Longrightarrow> timers_exact use (low_disable use t)"
    by (auto simp: timers_exact_def EvaluateQOcc_and_HopDelay_def EvaluateQOccUserInfo_def low_disable_def)
  show "timers_ok t \<Longrightarrow> timers_ok (fst (evaluate_hop use th ret key q h t))"
    using a by (simp add: evaluate_hop_def Let_def)
  show "timers_exact use t \<Longrightarrow> timers_exact use (fst (evaluate_hop use th ret key q h t))"
    using b by (auto simp: evaluate_hop_def Let_def)
qed

lemma idle_link_keeps:
  "timers_ok t \<Longrightarrow> timers_ok (fst (idle_link twice t))"
  "timers_exact use t \<Longrightarrow> timers_exact use (fst (idle_link twice t))"
  by (auto simp: timers_ok_def timers_exact_def idle_link_def Let_def)

lemma timers_ok_step:
  assumes "timers_ok (tmr (det m))" "det_step kafka th m e m'"
  shows "timers_ok (tmr (det m'))"
  using assms(2,1)
proof cases
  case (step_proceed w ret src d)
  then show ?thesis
    using proceed_keeps(1) assms(1) by simp
next
  case (step_fire_hop ctime phase d ws)
  with handler_tmr(1) [OF disjI1 [OF step_fire_hop(4)]] assms(1)
  show ?thesis by (auto simp: timers_ok_def)
next
  case (step_fire_occ ctime phase d ws)
  with handler_tmr(1) [OF disjI2 [OF step_fire_occ(4)]] assms(1)
  show ?thesis by (auto simp: timers_ok_def)
next
  case (step_hop ret key Qinfo hopd t ws)
  then have "t = fst (evaluate_hop (vUseRetransmissionRate m) th ret key Qinfo hopd (tmr (det m)))"
    by simp
  then show ?thesis
    using evaluate_hop_keeps(1) [OF assms(1), of "vUseRetransmissionRate m" th ret key Qinfo hopd] step_hop
    by (simp add: with_tmr_def)
next
  case (step_idle twice t ws)
  then have "t = fst (idle_link twice (tmr (det m)))" by simp
  then show ?thesis
    using idle_link_keeps(1) [OF assms(1), of twice] step_idle by (simp add: with_tmr_def)
qed (auto simp: timers_ok_def with_tmr_def qEvaluation_TimerID_Handler_def)

lemma timers_exact_step:
  assumes "timers_exact (vUseRetransmissionRate m) (tmr (det m))" "det_step kafka th m e m'"
    and "\<forall>b. e \<noteq> E_Use_Retransmission b"
  shows "timers_exact (vUseRetransmissionRate m') (tmr (det m'))"
    and "vUseRetransmissionRate m' = vUseRetransmissionRate m"
proof -
  show "vUseRetransmissionRate m' = vUseRetransmissionRate m"
    using assms(2,3) by cases (auto simp: with_tmr_def)
  show "timers_exact (vUseRetransmissionRate m') (tmr (det m'))"
    using assms(2,1)
  proof cases
    case (step_proceed w ret src d)
    then show ?thesis
      using proceed_keeps(2) assms(1) by simp
  next
    case (step_fire_hop ctime phase d ws)
    with handler_tmr(1) [OF disjI1 [OF step_fire_hop(4)]] assms(1)
    show ?thesis by (auto simp: timers_exact_def)
  next
    case (step_fire_occ ctime phase d ws)
    with handler_tmr(1) [OF disjI2 [OF step_fire_occ(4)]] assms(1)
    show ?thesis by (auto simp: timers_exact_def)
  next
    case (step_hop ret key Qinfo hopd t ws)
    then have "t = fst (evaluate_hop (vUseRetransmissionRate m) th ret key Qinfo hopd (tmr (det m)))"
      by simp
    then show ?thesis
      using evaluate_hop_keeps(2) [OF assms(1), of th ret key Qinfo hopd] step_hop
    by (simp add: with_tmr_def)
  next
    case (step_idle twice t ws)
    then have "t = fst (idle_link twice (tmr (det m)))" by simp
    then show ?thesis
      using idle_link_keeps(2) [OF assms(1), of twice] step_idle by (simp add: with_tmr_def)
  qed (use assms(3) in \<open>auto simp: timers_exact_def with_tmr_def qEvaluation_TimerID_Handler_def\<close>)
qed

lemma run_timers_ok:
  "det_run kafka th m es m' \<Longrightarrow> timers_ok (tmr (det m)) \<Longrightarrow> timers_ok (tmr (det m'))"
  by (induction rule: det_run.induct) (auto intro: timers_ok_step)

lemma run_timers_exact:
  "det_run kafka th m es m' \<Longrightarrow> timers_exact (vUseRetransmissionRate m) (tmr (det m)) \<Longrightarrow>
   \<forall>b. E_Use_Retransmission b \<notin> set es \<Longrightarrow>
   timers_exact (vUseRetransmissionRate m') (tmr (det m'))
     \<and> vUseRetransmissionRate m' = vUseRetransmissionRate m"
proof (induction rule: det_run.induct)
  case (run_step m es m' e m'')
  then have "timers_exact (vUseRetransmissionRate m') (tmr (det m'))
      \<and> vUseRetransmissionRate m' = vUseRetransmissionRate m" "\<forall>b. e \<noteq> E_Use_Retransmission b"
    by auto
  then show ?case using timers_exact_step [OF _ run_step.hyps(2)] by metis
qed simp

lemma timers_ok_initial [simp]: "timers_ok initial_timers"
  by (simp add: timers_ok_def initial_timers_def)

lemma timers_exact_initial [simp]: "timers_exact use initial_timers"
  by (simp add: timers_exact_def initial_timers_def)

lemma initial_machine_simps [simp]:
  "tmr (det (initial_machine use)) = initial_timers"
  "vUseRetransmissionRate (initial_machine use) = use"
  "waits (initial_machine use) = []" "peerq (det (initial_machine use)) = empty_queue"
  "acts (det (initial_machine use)) = empty_log"
  by (simp_all add: initial_machine_def)

section \<open>The log and the queue along a run\<close>

lemma length_alarm_activity:
  "length (alarm_activity c p t) \<le> length c + length p + 49"
proof -
  have "length (show_hex (unat (curr_hop_key_hop_index t))) \<le> Suc 7"
    by (rule length_show_hex_le) (use unat_u32_lt in simp)
  then show ?thesis by (simp add: alarm_activity_def)
qed

lemma handler_total:
  assumes "log_ok (acts d)" "length c + length p < 1000"
  shows "\<exists>l. qOCC_Hop_TimerID_Handler c p d = Inr (d\<lparr>acts := l, tmr := (tmr d)\<lparr>vq_TimerIsSet := False\<rparr>\<rparr>,
      if vCanStartEvaluationTimer (tmr d) then [W_Qinfo_HopD] else [])"
    and "\<exists>l. qOCC_TimerID_Handler c p d = Inr (d\<lparr>acts := l, tmr := (tmr d)\<lparr>vq_TimerIsSet := False\<rparr>\<rparr>,
      if vCanStartEvaluationTimer (tmr d) then [W_Qinfo] else [])"
proof -
  have "length (alarm_activity c p (tmr d)) + length (activity_tag (acts d)) < MAX_SIZE_TUNING_STRING"
    using length_alarm_activity [of c p "tmr d"] length_activity_tag [OF assms(1)] assms(2)
    by (simp add: MAX_SIZE_TUNING_STRING_def)
  then obtain l where "record_activity (alarm_activity c p (tmr d)) (acts d) = Inr l"
    by (auto simp: record_activity_def Let_def)
  then show "\<exists>l. qOCC_Hop_TimerID_Handler c p d = Inr (d\<lparr>acts := l, tmr := (tmr d)\<lparr>vq_TimerIsSet := False\<rparr>\<rparr>,
      if vCanStartEvaluationTimer (tmr d) then [W_Qinfo_HopD] else [])"
    and "\<exists>l. qOCC_TimerID_Handler c p d = Inr (d\<lparr>acts := l, tmr := (tmr d)\<lparr>vq_TimerIsSet := False\<rparr>\<rparr>,
      if vCanStartEvaluationTimer (tmr d) then [W_Qinfo] else [])"
    by (auto simp: qOCC_Hop_TimerID_Handler_def qOCC_TimerID_Handler_def)
qed

fun wait_post :: "u32 \<Rightarrow> wait \<Rightarrow> timer_data \<Rightarrow> peer_post" where
  "wait_post src W_Qinfo_HopD td = Post_Qinfo_HopD (td_vQinfo td) (td_vHopDelay td) (td_src td) (td_dst td)"
| "wait_post src W_Qinfo td = Post_Qinfo (td_vQinfo td) (td_src td) (td_dst td)"
| "wait_post src (W_Reset a b) td = Post_Reset a b"
| "wait_post src W_Cleanup td = Post_Cleanup src"
| "wait_post src (W_Start v a b) td = Post_Start v a b"

lemma proceed_post:
  "(proceed kafka ret src w d = None \<longleftrightarrow> post (wait_post src w (sqOCC_TimerID_Data (tmr d))) (peerq d) = None)"
  "proceed kafka ret src w d = Some d' \<Longrightarrow>
     post (wait_post src w (sqOCC_TimerID_Data (tmr d))) (peerq d) = Some (peerq d') \<and> acts d' = acts d"
  by (cases w; auto simp: Let_def split: option.splits)+

definition stores_ok :: "detector \<Rightarrow> bool" where
  "stores_ok d \<longleftrightarrow> queue_inv (peerq d) \<and> log_ok (acts d)"

lemma handler_stores:
  assumes "stores_ok d" "qOCC_Hop_TimerID_Handler c p d = Inr (d', ws) \<or> qOCC_TimerID_Handler c p d = Inr (d', ws)"
  shows "stores_ok d'"
  using assms record_activity_Inr(1)
  by (auto simp: stores_ok_def qOCC_Hop_TimerID_Handler_def qOCC_TimerID_Handler_def bindE_Inr_iff)

lemma stores_ok_step:
  assumes "det_step kafka th m e m'" "stores_ok (det m)"
  shows "stores_ok (det m')"
  using assms
proof cases
  case (step_proceed w ret src d)
  then show ?thesis
    using proceed_post(2) [OF step_proceed(4)] post_step assms(2) by (auto simp: stores_ok_def)
next
  case (step_fire_hop ctime phase d ws)
  with handler_stores [OF _ disjI1 [OF step_fire_hop(4)]] assms(2)
  show ?thesis by (simp add: stores_ok_def)
next
  case (step_fire_occ ctime phase d ws)
  with handler_stores [OF _ disjI2 [OF step_fire_occ(4)]] assms(2)
  show ?thesis by (simp add: stores_ok_def)
next
  case (step_sender msg q)
  then show ?thesis using take_step assms(2) by (auto simp: stores_ok_def)
qed (simp_all add: stores_ok_def with_tmr_def)

lemma run_stores_ok: "det_run kafka th m es m' \<Longrightarrow> stores_ok (det m) \<Longrightarrow> stores_ok (det m')"
  by (induction rule: det_run.induct) (auto intro: stores_ok_step)

lemma stores_ok_initial [simp]: "stores_ok (det (initial_machine use))"
  by (simp add: stores_ok_def)

section \<open>The gate\<close>

definition is_qinfo_wait :: "wait \<Rightarrow> bool" where
  "is_qinfo_wait w \<longleftrightarrow> w = W_Qinfo_HopD \<or> w = W_Qinfo"

definition qinfo_waits :: "machine \<Rightarrow> nat" where
  "qinfo_waits m = length (filter is_qinfo_wait (waits m))"

definition reopens :: "event \<Rightarrow> bool" where
  "reopens e \<longleftrightarrow> e = E_Fire_Eval \<or> (\<exists>b. e = E_Idle b)"

lemma filter_remove1_le: "length (filter P (remove1 w ws)) \<le> length (filter P ws)"
  by (induction ws) auto

lemma start_evaluation_gate:
  "vCanStartEvaluationTimer (fStartEvaluationTimer kafka ret t) \<longleftrightarrow>
     vCanStartEvaluationTimer t \<and> ret \<noteq> 0"
  by (simp add: fStartEvaluationTimer_def)

lemma closed_step:
  assumes "det_step kafka th m e m'" "\<not> vCanStartEvaluationTimer (tmr (det m))" "\<not> reopens e"
  shows "\<not> vCanStartEvaluationTimer (tmr (det m')) \<and> qinfo_waits m' \<le> qinfo_waits m"
  using assms(1)
proof cases
  case (step_proceed w ret src d)
  have "\<not> vCanStartEvaluationTimer (tmr d)"
    using proceed_tmr [OF step_proceed(4)] assms(2) by (auto simp: start_evaluation_gate)
  then show ?thesis using step_proceed filter_remove1_le by (simp add: qinfo_waits_def)
next
  case (step_fire_hop ctime phase d ws)
  with handler_tmr [OF disjI1 [OF step_fire_hop(4)]] assms(2)
  show ?thesis by (auto simp: qinfo_waits_def)
next
  case (step_fire_occ ctime phase d ws)
  with handler_tmr [OF disjI2 [OF step_fire_occ(4)]] assms(2)
  show ?thesis by (auto simp: qinfo_waits_def)
next
  case (step_hop ret key Qinfo hopd t ws)
  then have "t = fst (evaluate_hop (vUseRetransmissionRate m) th ret key Qinfo hopd (tmr (det m)))"
    "ws = snd (evaluate_hop (vUseRetransmissionRate m) th ret key Qinfo hopd (tmr (det m)))"
    by simp_all
  then show ?thesis
    using assms(2) step_hop
    by (simp add: with_tmr_def evaluate_hop_def timer_ops qinfo_waits_def is_qinfo_wait_def)
next
  case (step_idle twice t ws)
  then show ?thesis using assms(3) by (simp add: reopens_def)
qed (use assms(2,3) in \<open>auto simp: reopens_def qinfo_waits_def\<close>)

lemma closed_run:
  "det_run kafka th m es m' \<Longrightarrow> \<not> vCanStartEvaluationTimer (tmr (det m)) \<Longrightarrow>
   \<forall>e \<in> set es. \<not> reopens e \<Longrightarrow>
   \<not> vCanStartEvaluationTimer (tmr (det m')) \<and> qinfo_waits m' \<le> qinfo_waits m"
proof (induction rule: det_run.induct)
  case (run_step m es m' e m'')
  then have "\<not> vCanStartEvaluationTimer (tmr (det m'))" "qinfo_waits m' \<le> qinfo_waits m"
    "\<not> reopens e" by simp_all
  with closed_step [OF run_step.hyps(2)] show ?case by fastforce
qed simp

section \<open>Properties\<close>


definition example_key :: hop_key where
  "example_key = \<lparr>fk_switch_id = 1, fk_egress_port = 2, fk_vlan_id = 3, fk_src_ip = 4,
     fk_dst_ip = 5, fk_src_port = 6, fk_dst_port = 7,
     fk_resv1 = 0, hop_index = 0\<rparr>"

lemma example_hop_armed:
  "\<exists>m. det_run False default_thresholds (initial_machine False) [E_Hop 0 example_key 500 600000] m
     \<and> vq_TimerIsSet (tmr (det m)) \<and> hop_armed (tmr (det m))"
proof -
  let ?t = "EvaluateQOcc_and_HopDelay 0 example_key 500 600000 initial_timers"
  have e: "evaluate_hop (vUseRetransmissionRate (initial_machine False)) default_thresholds 0 example_key
      500 600000 (tmr (det (initial_machine False))) = (?t, [])"
    by (simp add: evaluate_hop_def default_thresholds_def)
  have s: "det_step False default_thresholds (initial_machine False) (E_Hop 0 example_key 500 600000)
      ((with_tmr ?t (initial_machine False))\<lparr>waits := waits (initial_machine False) @ []\<rparr>)"
    by (rule step_hop [OF _ e]) (simp add: waits_reset_def)
  from run_step [OF run_nil s] show ?thesis
    by (intro exI conjI) (auto simp: with_tmr_def EvaluateQOcc_and_HopDelay_def initial_timers_def)
qed


text \<open>The flag is exact while the setting is constant.  At every state reachable without a change
  of \<open>vUseRetransmissionRate\<close>, the flag \<open>vq_TimerIsSet\<close> is set exactly while one of the two
  queue-occupancy timers is armed, and never are both.\<close>

theorem timer_flag_exact:
  assumes "det_run kafka th (initial_machine use) es m" "\<forall>b. E_Use_Retransmission b \<notin> set es"
  shows "(vq_TimerIsSet (tmr (det m)) \<longleftrightarrow> hop_armed (tmr (det m)) \<or> occ_armed (tmr (det m)))
    \<and> \<not> (hop_armed (tmr (det m)) \<and> occ_armed (tmr (det m)))"
proof -
  have "timers_exact use (tmr (det m))"
    using run_timers_exact [OF assms(1) _ assms(2)] by auto
  then show ?thesis by (simp add: timers_exact_def)
qed

theorem timer_flag_exact_witness:
  "\<exists>m. det_run False default_thresholds (initial_machine False) [E_Hop 0 example_key 500 600000] m
     \<and> hop_armed (tmr (det m)) \<and> \<not> occ_armed (tmr (det m))"
  using example_hop_armed timer_flag_exact [of False default_thresholds False "[E_Hop 0 example_key 500 600000]"]
  by fastforce

text \<open>C4: Switching \<open>vUseRetransmissionRate\<close> off while its timer is armed leaves that timer armed:
  there is a run after which the flag is clear, the last hop was below both thresholds, and
  \<open>qOCC_TimerID\<close> still fires and asks the source to pace for the old reading.\<close>

theorem stale_timer_reachable:
  "\<exists>es m m'. det_run False default_thresholds (initial_machine True) es m
     \<and> last es = E_Hop 0 example_key 0 0 \<and> \<not> vq_TimerIsSet (tmr (det m))
     \<and> det_step False default_thresholds m (E_Fire_Occ [] []) m' \<and> waits m' = [W_Qinfo]"
proof -
  let ?m0 = "initial_machine True"
  let ?t1 = "EvaluateQOccUserInfo 0 example_key 500 initial_timers"
  let ?m1 = "(with_tmr ?t1 ?m0)\<lparr>waits := waits ?m0 @ []\<rparr>"
  let ?m2 = "?m1\<lparr>vUseRetransmissionRate := False\<rparr>"
  let ?t3 = "low_disable False ?t1"
  let ?m3 = "(with_tmr ?t3 ?m2)\<lparr>waits := waits ?m2 @ []\<rparr>"
  have "evaluate_hop (vUseRetransmissionRate ?m0) default_thresholds 0 example_key 500 0 (tmr (det ?m0)) = (?t1, [])"
    by (simp add: evaluate_hop_def default_thresholds_def)
  then have s1: "det_step False default_thresholds ?m0 (E_Hop 0 example_key 500 0) ?m1"
    by (intro step_hop) (simp_all add: waits_reset_def)
  have t1: "\<not> vSentPacingOver ?t3" "occ_armed ?t3" "\<not> vq_TimerIsSet ?t3" "vCanStartEvaluationTimer ?t3"
    by (simp_all add: EvaluateQOccUserInfo_def initial_timers_def low_disable_def)
  have "evaluate_hop (vUseRetransmissionRate ?m2) default_thresholds 0 example_key 0 0 (tmr (det ?m2)) = (?t3, [])"
    using t1(1) by (simp add: evaluate_hop_def default_thresholds_def with_tmr_def Let_def)
  then have s3: "det_step False default_thresholds ?m2 (E_Hop 0 example_key 0 0) ?m3"
    by (intro step_hop) (simp_all add: waits_reset_def with_tmr_def)
  have r: "det_run False default_thresholds ?m0
      (([] @ [E_Hop 0 example_key 500 0]) @ [E_Use_Retransmission False] @ [E_Hop 0 example_key 0 0]) ?m3"
    using run_step [OF run_step [OF run_step [OF run_nil s1] step_use] s3] by simp
  let ?d = "(det ?m3)\<lparr>tmr := (tmr (det ?m3))\<lparr>occ_armed := False\<rparr>\<rparr>"
  have a: "acts ?d = empty_log" "tmr (det ?m3) = ?t3" "waits ?m3 = []" by (simp_all add: with_tmr_def)
  obtain l where "qOCC_TimerID_Handler [] [] ?d = Inr (?d\<lparr>acts := l, tmr := (tmr ?d)\<lparr>vq_TimerIsSet := False\<rparr>\<rparr>,
      [W_Qinfo])"
    using handler_total(2) [of ?d "[]" "[]"] a t1 by auto
  from step_fire_occ [OF _ this, of False default_thresholds] a t1 r
  show ?thesis by (intro exI [where x = ?m3] exI conjI) auto
qed

text \<open>C3: At most one request per evaluation period.  From a state where the gate is closed, as it is
  after every pacing request whose evaluation timer could be armed, no sequence of hops, alarms,
  posts and sends asks for another pacing request until the evaluation timer fires or the link
  goes idle; at most those already waiting for the queue are still posted.\<close>

theorem one_request_per_evaluation:
  assumes "det_run kafka th m es m'" "\<not> vCanStartEvaluationTimer (tmr (det m))"
    and "\<forall>e \<in> set es. \<not> reopens e"
  shows "\<not> vCanStartEvaluationTimer (tmr (det m')) \<and> qinfo_waits m' \<le> qinfo_waits m"
  using closed_run [OF assms] .

definition closed_machine :: machine where
  "closed_machine = with_tmr (fStartEvaluationTimer False 0 initial_timers) (initial_machine True)"

theorem one_request_per_evaluation_witness:
  "\<exists>m'. det_run False default_thresholds closed_machine [E_Use_Retransmission False] m' \<and> qinfo_waits m' = 0"
proof -
  have c: "\<not> vCanStartEvaluationTimer (tmr (det closed_machine))" "qinfo_waits closed_machine = 0"
    by (simp_all add: closed_machine_def with_tmr_def fStartEvaluationTimer_def qinfo_waits_def)
  have r: "det_run False default_thresholds closed_machine ([] @ [E_Use_Retransmission False])
      (closed_machine\<lparr>vUseRetransmissionRate := False\<rparr>)"
    by (rule run_step [OF run_nil step_use])
  with one_request_per_evaluation [OF r c(1)] c(2) show ?thesis by (auto simp: reopens_def)
qed

text \<open>A waiting poster is never stuck.  At every reachable state, a handler or thread that waits to
  post either goes on at once, or the queue is full, the sender can take a message, and right
  after that it goes on.\<close>

theorem waiting_post_proceeds:
  assumes "det_run kafka th (initial_machine use) es m"
  shows "proceed kafka ret src w (det m) \<noteq> None \<or>
    (\<exists>msg q. take_msg (peerq (det m)) = Some (msg, q) \<and>
       proceed kafka ret src w ((det m)\<lparr>peerq := q\<rparr>) \<noteq> None)"
proof -
  have q: "queue_inv (peerq (det m))" using run_stores_ok [OF assms] by (simp add: stores_ok_def)
  let ?p = "wait_post src w (sqOCC_TimerID_Data (tmr (det m)))"
  show ?thesis
  proof (cases "proceed kafka ret src w (det m)")
    case None
    then have "post ?p (peerq (det m)) = None" by (simp add: proceed_post(1))
    with peer_q.not_stuck [OF q, of ?p] obtain msg q' where t: "take_msg (peerq (det m)) = Some (msg, q')"
      by auto
    then have "post ?p q' \<noteq> None" by (rule peer_q.put_after_take [OF q])
    with t show ?thesis by (auto simp: proceed_post(1))
  qed simp
qed

end
