(* ===== verification/Pacing.thy ===== *)
theory Pacing
  imports Timers
begin

text \<open>
  The source DTN's pacing control (\<open>src/userspace/user_dtn.c\<close>): what it does when a destination
  reports congestion (\<open>fDoQinfoAssessment2\<close>, the older \<open>fDoQinfoAssessment\<close>), asks for a reset
  (\<open>fDoResetPacing2\<close>, \<open>fDoCleanupResetPacing2\<close> and their older forms), when Kafka reports residual
  bandwidth (\<open>fDoQinfoAssessmentKafka\<close>), and when the link goes idle.

  The state is \<open>sResetPacingBack\<close>, kept by each process and shared through a shared memory segment,
  and the trace of the shell commands run (\<open>System\<close>) or printed as advice (\<open>Suggest\<close>).  Whether
  \<open>shmat\<close> succeeds is the kernel's: \<open>pe_attach i\<close> for the \<open>i\<close>-th attempt of a call.
\<close>

definition REGULAR_PACING_FLAG_SET :: int where "REGULAR_PACING_FLAG_SET = 1"
definition NOPACING_FLAG_SET :: int where "NOPACING_FLAG_SET = 99"

record reset_pacing =
  rp_set :: int
  current_pacing :: double

text \<open>The \<open>tc\<close> commands, and the shell text the code formats for a device.\<close>

datatype tc_cmd =
    Tc_Del_Root
  | Tc_Change_Nopacing
  | Tc_Change_Maxrate double
  | Tc_Add_Maxrate double
  | Tc_Add_Htb
  | Tc_Class_Add_Root double
  | Tc_Class_Add double
  | Tc_Class_Change double

fun tc_text :: "string \<Rightarrow> tc_cmd \<Rightarrow> string" where
  "tc_text dev Tc_Del_Root = ''tc qdisc del dev '' @ dev @ '' root 2>/dev/null''"
| "tc_text dev Tc_Change_Nopacing = ''tc qdisc change dev '' @ dev @ '' root fq nopacing''"
| "tc_text dev (Tc_Change_Maxrate r) = ''tc qdisc change dev '' @ dev @ '' root fq maxrate ''
     @ show_fixed 2 r @ ''gbit pacing''"
| "tc_text dev (Tc_Add_Maxrate r) = ''tc qdisc del dev '' @ dev @ '' root 2>/dev/null; tc qdisc add dev ''
     @ dev @ '' root fq maxrate '' @ show_fixed 2 r @ ''gbit''"
| "tc_text dev Tc_Add_Htb = ''tc qdisc del dev '' @ dev @ '' root 2>/dev/null; tc qdisc add dev ''
     @ dev @ '' root handle 1: htb default 12''"
| "tc_text dev (Tc_Class_Add_Root r) = ''tc class add dev '' @ dev @ '' parent 1: classid 1:1 htb rate ''
     @ show_fixed 2 r @ ''gbit''"
| "tc_text dev (Tc_Class_Add r) = ''tc class add dev '' @ dev @ '' parent 1:1 classid 1:12 htb rate ''
     @ show_fixed 2 r @ ''gbit''"
| "tc_text dev (Tc_Class_Change r) = ''tc class change dev '' @ dev @ '' parent 1:1 classid 1:12 htb rate ''
     @ show_fixed 2 r @ ''gbit''"

datatype tc_action = System tc_cmd | Suggest tc_cmd

record pacer =
  sResetPacingBack :: reset_pacing
  shm :: reset_pacing
  trace :: "tc_action list"

record pace_env =
  netDeviceSpeed :: int
  vDebugLevel :: int
  gTuningMode :: bool
  vGlobal_average_tx_Gbits_per_sec :: double
  vGlobalRetransmissionRate :: double
  vRetransmissionRateThreshold :: double
  vMaxPacingRate :: double
  pe_can_evaluate :: bool
  pe_attach :: "nat \<Rightarrow> bool"

definition no_pacing :: pacer where
  "no_pacing = \<lparr>sResetPacingBack = \<lparr>rp_set = 0, current_pacing = 0\<rparr>,
     shm = \<lparr>rp_set = 0, current_pacing = 0\<rparr>, trace = []\<rparr>"

section \<open>Shared memory\<close>

definition shm_read :: "bool \<Rightarrow> pacer \<Rightarrow> bool \<times> pacer" where
  "shm_read attached p = (if attached then (True, p\<lparr>sResetPacingBack := shm p\<rparr>) else (False, p))"

definition shm_write :: "bool \<Rightarrow> pacer \<Rightarrow> pacer" where
  "shm_write attached p = (if attached then p\<lparr>shm := sResetPacingBack p\<rparr> else p)"

text \<open>\<open>shm_read(&sResetPacingBack, shm) && sResetPacingBack.set\<close>\<close>

definition pacing_set :: "bool \<Rightarrow> pacer \<Rightarrow> bool \<times> pacer" where
  "pacing_set attached p =
    (case shm_read attached p of (b, p1) \<Rightarrow> (b \<and> rp_set (sResetPacingBack p1) \<noteq> 0, p1))"

definition run_cmds :: "tc_cmd list \<Rightarrow> pacer \<Rightarrow> pacer" where
  "run_cmds cs p = p\<lparr>trace := trace p @ map System cs\<rparr>"

definition suggest_cmds :: "tc_cmd list \<Rightarrow> pacer \<Rightarrow> pacer" where
  "suggest_cmds cs p = p\<lparr>trace := trace p @ map Suggest cs\<rparr>"

definition record_pacing :: "bool \<Rightarrow> int \<Rightarrow> double \<Rightarrow> pacer \<Rightarrow> pacer" where
  "record_pacing attached flag v p =
    shm_write attached (p\<lparr>sResetPacingBack := \<lparr>rp_set = flag, current_pacing = v\<rparr>\<rparr>)"

section \<open>Whether a destination is attached\<close>

fun find_dest :: "u32 \<Rightarrow> sDest_Dtn_IPs list \<Rightarrow> bool" where
  "find_dest a [] = False"
| "find_dest a (e # es) =
    (if dip_addr e = 0 then find_dest a es
     else if a \<noteq> dip_addr e then find_dest a es
     else True)"

section \<open>Resets\<close>

definition fDoCleanupResetPacing2 :: "pace_env \<Rightarrow> pacer \<Rightarrow> pacer" where
  "fDoCleanupResetPacing2 env p =
    (case pacing_set (pe_attach env 0) p of
       (True, p1) \<Rightarrow>
         (if gTuningMode env
          then run_cmds [Tc_Del_Root] (record_pacing (pe_attach env 1) 0 0 p1) else p1)
     | (False, p1) \<Rightarrow> p1)"

definition fDoCleanupResetPacing :: "pace_env \<Rightarrow> pacer \<Rightarrow> pacer" where
  "fDoCleanupResetPacing env p =
    (case pacing_set (pe_attach env 0) p of
       (True, p1) \<Rightarrow>
         (if gTuningMode env
          then run_cmds [Tc_Del_Root] (record_pacing (pe_attach env 1) 0 0 p1) else p1)
     | (False, p1) \<Rightarrow> snd (shm_read (pe_attach env 1) p1))"

definition fDoResetPacing2 :: "pace_env \<Rightarrow> u32 \<Rightarrow> sDest_Dtn_IPs list \<Rightarrow> pacer \<Rightarrow> pacer" where
  "fDoResetPacing2 env dest_ip_addr tab p =
    (if find_dest dest_ip_addr tab
     then (case pacing_set (pe_attach env 0) p of
        (True, p1) \<Rightarrow>
          (if gTuningMode env
           then (if rp_set (sResetPacingBack p1) = NOPACING_FLAG_SET then p1
                 else if rp_set (sResetPacingBack p1) = REGULAR_PACING_FLAG_SET
                 then run_cmds [Tc_Change_Nopacing]
                        (record_pacing (pe_attach env 1) NOPACING_FLAG_SET 0 p1)
                 else p1)
           else p1)
      | (False, p1) \<Rightarrow> snd (shm_read (pe_attach env 1) p1))
     else p)"

definition fDoResetPacing :: "pace_env \<Rightarrow> u32 \<Rightarrow> sDest_Dtn_IPs list \<Rightarrow> pacer \<Rightarrow> pacer" where
  "fDoResetPacing env dest_ip_addr tab p =
    (if find_dest dest_ip_addr tab
     then (case pacing_set (pe_attach env 0) p of
        (True, p1) \<Rightarrow>
          (if gTuningMode env
           then run_cmds [Tc_Del_Root] (record_pacing (pe_attach env 1) 0 0 p1) else p1)
      | (False, p1) \<Rightarrow> snd (shm_read (pe_attach env 1) p1))
     else p)"

text \<open>The idle link in \<open>fDoRunGetThresholds\<close>.\<close>

definition idle_reset_pacing :: "pace_env \<Rightarrow> pacer \<Rightarrow> pacer" where
  "idle_reset_pacing env p =
    (case pacing_set (pe_attach env 0) p of
       (True, p1) \<Rightarrow>
         (if gTuningMode env
          then run_cmds [Tc_Del_Root] (record_pacing (pe_attach env 1) 0 0 p1) else p1)
     | (False, p1) \<Rightarrow> p1)"

section \<open>Congestion reported by a destination\<close>

definition new_pacing2 :: "pace_env \<Rightarrow> double" where
  "new_pacing2 env =
    (let v = dmul (vGlobal_average_tx_Gbits_per_sec env) (vMaxPacingRate env);
         v1 = (if 34 < v then 40 else v)
     in if v1 < 2 then 2 else v1)"

text \<open>What is to be done: nothing, or commands with the flag and pacing value that go with them.\<close>

datatype pace_plan = Leave_Pacing | Do_Pacing "tc_cmd list" int double

definition choose_pacing2 :: "bool \<Rightarrow> int \<Rightarrow> double \<Rightarrow> pace_plan" where
  "choose_pacing2 is_set flag v =
    (if is_set
     then (if v = 40
           then (if flag = NOPACING_FLAG_SET then Leave_Pacing
                 else if flag = REGULAR_PACING_FLAG_SET
                 then Do_Pacing [Tc_Change_Nopacing] NOPACING_FLAG_SET v
                 else Leave_Pacing)
           else Do_Pacing [Tc_Change_Maxrate v] REGULAR_PACING_FLAG_SET v)
     else
       let v1 = (if 34 < v then 34 else v)
       in Do_Pacing [Tc_Add_Maxrate v1] REGULAR_PACING_FLAG_SET v1)"

definition apply_hop_delay :: "pace_env \<Rightarrow> pace_plan \<Rightarrow> pacer \<Rightarrow> pacer" where
  "apply_hop_delay env plan p =
    (case plan of Leave_Pacing \<Rightarrow> p
     | Do_Pacing cs vPacingFlag v \<Rightarrow>
         if gTuningMode env then record_pacing (pe_attach env 1) vPacingFlag v (run_cmds cs p)
         else if 2 < vDebugLevel env then suggest_cmds cs p else p)"

definition apply_retransmission :: "pace_env \<Rightarrow> pace_plan \<Rightarrow> pacer \<Rightarrow> pacer" where
  "apply_retransmission env plan p =
    (case plan of Leave_Pacing \<Rightarrow> p
     | Do_Pacing cs vPacingFlag v \<Rightarrow>
         if gTuningMode env
         then record_pacing (pe_attach env 1) REGULAR_PACING_FLAG_SET v (run_cmds cs p)
         else if 2 < vDebugLevel env then suggest_cmds cs p else p)"

definition fDoQinfoAssessment2 ::
  "pace_env \<Rightarrow> u32 \<Rightarrow> u32 \<Rightarrow> sDest_Dtn_IPs list \<Rightarrow> pacer \<Rightarrow> pacer" where
  "fDoQinfoAssessment2 env hop_delay dest_ip_addr tab p =
    (if vGlobal_average_tx_Gbits_per_sec env = 0 then p
     else
       let found = find_dest dest_ip_addr tab; v = new_pacing2 env in
       if found \<and> hop_delay \<noteq> 0
       then (case pacing_set (pe_attach env 0) p of (is_set, p1) \<Rightarrow>
              apply_hop_delay env (choose_pacing2 is_set (rp_set (sResetPacingBack p1)) v) p1)
       else if found \<and> hop_delay = 0
         \<and> vRetransmissionRateThreshold env < vGlobalRetransmissionRate env
       then (case pacing_set (pe_attach env 0) p of (is_set, p1) \<Rightarrow>
              apply_retransmission env (choose_pacing2 is_set (rp_set (sResetPacingBack p1)) v) p1)
       else p)"

text \<open>The older assessment, with a class hierarchy instead of \<open>fq\<close>.\<close>

definition new_pacing1 :: "pace_env \<Rightarrow> double option" where
  "new_pacing1 env =
    (let vFDevSpeed = ddiv (dint (netDeviceSpeed env)) 1000;
         v = dmul (vGlobal_average_tx_Gbits_per_sec env) (vMaxPacingRate env)
     in if vFDevSpeed \<le> v then None else if v < 2 then Some 2 else Some v)"

definition choose_pacing1 :: "pace_env \<Rightarrow> bool \<Rightarrow> double \<Rightarrow> tc_cmd list" where
  "choose_pacing1 env is_set v =
    (if is_set then [Tc_Class_Change v]
     else [Tc_Add_Htb, Tc_Class_Add_Root (ddiv (dint (netDeviceSpeed env)) 1000), Tc_Class_Add v])"

definition fDoQinfoAssessment ::
  "pace_env \<Rightarrow> u32 \<Rightarrow> u32 \<Rightarrow> sDest_Dtn_IPs list \<Rightarrow> pacer \<Rightarrow> pacer" where
  "fDoQinfoAssessment env hop_delay dest_ip_addr tab p =
    (if vGlobal_average_tx_Gbits_per_sec env = 0 then p
     else case new_pacing1 env of None \<Rightarrow> p
     | Some v \<Rightarrow>
       if find_dest dest_ip_addr tab
         \<and> (hop_delay \<noteq> 0 \<or> vRetransmissionRateThreshold env < vGlobalRetransmissionRate env)
       then (case pacing_set (pe_attach env 0) p of (is_set, p1) \<Rightarrow>
              let cs = choose_pacing1 env is_set v in
              if gTuningMode env
              then record_pacing (pe_attach env 1) 1 v (run_cmds cs p1) else suggest_cmds cs p1)
       else p)"

section \<open>Residual bandwidth reported by Kafka\<close>

text \<open>The payload is the number \<open>strtoul\<close> reads, in bits per second.  The evaluation timer is the
  one of \<open>Timers\<close>; \<open>ret\<close> is what \<open>timer_settime\<close> returns for it.\<close>

definition kafka_Gbps :: "u64 \<Rightarrow> double" where
  "kafka_Gbps residual_bandwidth =
    (if residual_bandwidth = 0 then 0
     else ddiv (ddiv (dint (uint residual_bandwidth)) 1000) 1000000)"

definition kafka_pacing :: "double \<Rightarrow> double \<Rightarrow> double" where
  "kafka_pacing avg Gbps =
    (let v = dmul (dadd avg Gbps) (dlit (95 / 100)) in if 34 < v then 40 else v)"

text \<open>Removing the pacing when the link could run at the NIC's speed.\<close>

definition kafka_remove :: "pace_env \<Rightarrow> int \<Rightarrow> pacer \<times> timers \<Rightarrow> pacer \<times> timers" where
  "kafka_remove env ret pt =
    (let (p, t) = pt in
     if rp_set (sResetPacingBack p) = REGULAR_PACING_FLAG_SET \<and> vCanStartEvaluationTimer t
     then (run_cmds [Tc_Change_Nopacing] (record_pacing (pe_attach env 1) NOPACING_FLAG_SET 0 p),
           fStartEvaluationTimer True ret t)
     else (p, t))"

definition kafka_adjust :: "pace_env \<Rightarrow> int \<Rightarrow> bool \<Rightarrow> double \<Rightarrow> pacer \<times> timers \<Rightarrow> pacer \<times> timers" where
  "kafka_adjust env ret vCurrentPacingSet v pt =
    (let (p, t) = pt;
         c95 = dmul (current_pacing (sResetPacingBack p)) (dlit (95 / 100));
         vModifyPacing = (\<not> vCurrentPacingSet \<or> c95 < v \<or> v < c95);
         cs = (if \<not> vModifyPacing then []
               else if vCurrentPacingSet then [Tc_Change_Maxrate v] else [Tc_Add_Maxrate v])
     in if gTuningMode env
        then (if vModifyPacing \<and> vCanStartEvaluationTimer t
              then (record_pacing (pe_attach env 1) REGULAR_PACING_FLAG_SET v (run_cmds cs p),
                    fStartEvaluationTimer True ret t)
              else (p, t))
        else (suggest_cmds cs p, t))"

definition fDoQinfoAssessmentKafka ::
  "pace_env \<Rightarrow> int \<Rightarrow> u64 \<Rightarrow> pacer \<times> timers \<Rightarrow> pacer \<times> timers" where
  "fDoQinfoAssessmentKafka env ret residual_bandwidth pt =
    (let (p, t) = pt;
         avg = vGlobal_average_tx_Gbits_per_sec env;
         Gbps = kafka_Gbps residual_bandwidth;
         vFDevSpeed = ddiv (dint (netDeviceSpeed env)) 1000;
         near = dmul vFDevSpeed (dlit (95 / 100))
     in if avg = 0 then (p, t)
        else
          let (vCurrentPacingSet, p1) = pacing_set (pe_attach env 0) p;
              v = kafka_pacing avg Gbps
          in if dadd avg Gbps < near
             then (if near \<le> v
                   then (if gTuningMode env \<and> vCurrentPacingSet then kafka_remove env ret (p1, t)
                         else (p1, t))
                   else if v < dmul vFDevSpeed (dlit (10 / 100)) then (p1, t)
                   else kafka_adjust env ret vCurrentPacingSet v (p1, t))
             else if gTuningMode env \<and> vCurrentPacingSet then kafka_remove env ret (p1, t)
             else (p1, t))"

section \<open>What the record is to say\<close>

text \<open>The record describes the last command that took effect: \<open>NOPACING\<close> after pacing was switched
  off, \<open>REGULAR\<close> with the rate after a rate was set, cleared after the discipline was removed.\<close>

fun describes :: "tc_cmd \<Rightarrow> reset_pacing \<Rightarrow> bool" where
  "describes Tc_Del_Root r \<longleftrightarrow> rp_set r = 0"
| "describes Tc_Change_Nopacing r \<longleftrightarrow> rp_set r = NOPACING_FLAG_SET"
| "describes (Tc_Change_Maxrate v) r \<longleftrightarrow> rp_set r = REGULAR_PACING_FLAG_SET \<and> current_pacing r = v"
| "describes (Tc_Add_Maxrate v) r \<longleftrightarrow> rp_set r = REGULAR_PACING_FLAG_SET \<and> current_pacing r = v"
| "describes Tc_Add_Htb r \<longleftrightarrow> False"
| "describes (Tc_Class_Add_Root v) r \<longleftrightarrow> False"
| "describes (Tc_Class_Add v) r \<longleftrightarrow> rp_set r = REGULAR_PACING_FLAG_SET \<and> current_pacing r = v"
| "describes (Tc_Class_Change v) r \<longleftrightarrow> rp_set r = REGULAR_PACING_FLAG_SET \<and> current_pacing r = v"

fun system_cmds :: "tc_action list \<Rightarrow> tc_cmd list" where
  "system_cmds [] = []"
| "system_cmds (System c # as) = c # system_cmds as"
| "system_cmds (Suggest c # as) = system_cmds as"

lemma system_cmds_append [simp]: "system_cmds (as @ bs) = system_cmds as @ system_cmds bs"
  by (induction as rule: system_cmds.induct) simp_all

lemma system_cmds_map [simp]:
  "system_cmds (map System cs) = cs" "system_cmds (map Suggest cs) = []"
  by (induction cs) simp_all

definition consistent :: "pacer \<Rightarrow> bool" where
  "consistent p \<longleftrightarrow> (if system_cmds (trace p) = [] then rp_set (shm p) = 0
     else describes (last (system_cmds (trace p))) (shm p))"

text \<open>The legal records: the flag is one of the three values, and a rate is recorded only with it.\<close>

definition record_ok :: "reset_pacing \<Rightarrow> bool" where
  "record_ok r \<longleftrightarrow> rp_set r \<in> {0, REGULAR_PACING_FLAG_SET, NOPACING_FLAG_SET}"

lemma pacing_set_attached [simp]:
  "pacing_set True p = (rp_set (shm p) \<noteq> 0, p\<lparr>sResetPacingBack := shm p\<rparr>)"
  by (simp add: pacing_set_def shm_read_def)

lemma shm_read_attached [simp]: "shm_read True p = (True, p\<lparr>sResetPacingBack := shm p\<rparr>)"
  by (simp add: shm_read_def)

lemma record_pacing_attached [simp]:
  "record_pacing True flag v p = p\<lparr>sResetPacingBack := \<lparr>rp_set = flag, current_pacing = v\<rparr>,
     shm := \<lparr>rp_set = flag, current_pacing = v\<rparr>\<rparr>"
  by (simp add: record_pacing_def shm_write_def)

lemma consistent_simps [simp]:
  "consistent (p\<lparr>sResetPacingBack := r\<rparr>) = consistent p"
  "consistent (suggest_cmds cs p) = consistent p"
  "cs \<noteq> [] \<Longrightarrow> consistent (run_cmds cs p) = describes (last cs) (shm p)"
  by (simp_all add: consistent_def suggest_cmds_def run_cmds_def last_append)

lemma run_cmds_fields [simp]:
  "sResetPacingBack (run_cmds cs p) = sResetPacingBack p" "shm (run_cmds cs p) = shm p"
  "sResetPacingBack (suggest_cmds cs p) = sResetPacingBack p" "shm (suggest_cmds cs p) = shm p"
  "trace (run_cmds cs p) = trace p @ map System cs"
  by (simp_all add: run_cmds_def suggest_cmds_def)

lemma consistent_record:
  assumes "cs \<noteq> []" "describes (last cs) \<lparr>rp_set = flag, current_pacing = v\<rparr>"
  shows "consistent (record_pacing True flag v (run_cmds cs p))"
  using assms by (simp add: consistent_def last_append)

lemma consistent_record':
  assumes "cs \<noteq> []" "describes (last cs) \<lparr>rp_set = flag, current_pacing = v\<rparr>"
  shows "consistent (run_cmds cs (record_pacing True flag v p))"
  using assms by simp

section \<open>Runs\<close>

datatype pace_event =
    Congestion pace_env u32 u32 "sDest_Dtn_IPs list"
  | Congestion_Htb pace_env u32 u32 "sDest_Dtn_IPs list"
  | Reset_Request pace_env u32 "sDest_Dtn_IPs list"
  | Reset_Request_Del pace_env u32 "sDest_Dtn_IPs list"
  | Cleanup_Request pace_env
  | Cleanup_Request_Old pace_env
  | Link_Idle pace_env
  | Kafka_Message pace_env int u64

fun pace_step :: "pace_event \<Rightarrow> pacer \<times> timers \<Rightarrow> pacer \<times> timers" where
  "pace_step (Congestion env h a tab) (p, t) = (fDoQinfoAssessment2 env h a tab p, t)"
| "pace_step (Congestion_Htb env h a tab) (p, t) = (fDoQinfoAssessment env h a tab p, t)"
| "pace_step (Reset_Request env a tab) (p, t) = (fDoResetPacing2 env a tab p, t)"
| "pace_step (Reset_Request_Del env a tab) (p, t) = (fDoResetPacing env a tab p, t)"
| "pace_step (Cleanup_Request env) (p, t) = (fDoCleanupResetPacing2 env p, t)"
| "pace_step (Cleanup_Request_Old env) (p, t) = (fDoCleanupResetPacing env p, t)"
| "pace_step (Link_Idle env) (p, t) = (idle_reset_pacing env p, t)"
| "pace_step (Kafka_Message env ret bw) (p, t) = fDoQinfoAssessmentKafka env ret bw (p, t)"

fun event_env :: "pace_event \<Rightarrow> pace_env" where
  "event_env (Congestion env h a tab) = env"
| "event_env (Congestion_Htb env h a tab) = env"
| "event_env (Reset_Request env a tab) = env"
| "event_env (Reset_Request_Del env a tab) = env"
| "event_env (Cleanup_Request env) = env"
| "event_env (Cleanup_Request_Old env) = env"
| "event_env (Link_Idle env) = env"
| "event_env (Kafka_Message env ret bw) = env"

fun pace_run :: "pace_event list \<Rightarrow> pacer \<times> timers \<Rightarrow> pacer \<times> timers" where
  "pace_run [] s = s"
| "pace_run (e # es) s = pace_run es (pace_step e s)"

text \<open>The requests without a hop delay: those decided on the retransmission rate.\<close>

fun on_retransmission :: "pace_event \<Rightarrow> bool" where
  "on_retransmission (Congestion env h a tab) = (h = 0)"
| "on_retransmission e = False"

lemmas pace_ops = fDoCleanupResetPacing2_def fDoCleanupResetPacing_def fDoResetPacing2_def
  fDoResetPacing_def idle_reset_pacing_def

lemma attached: "\<forall>i. pe_attach env i \<Longrightarrow> pe_attach env j = True"
  by simp

lemma resets_consistent:
  assumes "\<forall>i. pe_attach env i" "consistent p"
  shows "consistent (fDoCleanupResetPacing2 env p)" "consistent (fDoCleanupResetPacing env p)"
    "consistent (fDoResetPacing2 env a tab p)" "consistent (fDoResetPacing env a tab p)"
    "consistent (idle_reset_pacing env p)"
  using assms by (simp_all add: pace_ops split: bool.splits)

lemma congestion_hop_consistent:
  assumes at: "\<forall>i. pe_attach env i" and c: "consistent p" and h: "hop_delay \<noteq> 0"
  shows "consistent (fDoQinfoAssessment2 env hop_delay a tab p)"
proof -
  have "consistent (apply_hop_delay env (choose_pacing2 (rp_set (shm p) \<noteq> 0) (rp_set (shm p)) v)
      (p\<lparr>sResetPacingBack := shm p\<rparr>))" for v
    using at c
    by (simp add: apply_hop_delay_def choose_pacing2_def Let_def consistent_record del: record_pacing_attached)
  then show ?thesis
    using at c h by (simp add: fDoQinfoAssessment2_def Let_def)
qed

lemma congestion_htb_consistent:
  assumes at: "\<forall>i. pe_attach env i" and c: "consistent p"
  shows "consistent (fDoQinfoAssessment env hop_delay a tab p)"
proof -
  have l: "choose_pacing1 env is_set v \<noteq> []"
    "describes (last (choose_pacing1 env is_set v)) \<lparr>rp_set = 1, current_pacing = v\<rparr>" for is_set v
    by (simp_all add: choose_pacing1_def REGULAR_PACING_FLAG_SET_def)
  show ?thesis
    using at c consistent_record [OF l]
    by (simp add: fDoQinfoAssessment_def Let_def del: record_pacing_attached split: option.splits)
qed

lemma kafka_consistent:
  assumes at: "\<forall>i. pe_attach env i" and c: "consistent p"
  shows "consistent (fst (fDoQinfoAssessmentKafka env ret bw (p, t)))"
proof -
  have r: "consistent q \<Longrightarrow> consistent (fst (kafka_remove env ret (q, t)))" for q
    using at by (simp add: kafka_remove_def Let_def)
  have a: "consistent q \<Longrightarrow> consistent (fst (kafka_adjust env ret s v (q, t)))" for q s v
    using at by (simp add: kafka_adjust_def Let_def consistent_record del: record_pacing_attached)
  show ?thesis
    using at c r a by (simp add: fDoQinfoAssessmentKafka_def Let_def)
qed

lemma pace_step_consistent:
  assumes "\<forall>i. pe_attach (event_env e) i" "\<not> on_retransmission e" "consistent (fst s)"
  shows "consistent (fst (pace_step e s))"
proof -
  obtain p t where s: "s = (p, t)" by (cases s)
  show ?thesis
    using assms resets_consistent congestion_hop_consistent congestion_htb_consistent kafka_consistent
    by (cases e) (simp_all add: s)
qed

lemma pace_run_consistent:
  "\<forall>e \<in> set es. (\<forall>i. pe_attach (event_env e) i) \<and> \<not> on_retransmission e \<Longrightarrow> consistent (fst s) \<Longrightarrow>
   consistent (fst (pace_run es s))"
proof (induction es arbitrary: s)
  case (Cons e es)
  have "consistent (fst (pace_step e s))"
    by (rule pace_step_consistent) (use Cons.prems in auto)
  then show ?case using Cons.IH Cons.prems(1) by simp
qed simp

section \<open>Learning mode\<close>

definition same_effect :: "pacer \<Rightarrow> pacer \<Rightarrow> bool" where
  "same_effect p q \<longleftrightarrow> system_cmds (trace p) = system_cmds (trace q) \<and> shm p = shm q"

lemma same_effect_simps [simp]:
  "same_effect p p" "same_effect (p\<lparr>sResetPacingBack := r\<rparr>) q = same_effect p q"
  "same_effect (suggest_cmds cs p) q = same_effect p q"
  by (simp_all add: same_effect_def suggest_cmds_def)

lemma same_effect_trans: "same_effect p q \<Longrightarrow> same_effect q r \<Longrightarrow> same_effect p r"
  by (simp add: same_effect_def)

lemma same_effect_pacing_set:
  "pacing_set b p = (c, p1) \<Longrightarrow> same_effect p1 p" "same_effect (snd (shm_read b p)) p"
  by (auto simp: pacing_set_def shm_read_def split: if_splits)

lemma same_effect_read:
  "pacing_set b p = (c, p1) \<Longrightarrow> same_effect (snd (shm_read b' p1)) p"
  using same_effect_pacing_set same_effect_trans by blast

lemma learning_step:
  assumes "\<not> gTuningMode (event_env e)"
  shows "same_effect (fst (pace_step e s)) (fst s)"
proof -
  obtain p t where s: "s = (p, t)" by (cases s)
  show ?thesis
  proof (cases e)
    case (Congestion env h a tab)
    then show ?thesis
      using assms same_effect_pacing_set(1) [of "pe_attach env 0" p]
      by (auto simp: s fDoQinfoAssessment2_def Let_def apply_hop_delay_def apply_retransmission_def
          split: prod.splits pace_plan.splits)
  next
    case (Congestion_Htb env h a tab)
    then show ?thesis
      using assms same_effect_pacing_set(1) [of "pe_attach env 0" p]
      by (auto simp: s fDoQinfoAssessment_def Let_def split: prod.splits option.splits)
  next
    case (Kafka_Message env ret bw)
    then show ?thesis
      using assms same_effect_pacing_set(1) [of "pe_attach env 0" p]
      by (auto simp: s fDoQinfoAssessmentKafka_def Let_def kafka_adjust_def split: prod.splits)
  qed (use assms same_effect_pacing_set same_effect_read in
      \<open>auto simp: s pace_ops split: prod.splits bool.splits\<close>)
qed

lemma learning_run:
  "\<forall>e \<in> set es. \<not> gTuningMode (event_env e) \<Longrightarrow> same_effect (fst (pace_run es s)) (fst s)"
proof (induction es arbitrary: s)
  case (Cons e es)
  then have "same_effect (fst (pace_run es (pace_step e s))) (fst (pace_step e s))" by simp
  moreover have "same_effect (fst (pace_step e s)) (fst s)" using Cons.prems by (simp add: learning_step)
  ultimately show ?case using same_effect_trans by simp
qed simp

section \<open>Properties\<close>


definition tuning_env :: pace_env where
  "tuning_env = \<lparr>netDeviceSpeed = 40000, vDebugLevel = 1, gTuningMode = True,
     vGlobal_average_tx_Gbits_per_sec = 20, vGlobalRetransmissionRate = dlit (3 / 1000),
     vRetransmissionRateThreshold = dlit (2 / 1000), vMaxPacingRate = dlit (9 / 10),
     pe_can_evaluate = True, pe_attach = (\<lambda>i. True)\<rparr>"

definition one_dest :: "sDest_Dtn_IPs list" where
  "one_dest = [zero_dest_ip\<lparr>dip_addr := 77\<rparr>]"

lemma new_pacing_example: "new_pacing2 tuning_env = 18"
proof -
  have "dmul 20 (dlit (9 / 10)) = 18" by code_simp
  then show ?thesis by (simp add: new_pacing2_def tuning_env_def Let_def)
qed


text \<open>Where the record lies.  A congestion message decided on the retransmission rate that finds
  pacing on and a new rate at the NIC's speed switches pacing off but records it as \<open>REGULAR\<close> at
  40 Gb/s; the reset request that follows switches it off a second time.\<close>

theorem retransmission_record_wrong:
  assumes "\<forall>i. pe_attach env i" "gTuningMode env" "find_dest a tab"
    and "vGlobal_average_tx_Gbits_per_sec env \<noteq> 0" "new_pacing2 env = 40"
    and "vRetransmissionRateThreshold env < vGlobalRetransmissionRate env"
    and "rp_set (shm p) = REGULAR_PACING_FLAG_SET"
  shows "let p' = fDoQinfoAssessment2 env 0 a tab p in
      system_cmds (trace p') = system_cmds (trace p) @ [Tc_Change_Nopacing]
      \<and> shm p' = \<lparr>rp_set = REGULAR_PACING_FLAG_SET, current_pacing = 40\<rparr>
      \<and> \<not> describes Tc_Change_Nopacing (shm p')
      \<and> system_cmds (trace (fDoResetPacing2 env a tab p')) =
          system_cmds (trace p') @ [Tc_Change_Nopacing]"
  using assms
  by (simp add: fDoQinfoAssessment2_def Let_def apply_retransmission_def choose_pacing2_def
      REGULAR_PACING_FLAG_SET_def NOPACING_FLAG_SET_def fDoResetPacing2_def)

definition fast_env :: pace_env where
  "fast_env = tuning_env\<lparr>vGlobal_average_tx_Gbits_per_sec := 39, vMaxPacingRate := 1\<rparr>"

theorem retransmission_record_wrong_witness:
  "shm (fDoQinfoAssessment2 fast_env 0 77 one_dest
      (no_pacing\<lparr>shm := \<lparr>rp_set = REGULAR_PACING_FLAG_SET, current_pacing = 18\<rparr>\<rparr>))
     = \<lparr>rp_set = REGULAR_PACING_FLAG_SET, current_pacing = 40\<rparr>"
proof -
  have n: "new_pacing2 fast_env = 40"
    by (simp add: new_pacing2_def fast_env_def tuning_env_def Let_def dmul_def rnd_numeral)
  have r: "vRetransmissionRateThreshold fast_env < vGlobalRetransmissionRate fast_env"
    by (simp add: fast_env_def tuning_env_def) code_simp
  have o: "\<forall>i. pe_attach fast_env i" "gTuningMode fast_env" "find_dest 77 one_dest"
    "vGlobal_average_tx_Gbits_per_sec fast_env \<noteq> 0"
    by (simp_all add: fast_env_def tuning_env_def one_dest_def)
  show ?thesis
    using retransmission_record_wrong [OF o n r,
        of "no_pacing\<lparr>shm := \<lparr>rp_set = REGULAR_PACING_FLAG_SET, current_pacing = 18\<rparr>\<rparr>"]
    by (simp add: Let_def)
qed

text \<open>Learning mode only advises.  While learning, no sequence of messages, idle links and Kafka
  payloads runs a command or changes the shared record.\<close>

theorem learning_mode_inert:
  assumes "\<forall>e \<in> set es. \<not> gTuningMode (event_env e)"
  shows "system_cmds (trace (fst (pace_run es s))) = system_cmds (trace (fst s))
    \<and> shm (fst (pace_run es s)) = shm (fst s)"
  using learning_run [OF assms, of s] by (simp add: same_effect_def)

fun rate_of :: "tc_cmd \<Rightarrow> double option" where
  "rate_of (Tc_Change_Maxrate r) = Some r"
| "rate_of (Tc_Add_Maxrate r) = Some r"
| "rate_of (Tc_Class_Add_Root r) = Some r"
| "rate_of (Tc_Class_Add r) = Some r"
| "rate_of (Tc_Class_Change r) = Some r"
| "rate_of c = None"

text \<open>C13: The rates asked for are bounded.  Every rate the assessment of a congestion message sets is
  at least 2 and at most 34 Gb/s, whatever the measured bit rate and the configured percentage.\<close>

theorem congestion_rates_bounded:
  shows "\<exists>cs. system_cmds (trace (fDoQinfoAssessment2 env hop_delay a tab p)) = system_cmds (trace p) @ cs
    \<and> length cs \<le> 1
    \<and> list_all (\<lambda>c. case rate_of c of None \<Rightarrow> c = Tc_Change_Nopacing | Some r \<Rightarrow> 2 \<le> r \<and> r \<le> 34) cs"
proof -
  let ?v = "new_pacing2 env"
  let ?ok = "\<lambda>cs. length cs \<le> 1 \<and>
    list_all (\<lambda>c. case rate_of c of None \<Rightarrow> c = Tc_Change_Nopacing | Some r \<Rightarrow> 2 \<le> r \<and> r \<le> 34) cs"
  have v: "2 \<le> ?v" "?v \<noteq> 40 \<Longrightarrow> ?v \<le> 34"
    by (auto simp: new_pacing2_def Let_def)
  have plan: "choose_pacing2 s f ?v = Do_Pacing cs fl w \<Longrightarrow> ?ok cs" for s f cs fl w
    using v by (auto simp: choose_pacing2_def Let_def split: if_splits)
  have read: "system_cmds (trace (snd (pacing_set b p))) = system_cmds (trace p)" for b
    by (simp add: pacing_set_def shm_read_def)
  have hop: "\<exists>cs. system_cmds (trace (apply_hop_delay env (choose_pacing2 s f ?v) q)) =
      system_cmds (trace q) @ cs \<and> ?ok cs" for s f q
    using plan [of s f]
    by (cases "choose_pacing2 s f ?v")
      (auto simp: apply_hop_delay_def record_pacing_def shm_write_def suggest_cmds_def intro: exI [of _ "[]"])
  have retr: "\<exists>cs. system_cmds (trace (apply_retransmission env (choose_pacing2 s f ?v) q)) =
      system_cmds (trace q) @ cs \<and> ?ok cs" for s f q
    using plan [of s f]
    by (cases "choose_pacing2 s f ?v")
      (auto simp: apply_retransmission_def record_pacing_def shm_write_def suggest_cmds_def intro: exI [of _ "[]"])
  obtain s q where q: "pacing_set (pe_attach env 0) p = (s, q)" by fastforce
  with read [of "pe_attach env 0"] have "system_cmds (trace q) = system_cmds (trace p)" by simp
  then show ?thesis
    using hop [of s "rp_set (sResetPacingBack q)" q] retr [of s "rp_set (sResetPacingBack q)" q] q
    by (auto simp: fDoQinfoAssessment2_def Let_def intro: exI [of _ "[]"])
qed

end
