(* ===== verification/Socket_IO.thy ===== *)
theory Socket_IO
  imports Peer_Queue
begin

text \<open>
  Messages over a stream socket: \<open>writen\<close> and \<open>Writen\<close> of \<open>src/userspace/wrapsomeunix.c\<close>, \<open>readn\<close>,
  \<open>Readn\<close>, \<open>readn2\<close> and \<open>read_sock\<close> of \<open>src/userspace/user_dtn.c\<close>, the loop with which
  \<open>process_request\<close> and \<open>doProcessHpnClientReq\<close> read, and the bytes of a \<open>struct PeerMsg\<close>.

  What the system calls return comes as a list: for \<open>read\<close> the segments that arrive, interruptions
  (\<open>EINTR\<close>), errors and the end of the stream; for \<open>write\<close> the number of bytes taken.  A call that
  needs more than the list holds still blocks (\<open>None\<close>).
\<close>

section \<open>Writing\<close>

datatype sys_write = Wrote nat | Write_Intr | Write_Fail

text \<open>Whether all was written, and what was.  The kernel takes at most what it is given.\<close>

fun writen :: "byte list \<Rightarrow> sys_write list \<Rightarrow> (bool \<times> byte list) option" where
  "writen bs [] = (if bs = [] then Some (True, []) else None)"
| "writen bs (w # ws) =
    (if bs = [] then Some (True, [])
     else case w of
       Wrote k \<Rightarrow>
         if k = 0 then Some (False, [])
         else (case writen (drop k bs) ws of None \<Rightarrow> None
               | Some (ok, out) \<Rightarrow> Some (ok, take k bs @ out))
     | Write_Intr \<Rightarrow> writen bs ws
     | Write_Fail \<Rightarrow> Some (False, []))"

definition Writen :: "byte list \<Rightarrow> sys_write list \<Rightarrow> bool \<Rightarrow> (int \<times> byte list) option" where
  "Writen bs ws epipe = (case writen bs ws of None \<Rightarrow> None
     | Some (ok, out) \<Rightarrow> Some (if \<not> ok \<and> epipe then 1 else 0, out))"

section \<open>Reading\<close>

datatype sys_read = Data byte "byte list" | Read_Eof | Read_Intr | Read_Fail

text \<open>The segment a read leaves behind, and the loop of \<open>readn\<close>: whether it ended without error, the
  bytes put in the buffer, and what is left.  The end of the stream stays: later reads see it too.\<close>

fun push_back :: "byte list \<Rightarrow> sys_read list \<Rightarrow> sys_read list" where
  "push_back [] evs = evs"
| "push_back (b # bs) evs = Data b bs # evs"

fun readn_loop :: "nat \<Rightarrow> byte list \<Rightarrow> sys_read list \<Rightarrow> (bool \<times> byte list \<times> sys_read list) option" where
  "readn_loop nleft got [] = (if nleft = 0 then Some (True, got, []) else None)"
| "readn_loop nleft got (e # evs) =
    (if nleft = 0 then Some (True, got, e # evs)
     else case e of
       Data b bs \<Rightarrow>
         if length (b # bs) \<le> nleft then readn_loop (nleft - length (b # bs)) (got @ b # bs) evs
         else Some (True, got @ take nleft (b # bs), push_back (drop nleft (b # bs)) evs)
     | Read_Eof \<Rightarrow> Some (True, got, e # evs)
     | Read_Intr \<Rightarrow> readn_loop nleft got evs
     | Read_Fail \<Rightarrow> Some (False, got, evs))"

text \<open>\<open>readn\<close> with the buffer it fills from the front; the result is the count or -1.\<close>

definition readn :: "nat \<Rightarrow> byte list \<Rightarrow> sys_read list \<Rightarrow> (int \<times> byte list \<times> sys_read list) option" where
  "readn n buf evs = (case readn_loop n [] evs of None \<Rightarrow> None
     | Some (ok, got, evs') \<Rightarrow>
         Some (if ok then int (length got) else -1, got @ drop (length got) buf, evs'))"

text \<open>\<open>Readn\<close> only prints a message on an error (\<open>err_sys\<close> does not exit) and returns it.\<close>

definition Readn :: "nat \<Rightarrow> byte list \<Rightarrow> sys_read list \<Rightarrow> (int \<times> byte list \<times> sys_read list) option" where
  "Readn n buf evs = readn n buf evs"

text \<open>\<open>readn2\<close> peeks at most six times for the close of the other end: \<open>y i\<close> is what the \<open>i\<close>-th \<open>recv\<close>
  returns.  \<open>read_sock\<close> ignores which of the two it was.\<close>

fun readn2 :: "nat \<Rightarrow> (nat \<Rightarrow> int) \<Rightarrow> int" where
  "readn2 0 y = (if y 0 = 0 then 0 else -1)"
| "readn2 (Suc tries) y = (if y 0 = 0 then 0 else readn2 tries (\<lambda>i. y (Suc i)))"

definition read_sock :: "(nat \<Rightarrow> int) \<Rightarrow> unit" where
  "read_sock y = (let n = readn2 5 y in ())"

section \<open>The loop of a connection's server\<close>

fun event_weight :: "sys_read \<Rightarrow> nat" where
  "event_weight (Data b bs) = Suc (length bs)"
| "event_weight _ = 1"

definition weight :: "sys_read list \<Rightarrow> nat" where
  "weight evs = sum_list (map event_weight evs)"

lemma weight_simps [simp]:
  "weight [] = 0" "weight (e # evs) = event_weight e + weight evs"
  by (simp_all add: weight_def)

lemma weight_push_back [simp]: "weight (push_back bs evs) = length bs + weight evs"
  by (cases bs) simp_all

lemma readn_loop_weight:
  "readn_loop nleft got evs = Some (ok, got', evs') \<Longrightarrow>
     weight evs' \<le> weight evs \<and> (\<not> ok \<or> length got < length got' \<longrightarrow> weight evs' < weight evs)"
proof (induction evs arbitrary: nleft got)
  case Nil
  then show ?case by (auto split: if_splits)
next
  case (Cons e evs)
  show ?case
  proof (cases e)
    case (Data b bs)
    show ?thesis
    proof (cases "nleft = 0 \<or> nleft < length (b # bs)")
      case True
      then show ?thesis using Cons.prems Data by (auto split: if_splits)
    next
      case False
      then have "readn_loop (nleft - length (b # bs)) (got @ b # bs) evs = Some (ok, got', evs')"
        using Cons.prems Data by (auto split: if_splits)
      from Cons.IH [OF this] Data show ?thesis by auto
    qed
  next
    case Read_Intr
    show ?thesis
    proof (cases "nleft = 0")
      case True
      then show ?thesis using Cons.prems by auto
    next
      case False
      then have "readn_loop nleft got evs = Some (ok, got', evs')"
        using Cons.prems Read_Intr by simp
      from Cons.IH [OF this] Read_Intr show ?thesis by auto
    qed
  qed (use Cons.prems in \<open>auto split: if_splits\<close>)
qed

lemma readn_weight:
  "readn n buf evs = Some (r, buf', evs') \<Longrightarrow> r \<noteq> 0 \<Longrightarrow> weight evs' < weight evs"
  by (auto simp: readn_def split: option.splits if_splits dest!: readn_loop_weight)

text \<open>The buffers handed to the handler, one per turn, and whether the loop ended with the close of
  the other end (it still waits otherwise).  Only a result of 0 ends it.\<close>

function serve :: "nat \<Rightarrow> byte list \<Rightarrow> sys_read list \<Rightarrow> byte list list \<times> bool" where
  "serve n buf evs =
    (case Readn n buf evs of None \<Rightarrow> ([], False)
     | Some (r, buf', evs') \<Rightarrow>
         if r = 0 then ([], True)
         else (case serve n buf' evs' of (bufs, closed) \<Rightarrow> (buf' # bufs, closed)))"
  by pat_completeness auto
termination
  by (relation "measure (\<lambda>(n, buf, evs). weight evs)") (auto simp: Readn_def dest: readn_weight)

declare serve.simps [simp del]

section \<open>The bytes of a message\<close>

text \<open>\<open>struct PeerMsg\<close> on a 64-bit host: the strings start at 26 and 74, four bytes of padding and the
  three pointers follow \<open>vHopDelay\<close>.  Their bytes mean nothing to the other side.\<close>

definition sizeof_PeerMsg :: nat where "sizeof_PeerMsg = 184"

definition encode_msg :: "byte list \<Rightarrow> PeerMsg \<Rightarrow> byte list" where
  "encode_msg junk m = store32 (msg_no m) @ store32 (seq_no m) @ store32 (msg_value m)
     @ store32 (hop_latency m) @ store32 (queue_occupancy m) @ store32 (switch_id m)
     @ store16 (vlan_id m) @ store_str 48 (timestamp m) @ store_str 70 (msg_text m)
     @ store32 (src_ip_addr m) @ store32 (dst_ip_addr m) @ store32 (vHopDelay m) @ junk"

definition decode_msg :: "byte list \<Rightarrow> PeerMsg" where
  "decode_msg bs = \<lparr>msg_no = load32 bs 0, seq_no = load32 bs 4, msg_value = load32 bs 8,
     hop_latency = load32 bs 12, queue_occupancy = load32 bs 16, switch_id = load32 bs 20,
     vlan_id = load16 bs 24, timestamp = load_str (take 48 (drop 26 bs)),
     msg_text = load_str (take 70 (drop 74 bs)), src_ip_addr = load32 bs 144,
     dst_ip_addr = load32 bs 148, vHopDelay = load32 bs 152, pts = None, ptimes = None, pm = None\<rparr>"

section \<open>Lemmas\<close>

text \<open>Streams without error or end, and the bytes they carry.\<close>

fun bytes_of :: "sys_read list \<Rightarrow> byte list" where
  "bytes_of [] = []"
| "bytes_of (Data b bs # evs) = (b # bs) @ bytes_of evs"
| "bytes_of (_ # evs) = bytes_of evs"

fun clean :: "sys_read list \<Rightarrow> bool" where
  "clean [] = True"
| "clean (Data b bs # evs) = clean evs"
| "clean (Read_Intr # evs) = clean evs"
| "clean (_ # evs) = False"

lemma clean_push_back [simp]:
  "clean (push_back bs evs) = clean evs" "bytes_of (push_back bs evs) = bs @ bytes_of evs"
  "push_back bs (evs @ tail) = push_back bs evs @ tail"
  by (cases bs; simp)+

lemma readn_loop_full:
  "clean evs \<Longrightarrow> nleft \<le> length (bytes_of evs) \<Longrightarrow>
   \<exists>evs'. readn_loop nleft got (evs @ tail) = Some (True, got @ take nleft (bytes_of evs), evs' @ tail)
     \<and> clean evs' \<and> bytes_of evs' = drop nleft (bytes_of evs)"
proof (induction evs arbitrary: nleft got rule: clean.induct)
  case 1
  then show ?case by (cases tail) (auto intro: exI [of _ "[]"])
next
  case (2 b bs evs)
  show ?case
  proof (cases "nleft = 0")
    case True
    with "2.prems" show ?thesis by (auto intro: exI [of _ "Data b bs # evs"])
  next
    case nz: False
    show ?thesis
    proof (cases "length (b # bs) \<le> nleft")
      case True
      then have "nleft - length (b # bs) \<le> length (bytes_of evs)" using "2.prems"(2) by simp
      moreover have "take nleft (b # bs @ bytes_of evs) = b # bs @ take (nleft - length (b # bs)) (bytes_of evs)"
        "drop nleft (b # bs @ bytes_of evs) = drop (nleft - length (b # bs)) (bytes_of evs)"
        using take_append [of nleft "b # bs"] drop_append [of nleft "b # bs"] True by simp_all
      ultimately show ?thesis
        using "2.IH" [of "nleft - length (b # bs)" "got @ b # bs"] "2.prems"(1) True nz by auto
    next
      case False
      moreover have "take nleft (b # bs @ bytes_of evs) = take nleft (b # bs)"
        "drop nleft (b # bs @ bytes_of evs) = drop nleft (b # bs) @ bytes_of evs"
        using take_append [of nleft "b # bs"] drop_append [of nleft "b # bs"] False by simp_all
      ultimately show ?thesis
        using nz "2.prems" by (auto intro!: exI [of _ "push_back (drop nleft (b # bs)) evs"])
    qed
  qed
next
  case (3 evs)
  show ?case
  proof (cases "nleft = 0")
    case True
    with "3.prems" show ?thesis by (auto intro: exI [of _ "Read_Intr # evs"])
  next
    case False
    from "3.IH" [of nleft got] "3.prems" False show ?thesis by auto
  qed
qed simp_all

lemma readn_loop_short:
  "clean evs \<Longrightarrow> length (bytes_of evs) < nleft \<Longrightarrow>
   readn_loop nleft got (evs @ Read_Eof # tail) = Some (True, got @ bytes_of evs, Read_Eof # tail)
   \<and> readn_loop nleft got (evs @ Read_Fail # tail) = Some (False, got @ bytes_of evs, tail)"
proof (induction evs arbitrary: nleft got rule: clean.induct)
  case (2 b bs evs)
  then have "length (bytes_of evs) < nleft - length (b # bs)" by simp
  from "2.IH" [OF _ this, of "got @ b # bs"] "2.prems" show ?case by auto
qed auto

lemma serve_eof: "0 < n \<Longrightarrow> serve n buf (Read_Eof # tail) = ([], True)"
  by (subst serve.simps) (simp add: Readn_def readn_def)

lemma serve_fail: "0 < n \<Longrightarrow> serve n buf (Read_Fail # tail) = (case serve n buf tail of (bufs, c) \<Rightarrow> (buf # bufs, c))"
  by (subst serve.simps) (simp add: Readn_def readn_def)

lemma serve_fails:
  "0 < n \<Longrightarrow> serve n buf (replicate k Read_Fail @ [Read_Eof]) = (replicate k buf, True)"
  by (induction k) (simp_all add: serve_eof serve_fail)

text \<open>Whole messages are handed on one by one, and what follows them is served in the buffer the last
  one left.\<close>

lemma serve_frames:
  "0 < n \<Longrightarrow> clean evs \<Longrightarrow> bytes_of evs = concat ms @ p \<Longrightarrow> \<forall>m \<in> set ms. length m = n \<Longrightarrow>
   length buf = n \<Longrightarrow>
   \<exists>evs'. clean evs' \<and> bytes_of evs' = p
     \<and> serve n buf (evs @ tail) =
        (case serve n (last (buf # ms)) (evs' @ tail) of (bufs, c) \<Rightarrow> (ms @ bufs, c))"
proof (induction ms arbitrary: evs buf)
  case Nil
  then show ?case by (auto intro!: exI [of _ evs] split: prod.splits)
next
  case (Cons m ms)
  have l: "length m = n" using Cons.prems(4) by simp
  then have "n \<le> length (bytes_of evs)" using Cons.prems(3) by simp
  from readn_loop_full [OF Cons.prems(2) this, of "[]" tail] obtain evs' where
    e: "readn_loop n [] (evs @ tail) = Some (True, m, evs' @ tail)" "clean evs'"
      "bytes_of evs' = concat ms @ p"
    using Cons.prems(3) l by auto
  have r: "Readn n buf (evs @ tail) = Some (int n, m, evs' @ tail)"
    using e(1) l Cons.prems(5) by (simp add: Readn_def readn_def)
  have "\<forall>m \<in> set ms. length m = n" using Cons.prems(4) by simp
  from Cons.IH [OF Cons.prems(1) e(2,3) this l] obtain evs'' where
    i: "clean evs''" "bytes_of evs'' = p" "serve n m (evs' @ tail) =
        (case serve n (last (m # ms)) (evs'' @ tail) of (bufs, c) \<Rightarrow> (ms @ bufs, c))"
    by blast
  have "serve n buf (evs @ tail) = (case serve n m (evs' @ tail) of (bufs, c) \<Rightarrow> (m # bufs, c))"
    using Cons.prems(1) by (subst serve.simps) (simp add: r)
  with i show ?case by (auto intro!: exI [of _ evs''] split: prod.splits)
qed

lemma serve_clean:
  assumes "0 < n" "\<forall>m \<in> set ms. length m = n" "length buf = n" "clean evs" "bytes_of evs = concat ms"
  shows "serve n buf (evs @ [Read_Eof]) = (ms, True)"
proof -
  have "bytes_of evs = concat ms @ []" using assms(5) by simp
  from serve_frames [OF assms(1,4) this assms(2,3), of "[Read_Eof]"] obtain evs' where
    e: "clean evs'" "bytes_of evs' = []" "serve n buf (evs @ [Read_Eof]) =
      (case serve n (last (buf # ms)) (evs' @ [Read_Eof]) of (bufs, c) \<Rightarrow> (ms @ bufs, c))"
    by blast
  have "serve n b (evs' @ [Read_Eof]) = ([], True)" for b
    using readn_loop_short [OF e(1), of n "[]" "[]"] assms(1) e(2)
    by (subst serve.simps) (simp add: Readn_def readn_def)
  with e(3) show ?thesis by simp
qed

lemma decode_encode_fields [simp]:
  "msg_no (decode_msg (encode_msg junk m)) = msg_no m"
  "msg_value (decode_msg (encode_msg junk m)) = msg_value m"
  "vHopDelay (decode_msg (encode_msg junk m)) = vHopDelay m"
  "src_ip_addr (decode_msg (encode_msg junk m)) = src_ip_addr m"
  "dst_ip_addr (decode_msg (encode_msg junk m)) = dst_ip_addr m"
  by (simp_all add: decode_msg_def encode_msg_def load32_skip)

lemma length_encode_msg: "length junk = 28 \<Longrightarrow> length (encode_msg junk m) = sizeof_PeerMsg"
  by (simp add: encode_msg_def sizeof_PeerMsg_def)

lemma writen_prefix: "writen bs ws = Some (ok, out) \<Longrightarrow> \<exists>rest. bs = out @ rest \<and> (ok \<longrightarrow> rest = [])"
proof (induction bs ws arbitrary: out rule: writen.induct)
  case (2 bs w ws)
  show ?case
  proof (cases w)
    case (Wrote k)
    show ?thesis
    proof (cases "bs = [] \<or> k = 0")
      case True
      with 2 Wrote show ?thesis by (auto split: if_splits)
    next
      case False
      with "2.prems" Wrote obtain o1 where o: "writen (drop k bs) ws = Some (ok, o1)" "out = take k bs @ o1"
        by (auto split: option.splits)
      from "2.IH"(1) [OF _ Wrote _ o(1)] False obtain rest where
        "drop k bs = o1 @ rest" "ok \<longrightarrow> rest = []" by auto
      with o(2) show ?thesis by (metis append.assoc append_take_drop_id)
    qed
  next
    case Write_Intr
    show ?thesis
    proof (cases "bs = []")
      case True
      with 2 Write_Intr show ?thesis by simp
    next
      case False
      from "2.IH"(2) [OF False Write_Intr] "2.prems" False Write_Intr show ?thesis by simp
    qed
  next
    case Write_Fail
    with 2 show ?thesis by (auto split: if_splits)
  qed
qed (simp split: if_splits)

section \<open>Properties\<close>

text \<open>Messages written one after the other; \<open>None\<close> unless each was written whole.\<close>

fun write_stream :: "(byte list \<times> sys_write list) list \<Rightarrow> byte list option" where
  "write_stream [] = Some []"
| "write_stream ((m, ws) # jobs) =
    (case (writen m ws, write_stream jobs) of
       (Some (True, out), Some rest) \<Rightarrow> Some (out @ rest) | _ \<Rightarrow> None)"

lemma write_stream_concat: "write_stream jobs = Some bs \<Longrightarrow> bs = concat (map fst jobs)"
  by (induction jobs arbitrary: bs rule: write_stream.induct)
    (auto split: option.splits bool.splits prod.splits dest!: writen_prefix)

text \<open>C40: Messages keep their bounds on the stream.  Messages of one size written with \<open>writen\<close>, whatever
  pieces the kernel takes, and arriving in whatever pieces with interruptions anywhere, are handed
  to the reading side's handler one by one, complete and in order, and its loop ends when the
  writer closes.\<close>

theorem stream_frames:
  assumes "0 < n" "\<forall>m \<in> set (map fst jobs). length m = n" "length buf = n"
    and "write_stream jobs = Some bs" "clean evs" "bytes_of evs = bs"
  shows "serve n buf (evs @ [Read_Eof]) = (map fst jobs, True)"
  using serve_clean [OF assms(1-3,5)] write_stream_concat [OF assms(4)] assms(6) by simp

theorem stream_frames_witness:
  "serve 2 [0, 0] ([Data 1 [2, 3], Read_Intr, Data 4 []] @ [Read_Eof]) = ([[1, 2], [3, 4]], True)"
  using stream_frames [of 2 "[([1, 2], [Wrote 1, Write_Intr, Wrote 1]), ([3, 4], [Wrote 9])]" "[0, 0]"
      "[1, 2, 3, 4]" "[Data 1 [2, 3], Read_Intr, Data 4 []]"]
  by simp

text \<open>A broken connection replays.  If the stream ends in the middle of a message, the handler gets
  the last message's bytes with the beginning overwritten; if reads fail instead, it gets that
  buffer again for every failing read, because a result of -1 does not end the loop.\<close>

theorem broken_connection_replays:
  assumes "0 < n" "\<forall>m \<in> set ms. length m = n" "length buf = n" "length p < n"
    and "clean evs" "bytes_of evs = concat ms @ p"
  defines "stale \<equiv> p @ drop (length p) (last (buf # ms))"
  shows "serve n buf (evs @ [Read_Eof]) = (if p = [] then (ms, True) else (ms @ [stale], True))
    \<and> serve n buf (evs @ replicate (Suc k) Read_Fail @ [Read_Eof]) = (ms @ replicate (Suc k) stale, True)"
proof -
  let ?b = "last (buf # ms)"
  have lb: "length ?b = n" using assms(2,3) by (cases ms) auto
  have 1: "serve n ?b (evs' @ [Read_Eof]) = (if p = [] then ([], True) else ([stale], True))"
    if c: "clean evs'" "bytes_of evs' = p" for evs'
    using readn_loop_short [OF c(1), of n "[]" "[]"] assms(1,4) c(2) serve_eof [OF assms(1)]
    by (subst serve.simps) (simp add: Readn_def readn_def stale_def)
  have 2: "serve n ?b (evs' @ replicate (Suc k) Read_Fail @ [Read_Eof]) = (replicate (Suc k) stale, True)"
    if c: "clean evs'" "bytes_of evs' = p" for evs'
    using readn_loop_short [OF c(1), of n "[]" "replicate k Read_Fail @ [Read_Eof]"] assms(4) c(2)
      serve_fails [OF assms(1), of stale k]
    by (subst serve.simps) (simp add: Readn_def readn_def stale_def)
  have "serve n buf (evs @ [Read_Eof]) = (if p = [] then (ms, True) else (ms @ [stale], True))"
    using serve_frames [OF assms(1,5,6,2,3), of "[Read_Eof]"] 1 by auto
  moreover have "serve n buf (evs @ replicate (Suc k) Read_Fail @ [Read_Eof]) = (ms @ replicate (Suc k) stale, True)"
    using serve_frames [OF assms(1,5,6,2,3), of "replicate (Suc k) Read_Fail @ [Read_Eof]"] 2 by auto
  ultimately show ?thesis by blast
qed

theorem broken_connection_replays_witness:
  "serve 2 [0, 0] ([Data 1 [2, 3]] @ replicate (Suc 1) Read_Fail @ [Read_Eof])
     = ([[1, 2]] @ replicate (Suc 1) [3, 2], True)"
  using broken_connection_replays [of 2 "[[1, 2]]" "[0, 0]" "[3]" "[Data 1 [2, 3]]" 1] by simp

text \<open>A message survives the wire.  What the other side decodes from a message's bytes is the message
  without its pointers, if its strings fit their arrays.\<close>

theorem peer_msg_round_trip:
  assumes "length (timestamp m) < 48" "CHR 0x00 \<notin> set (timestamp m)"
    and "length (msg_text m) < 70" "CHR 0x00 \<notin> set (msg_text m)"
  shows "decode_msg (encode_msg junk m) = m\<lparr>pts := None, ptimes := None, pm := None\<rparr>"
  by (simp add: decode_msg_def encode_msg_def load32_skip load16_skip load_store_str [OF assms(1,2)]
      load_store_str [OF assms(3,4)])

end
