(* ===== verification/Peer_Dispatch.thy ===== *)
theory Peer_Dispatch
  imports Pacing Socket_IO
begin

text \<open>
  The source DTN's listener for messages of destinations (\<open>src/userspace/user_dtn.c\<close>):
  \<open>fDoRunGetMessageFromPeer\<close> records the peer of a connection and forks; the child runs
  \<open>process_request\<close>, which decodes each message and hands it to the pacing control, and exits.  Of
  what the child does, the parent keeps what is outside its memory: the shared memory segment and
  the commands run.
\<close>

section \<open>One message\<close>

definition handle_msg :: "pace_env \<Rightarrow> sDest_Dtn_IPs list \<Rightarrow> PeerMsg \<Rightarrow> pacer \<Rightarrow> pacer" where
  "handle_msg env tab m p =
    (let msg = ntohl (msg_no m) in
     if msg = QINFO_MSG
     then fDoQinfoAssessment2 env (ntohl (vHopDelay m)) (ntohl (dst_ip_addr m)) tab p
     else if msg = RESET_PACING_MSG then fDoResetPacing2 env (ntohl (dst_ip_addr m)) tab p
     else if msg = TEST_MSG then p
     else if msg = CLEANUP_RESET_PACING_MSG then fDoCleanupResetPacing2 env p
     else p)"

text \<open>The settings may change between messages, so each comes with its own.\<close>

fun handle_msgs :: "(nat \<Rightarrow> pace_env) \<Rightarrow> sDest_Dtn_IPs list \<Rightarrow> PeerMsg list \<Rightarrow> pacer \<Rightarrow> pacer" where
  "handle_msgs envs tab [] p = p"
| "handle_msgs envs tab (m # ms) p = handle_msgs (\<lambda>i. envs (Suc i)) tab ms (handle_msg (envs 0) tab m p)"

text \<open>The child: what it reads into \<open>from_cli\<close> until a read returns 0, and whether it is done.\<close>

definition process_request ::
  "(nat \<Rightarrow> pace_env) \<Rightarrow> sDest_Dtn_IPs list \<Rightarrow> byte list \<Rightarrow> sys_read list \<Rightarrow> pacer \<Rightarrow> pacer \<times> bool" where
  "process_request envs tab from_cli evs p =
    (case serve sizeof_PeerMsg from_cli evs of (bufs, ended) \<Rightarrow>
       (handle_msgs envs tab (map decode_msg bufs) p, ended))"

section \<open>A connection\<close>

record source =
  src_tables :: ip_tables
  src_pacer :: pacer

text \<open>What the parent sees of a child's run so far.\<close>

definition after_child :: "pacer \<Rightarrow> pacer \<Rightarrow> pacer" where
  "after_child child p = p\<lparr>shm := shm child, trace := trace child\<rparr>"

definition accept_connection ::
  "bool \<Rightarrow> time_t \<Rightarrow> u32 option \<Rightarrow> (nat \<Rightarrow> pace_env) \<Rightarrow> byte list \<Rightarrow> sys_read list \<Rightarrow> source \<Rightarrow>
   c_fault + source" where
  "accept_connection gUseApacheKafka clk peer envs from_cli evs s =
    (if gUseApacheKafka then Inr s
     else
       bindE (case peer of None \<Rightarrow> Inr (src_tables s) | Some a \<Rightarrow> attach_dest clk a (src_tables s))
         (\<lambda>t. let child = fst (process_request envs (aDest_Dtn_IPs t) from_cli evs (src_pacer s))
              in Inr (s\<lparr>src_tables := t, src_pacer := after_child child (src_pacer s)\<rparr>)))"

section \<open>Lemmas\<close>

lemma find_dest_iff: "find_dest a es \<longleftrightarrow> a \<in> set (live_keys dip_addr es)"
  by (induction es) auto

lemma wire_decodes:
  "ntohl (msg_no (m\<lparr>src_ip_addr := x, dst_ip_addr := htonl d\<rparr>)) = ntohl (msg_no m)"
  "ntohl (dst_ip_addr (m\<lparr>src_ip_addr := x, dst_ip_addr := htonl d\<rparr>)) = d"
  by simp_all

lemma after_child_self [simp]: "after_child p p = p"
  by (simp add: after_child_def)

lemma qinfo_hopd_fields:
  assumes "queue_inv q" "post (Post_Qinfo_HopD vQinfo hopd src dst) q = Some q1"
  shows "msg_no (posted_msg (Post_Qinfo_HopD vQinfo hopd src dst) q) = htonl QINFO_MSG
    \<and> msg_value (posted_msg (Post_Qinfo_HopD vQinfo hopd src dst) q) = htonl vQinfo
    \<and> vHopDelay (posted_msg (Post_Qinfo_HopD vQinfo hopd src dst) q) = htonl hopd
    \<and> src_ip_addr (posted_msg (Post_Qinfo_HopD vQinfo hopd src dst) q) = src
    \<and> dst_ip_addr (posted_msg (Post_Qinfo_HopD vQinfo hopd src dst) q) = dst"
  using assms
  by (auto simp: posted_msg_def post_qinfo_hopd_def Let_def commit_slot_def queue_inv_def split: if_splits)

lemma start_fields:
  assumes "queue_inv q" "post (Post_Start vlan src dst) q = Some q1"
  shows "msg_no (posted_msg (Post_Start vlan src dst) q) = htonl TEST_MSG
    \<and> src_ip_addr (posted_msg (Post_Start vlan src dst) q) = src
    \<and> dst_ip_addr (posted_msg (Post_Start vlan src dst) q) = dst"
  using assms
  by (auto simp: posted_msg_def post_start_def Let_def commit_slot_def queue_inv_def split: if_splits)

lemma reset_fields:
  assumes "queue_inv q" "post (Post_Reset ksrc kdst) q = Some q1"
  shows "msg_no (posted_msg (Post_Reset ksrc kdst) q) = htonl RESET_PACING_MSG
    \<and> src_ip_addr (posted_msg (Post_Reset ksrc kdst) q) = ntohl ksrc
    \<and> dst_ip_addr (posted_msg (Post_Reset ksrc kdst) q) = ntohl kdst"
  using assms
  by (auto simp: posted_msg_def SendResetPacingMsg_def Let_def commit_slot_def queue_inv_def split: if_splits)

text \<open>A listener that has a slot for a peer, and a source that acts on a congestion message.\<close>

definition listens :: "u32 \<Rightarrow> ip_tables \<Rightarrow> bool" where
  "listens peer t \<longleftrightarrow> tables_ok t
     \<and> (peer \<in> set (destinations t) \<or> length (destinations t) < MAX_NUM_IP_ATTACHED)"

definition paces_now :: "pace_env \<Rightarrow> bool" where
  "paces_now env \<longleftrightarrow> (\<forall>i. pe_attach env i) \<and> gTuningMode env \<and> vGlobal_average_tx_Gbits_per_sec env \<noteq> 0"

lemma listens_attach:
  assumes "listens peer t" "peer \<noteq> 0"
  obtains t' where "attach_dest clk peer t = Inr t'" "listens peer t'" "find_dest peer (aDest_Dtn_IPs t')"
proof -
  have ok: "tables_ok t" using assms(1) by (simp add: listens_def)
  have "peer \<in> dip_addr ` set (aDest_Dtn_IPs t) \<or> length (destinations t) \<noteq> MAX_NUM_IP_ATTACHED"
    using assms(1) by (auto simp: listens_def destinations_def set_live_keys)
  then obtain t' where t': "attach_dest clk peer t = Inr t'"
    using attach_dest_Inl_iff [OF ok, of clk peer] by (cases "attach_dest clk peer t") auto
  with attach_dest_Inr [OF ok t'] assms(2) that show ?thesis
    by (simp add: listens_def find_dest_iff destinations_def)
qed

text \<open>A connection that carries one message.\<close>

lemma one_message:
  assumes "listens peer (src_tables s)" "peer \<noteq> 0"
    and "clean evs" "bytes_of evs = encode_msg junk m" "length junk = 28" "length buf = sizeof_PeerMsg"
  obtains t where "listens peer t" "find_dest peer (aDest_Dtn_IPs t)"
    "accept_connection False clk (Some peer) envs buf (evs @ [Read_Eof]) s = Inr (s\<lparr>src_tables := t,
       src_pacer := after_child (handle_msg (envs 0) (aDest_Dtn_IPs t) (decode_msg (encode_msg junk m)) (src_pacer s))
         (src_pacer s)\<rparr>)"
proof -
  obtain t where t: "attach_dest clk peer (src_tables s) = Inr t" "listens peer t"
    "find_dest peer (aDest_Dtn_IPs t)"
    using listens_attach [OF assms(1,2)] by metis
  have "serve sizeof_PeerMsg buf (evs @ [Read_Eof]) = ([encode_msg junk m], True)"
    using length_encode_msg [OF assms(5), of m] assms(3,4,6)
    by (intro serve_clean) (simp_all add: sizeof_PeerMsg_def)
  with t that [of t] show ?thesis
    by (simp add: accept_connection_def process_request_def Let_def)
qed

lemma start_connection:
  assumes "listens peer (src_tables s)" "peer \<noteq> 0" "ntohl (msg_no m) = TEST_MSG"
    and "clean evs" "bytes_of evs = encode_msg junk m" "length junk = 28" "length buf = sizeof_PeerMsg"
  obtains t where "listens peer t"
    "accept_connection False clk (Some peer) envs buf (evs @ [Read_Eof]) s = Inr (s\<lparr>src_tables := t\<rparr>)"
proof -
  have "handle_msg env tab (decode_msg (encode_msg junk m)) p = p" for env tab p
    using assms(3) by (simp add: handle_msg_def msg_no_defs)
  with one_message [OF assms(1,2,4-7), of clk envs] obtain t where "listens peer t"
    "accept_connection False clk (Some peer) envs buf (evs @ [Read_Eof]) s =
       Inr (s\<lparr>src_tables := t, src_pacer := src_pacer s\<rparr>)"
    by (metis after_child_self)
  then show ?thesis using that [of t] by simp
qed

lemma congestion_connection:
  assumes "listens peer (src_tables s)" "paces_now (envs 0)" "peer \<noteq> 0"
    and "ntohl (msg_no m) = QINFO_MSG" "ntohl (vHopDelay m) \<noteq> 0" "ntohl (dst_ip_addr m) = peer"
    and "rp_set (shm (src_pacer s)) \<in> {0, REGULAR_PACING_FLAG_SET}"
    and "clean evs" "bytes_of evs = encode_msg junk m" "length junk = 28" "length buf = sizeof_PeerMsg"
  shows "\<exists>s' c. accept_connection False clk (Some peer) envs buf (evs @ [Read_Eof]) s = Inr s'
    \<and> system_cmds (trace (src_pacer s')) = system_cmds (trace (src_pacer s)) @ [c]
    \<and> describes c (shm (src_pacer s'))"
proof -
  obtain t where t: "find_dest peer (aDest_Dtn_IPs t)"
    "accept_connection False clk (Some peer) envs buf (evs @ [Read_Eof]) s = Inr (s\<lparr>src_tables := t,
       src_pacer := after_child (handle_msg (envs 0) (aDest_Dtn_IPs t) (decode_msg (encode_msg junk m)) (src_pacer s))
         (src_pacer s)\<rparr>)"
    using one_message [OF assms(1,3,8-11)] by metis
  let ?p = "src_pacer s" and ?m = "decode_msg (encode_msg junk m)"
  obtain c fl v where plan: "choose_pacing2 (rp_set (shm ?p) \<noteq> 0) (rp_set (shm ?p)) (new_pacing2 (envs 0)) =
      Do_Pacing [c] fl v" "describes c \<lparr>rp_set = fl, current_pacing = v\<rparr>"
    using assms(7)
    by (fastforce simp: choose_pacing2_def Let_def REGULAR_PACING_FLAG_SET_def NOPACING_FLAG_SET_def
        split: if_splits)
  have "handle_msg (envs 0) (aDest_Dtn_IPs t) ?m ?p = record_pacing True fl v
      (run_cmds [c] (?p\<lparr>sResetPacingBack := shm ?p\<rparr>))"
    using assms(2,4-6) t(1) plan(1)
    by (simp add: paces_now_def handle_msg_def fDoQinfoAssessment2_def Let_def apply_hop_delay_def
        del: record_pacing_attached)
  then show ?thesis using plan(2) t(2) by (simp add: after_child_def)
qed

lemma reset_connection:
  assumes "listens peer (src_tables s)" "paces_now (envs 0)" "peer \<noteq> 0"
    and "ntohl (msg_no m) = RESET_PACING_MSG" "ntohl (dst_ip_addr m) = peer"
    and "rp_set (shm (src_pacer s)) = REGULAR_PACING_FLAG_SET"
    and "clean evs" "bytes_of evs = encode_msg junk m" "length junk = 28" "length buf = sizeof_PeerMsg"
  obtains s' where "accept_connection False clk (Some peer) envs buf (evs @ [Read_Eof]) s = Inr s'"
    "listens peer (src_tables s')" "rp_set (shm (src_pacer s')) = NOPACING_FLAG_SET"
    "system_cmds (trace (src_pacer s')) = system_cmds (trace (src_pacer s)) @ [Tc_Change_Nopacing]"
proof -
  obtain t where t: "listens peer t" "find_dest peer (aDest_Dtn_IPs t)"
    "accept_connection False clk (Some peer) envs buf (evs @ [Read_Eof]) s = Inr (s\<lparr>src_tables := t,
       src_pacer := after_child (handle_msg (envs 0) (aDest_Dtn_IPs t) (decode_msg (encode_msg junk m)) (src_pacer s))
         (src_pacer s)\<rparr>)"
    using one_message [OF assms(1,3,7-10)] by metis
  have "handle_msg (envs 0) (aDest_Dtn_IPs t) (decode_msg (encode_msg junk m)) (src_pacer s) =
      run_cmds [Tc_Change_Nopacing] (record_pacing True NOPACING_FLAG_SET 0
        ((src_pacer s)\<lparr>sResetPacingBack := shm (src_pacer s)\<rparr>))"
    using assms(2,4-6) t(2)
    by (simp add: paces_now_def handle_msg_def msg_no_defs fDoResetPacing2_def REGULAR_PACING_FLAG_SET_def
        NOPACING_FLAG_SET_def del: record_pacing_attached)
  with t that show ?thesis by (simp add: after_child_def)
qed

section \<open>Properties\<close>

text \<open>From the detector to the pacing control.  A request the hop-delay alarm posts on an empty
  queue is what the sender takes next; over a working connection it is written once, to the
  recorded source, and decoding the bytes that were written makes the source assess exactly the
  recorded hop delay and destination.\<close>

theorem request_end_to_end:
  assumes "queue_inv q" "contents q = []" "src \<noteq> 0"
  shows "\<exists>q1 m q2 w. post_qinfo_hopd vQinfo hopd src dst q = Some q1
    \<and> take_msg q1 = Some (m, q2) \<and> contents q2 = []
    \<and> wire (send_msg dbg 0 sret cret m s) = wire s @ [(dotted src, w)]
    \<and> ntohl (msg_value w) = vQinfo \<and> ntohl (src_ip_addr w) = src
    \<and> handle_msg env tab (decode_msg (encode_msg junk w)) p = fDoQinfoAssessment2 env hopd dst tab p"
proof -
  let ?p = "Post_Qinfo_HopD vQinfo hopd src dst"
  have "post ?p q \<noteq> None"
    using peer_q.enq_None [OF assms(1), of ?p] assms(2) by (simp add: SMSGS_BUFFER_SIZE_def)
  then obtain q1 where q1: "post ?p q = Some q1" by auto
  have c1: "queue_inv q1" "contents q1 = [posted_msg ?p q]"
    using post_step [OF assms(1) q1] assms(2) by simp_all
  then obtain m q2 where t: "take_msg q1 = Some (m, q2)"
    using peer_q.deq_None [OF c1(1)] by fastforce
  have m: "m = posted_msg ?p q" "contents q2 = []"
    using take_step [OF c1(1) t] c1(2) by simp_all
  note f = qinfo_hopd_fields [OF assms(1) q1, folded m(1)]
  let ?w = "m\<lparr>src_ip_addr := htonl (src_ip_addr m), dst_ip_addr := htonl (dst_ip_addr m)\<rparr>"
  have "wire (send_msg dbg 0 sret cret m s) = wire s @ [(dotted src, ?w)]"
    using f assms(3) by (simp add: send_msg_def send_dial_def Let_def)
  moreover have "handle_msg env tab (decode_msg (encode_msg junk ?w)) p = fDoQinfoAssessment2 env hopd dst tab p"
    using f by (simp add: handle_msg_def)
  moreover have "ntohl (msg_value ?w) = vQinfo \<and> ntohl (src_ip_addr ?w) = src"
    using f by simp
  ultimately show ?thesis using q1 t m(2) by (intro exI conjI) auto
qed

theorem request_end_to_end_witness:
  "\<exists>q1 m q2 w. post_qinfo_hopd 500 7 3 4 empty_queue = Some q1 \<and> take_msg q1 = Some (m, q2)
     \<and> wire (send_msg 1 0 0 0 m idle_sender) = [(dotted 3, w)] \<and> ntohl (msg_value w) = 500"
  using request_end_to_end [of empty_queue 3 500 7 4 1 0 0 idle_sender tuning_env one_dest "[]" no_pacing]
  by (auto simp: idle_sender_def)

text \<open>What the parent keeps.  Whatever the messages of a connection do, the parent's own copy of
  the pacing record stays as it was, while the shared record and the commands run are the child's;
  only the table of destinations can make the parent fail.\<close>

theorem parent_keeps_own_record:
  assumes "accept_connection kafka clk peer envs buf evs s = Inr s'"
  defines "child \<equiv> fst (process_request envs (aDest_Dtn_IPs (src_tables s')) buf evs (src_pacer s))"
  shows "sResetPacingBack (src_pacer s') = sResetPacingBack (src_pacer s)
    \<and> (if kafka then s' = s
       else shm (src_pacer s') = shm child \<and> trace (src_pacer s') = trace child)"
  using assms(1) unfolding child_def
  by (auto simp: accept_connection_def bindE_Inr_iff after_child_def Let_def split: if_splits)

definition idle_source :: source where
  "idle_source = \<lparr>src_tables = no_peers, src_pacer = no_pacing\<rparr>"

definition zero_buffer :: "byte list" where
  "zero_buffer = replicate sizeof_PeerMsg 0"

lemma accept_none_example:
  "accept_connection False 5 None (\<lambda>i. tuning_env) zero_buffer [Read_Eof] idle_source =
     Inr (idle_source\<lparr>src_pacer := after_child no_pacing no_pacing\<rparr>)"
  by (simp add: accept_connection_def process_request_def serve_eof sizeof_PeerMsg_def idle_source_def Let_def)

text \<open>A complaint over its own connection acts.  When a destination connects while fewer than ten
  others are recorded, in tuning mode with a measured bit rate and attachable shared memory, a
  congestion message with a hop delay that names the connecting address, in whatever pieces its
  bytes arrive, runs exactly one \<open>tc\<close> command, unless pacing is already switched off and the new
  rate is at the NIC's speed.\<close>

theorem complaint_acts:
  assumes "tables_ok (src_tables s)" "length (destinations (src_tables s)) < MAX_NUM_IP_ATTACHED"
    and "peer \<noteq> 0" "\<forall>i. pe_attach (envs 0) i" "gTuningMode (envs 0)"
    and "vGlobal_average_tx_Gbits_per_sec (envs 0) \<noteq> 0"
    and "ntohl (msg_no m) = QINFO_MSG" "ntohl (vHopDelay m) \<noteq> 0" "ntohl (dst_ip_addr m) = peer"
    and "rp_set (shm (src_pacer s)) \<in> {0, REGULAR_PACING_FLAG_SET}"
    and "clean evs" "bytes_of evs = encode_msg junk m" "length junk = 28" "length buf = sizeof_PeerMsg"
  shows "\<exists>s' c. accept_connection False clk (Some peer) envs buf (evs @ [Read_Eof]) s = Inr s'
    \<and> system_cmds (trace (src_pacer s')) = system_cmds (trace (src_pacer s)) @ [c]
    \<and> describes c (shm (src_pacer s'))"
proof -
  have "listens peer (src_tables s)" "paces_now (envs 0)"
    using assms by (simp_all add: listens_def paces_now_def)
  from congestion_connection [where envs = envs, OF this assms(3) assms(7-14)] show ?thesis .
qed

definition complaint :: PeerMsg where
  "complaint = zero_msg\<lparr>msg_no := htonl QINFO_MSG, vHopDelay := htonl 9, dst_ip_addr := htonl 77\<rparr>"

theorem complaint_acts_witness:
  "\<exists>s' c. accept_connection False 5 (Some 77) (\<lambda>i. tuning_env) zero_buffer
       (push_back (encode_msg (replicate 28 0) complaint) [] @ [Read_Eof]) idle_source = Inr s'
     \<and> system_cmds (trace (src_pacer s')) = [c]"
proof -
  have a: "tables_ok (src_tables idle_source)" "length (destinations (src_tables idle_source)) < MAX_NUM_IP_ATTACHED"
    "(77 :: u32) \<noteq> 0" "\<forall>i. pe_attach tuning_env i" "gTuningMode tuning_env"
    "vGlobal_average_tx_Gbits_per_sec tuning_env \<noteq> 0" "ntohl (msg_no complaint) = QINFO_MSG"
    "ntohl (vHopDelay complaint) \<noteq> 0" "ntohl (dst_ip_addr complaint) = 77"
    "rp_set (shm (src_pacer idle_source)) \<in> {0, REGULAR_PACING_FLAG_SET}"
    by (simp_all add: idle_source_def tuning_env_def complaint_def MAX_NUM_IP_ATTACHED_def no_pacing_def)
  have b: "clean (push_back (encode_msg (replicate 28 0) complaint) [])"
    "bytes_of (push_back (encode_msg (replicate 28 0) complaint) []) = encode_msg (replicate 28 0) complaint"
    "length (replicate 28 (0 :: byte)) = 28" "length zero_buffer = sizeof_PeerMsg"
    by (simp_all add: zero_buffer_def)
  show ?thesis
    using complaint_acts [where envs = "\<lambda>i. tuning_env", OF a b, of 5] by (auto simp: idle_source_def no_pacing_def)
qed

end
