(* ===== verification/Int_Sink.thy ===== *)
theory Int_Sink
  imports Timers
begin

text \<open>
  The consumer of INT reports on a destination DTN (\<open>src/userspace/user_dtn.c\<close>): the perf buffer
  callback \<open>sample_func\<close>, which reads a report's bytes (the layouts of \<open>int_defs.h\<close> and
  \<open>filter_defs.h\<close>) hop by hop, and the loop of \<open>fDoRunBpfCollectionPerfEventArray2\<close>, which resets
  the extremes before each poll and afterwards publishes them for the HPN clients.

  The BPF maps are the kernel's; an update is an update of a partial function.  The log output is
  not modelled.
\<close>

section \<open>The report's bytes\<close>

record int_hop_metadata =
  md_switch_id :: u32
  ingress_port_id :: u16
  egress_port_id :: u16
  md_hop_latency :: u32
  queue_info :: u32
  md_ingress_time :: u32
  md_egress_time :: u32

definition sizeof_hop_key :: nat where "sizeof_hop_key = 28"
definition sizeof_int_hop_metadata :: nat where "sizeof_int_hop_metadata = 24"

definition load_hop_key :: "byte list \<Rightarrow> hop_key" where
  "load_hop_key bs = \<lparr>fk_switch_id = load32 bs 0, fk_egress_port = load16 bs 4,
     fk_vlan_id = load16 bs 6, fk_src_ip = load32 bs 8, fk_dst_ip = load32 bs 12,
     fk_src_port = load16 bs 16, fk_dst_port = load16 bs 18,
     fk_resv1 = load32 bs 20, hop_index = load32 bs 24\<rparr>"

definition load_metadata :: "byte list \<Rightarrow> nat \<Rightarrow> int_hop_metadata" where
  "load_metadata bs i = \<lparr>md_switch_id = load32 bs i, ingress_port_id = load16 bs (i + 4),
     egress_port_id = load16 bs (i + 6), md_hop_latency = load32 bs (i + 8),
     queue_info = load32 bs (i + 12), md_ingress_time = load32 bs (i + 16),
     md_egress_time = load32 bs (i + 20)\<rparr>"

definition hop_Qinfo :: "int_hop_metadata \<Rightarrow> u32" where
  "hop_Qinfo md = ntohl (queue_info md) AND 0xffffff"

definition hop_latency_of :: "int_hop_metadata \<Rightarrow> u32" where
  "hop_latency_of md = ntohl (md_egress_time md) - ntohl (md_ingress_time md)"

definition hop_switch :: "int_hop_metadata \<Rightarrow> u32" where
  "hop_switch md = ntohl (md_switch_id md)"

section \<open>The extremes of a poll\<close>

definition QINFO_START_MIN_VALUE :: u32 where "QINFO_START_MIN_VALUE = 0xFFFFFF"

record qinfo_stats =
  qinfo_min_value :: u32
  qinfo_hop_latency_min :: u32
  qinfo_hop_switch_id_min :: u32
  qinfo_clk_min :: time_t
  qinfo_ms_ctime_buf_min :: string
  qinfo_max_value :: u32
  qinfo_hop_latency_max :: u32
  qinfo_hop_switch_id_max :: u32
  qinfo_clk_max :: time_t
  qinfo_ms_ctime_buf_max :: string
  perf_buffer_poll_start :: bool
  vQinfoUserValue :: u32
  flow_sink_time_threshold :: u32

definition zero_stats :: qinfo_stats where
  "zero_stats = \<lparr>qinfo_min_value = QINFO_START_MIN_VALUE, qinfo_hop_latency_min = 0,
     qinfo_hop_switch_id_min = 0, qinfo_clk_min = 0, qinfo_ms_ctime_buf_min = [],
     qinfo_max_value = 0, qinfo_hop_latency_max = 0, qinfo_hop_switch_id_max = 0,
     qinfo_clk_max = 0, qinfo_ms_ctime_buf_max = [], perf_buffer_poll_start = False,
     vQinfoUserValue = 0, flow_sink_time_threshold = 0\<rparr>"

definition poll_begin :: "qinfo_stats \<Rightarrow> qinfo_stats" where
  "poll_begin st = st\<lparr>perf_buffer_poll_start := True, qinfo_min_value := QINFO_START_MIN_VALUE,
     qinfo_max_value := 0\<rparr>"

definition note_min :: "time_t \<Rightarrow> string \<Rightarrow> int_hop_metadata \<Rightarrow> qinfo_stats \<Rightarrow> qinfo_stats" where
  "note_min clk ms md st =
    (if hop_Qinfo md < qinfo_min_value st
     then st\<lparr>qinfo_clk_min := clk, qinfo_min_value := hop_Qinfo md,
             qinfo_hop_latency_min := hop_latency_of md, qinfo_hop_switch_id_min := hop_switch md,
             qinfo_ms_ctime_buf_min := ms\<rparr>
     else st)"

definition note_max :: "time_t \<Rightarrow> string \<Rightarrow> int_hop_metadata \<Rightarrow> qinfo_stats \<Rightarrow> qinfo_stats" where
  "note_max clk ms md st =
    (if qinfo_max_value st < hop_Qinfo md \<and> \<not> perf_buffer_poll_start st
     then st\<lparr>qinfo_clk_max := clk, qinfo_max_value := hop_Qinfo md,
             qinfo_hop_latency_max := hop_latency_of md, qinfo_hop_switch_id_max := hop_switch md,
             qinfo_ms_ctime_buf_max := ms\<rparr>
     else st)"

definition note_hop :: "time_t \<Rightarrow> string \<Rightarrow> int_hop_metadata \<Rightarrow> qinfo_stats \<Rightarrow> qinfo_stats" where
  "note_hop clk ms md st =
    (note_max clk ms md (note_min clk ms md st))
      \<lparr>perf_buffer_poll_start := False, vQinfoUserValue := hop_Qinfo md\<rparr>"

section \<open>What a poll publishes\<close>

record hpn_ret =
  sHpnRetMsg :: PeerMsg
  sHpnRetMsg2 :: PeerMsg
  hpnretcdone :: bool

definition publish_min_first :: "qinfo_stats \<Rightarrow> hpn_ret \<Rightarrow> hpn_ret" where
  "publish_min_first st r = r\<lparr>
     sHpnRetMsg := (sHpnRetMsg r)\<lparr>timestamp := qinfo_ms_ctime_buf_min st,
       hop_latency := qinfo_hop_latency_min st, queue_occupancy := qinfo_min_value st,
       switch_id := qinfo_hop_switch_id_min st\<rparr>,
     sHpnRetMsg2 := (sHpnRetMsg2 r)\<lparr>pts := Some Qinfo_Ms_Ctime_Buf_Max,
       hop_latency := qinfo_hop_latency_max st, queue_occupancy := qinfo_max_value st,
       switch_id := qinfo_hop_switch_id_max st\<rparr>,
     hpnretcdone := True\<rparr>"

definition publish_max_first :: "qinfo_stats \<Rightarrow> hpn_ret \<Rightarrow> hpn_ret" where
  "publish_max_first st r = r\<lparr>
     sHpnRetMsg := (sHpnRetMsg r)\<lparr>timestamp := qinfo_ms_ctime_buf_max st,
       hop_latency := qinfo_hop_latency_max st, queue_occupancy := qinfo_max_value st,
       switch_id := qinfo_hop_switch_id_max st\<rparr>,
     sHpnRetMsg2 := (sHpnRetMsg2 r)\<lparr>pts := Some Qinfo_Ms_Ctime_Buf_Min,
       hop_latency := qinfo_hop_latency_min st, queue_occupancy := qinfo_min_value st,
       switch_id := qinfo_hop_switch_id_min st\<rparr>,
     hpnretcdone := True\<rparr>"

definition publish_min_only :: "qinfo_stats \<Rightarrow> hpn_ret \<Rightarrow> hpn_ret" where
  "publish_min_only st r = r\<lparr>
     sHpnRetMsg := (sHpnRetMsg r)\<lparr>timestamp := qinfo_ms_ctime_buf_min st,
       hop_latency := qinfo_hop_latency_min st, queue_occupancy := qinfo_min_value st,
       switch_id := qinfo_hop_switch_id_min st\<rparr>,
     hpnretcdone := True\<rparr>"

definition publish_max_only :: "qinfo_stats \<Rightarrow> hpn_ret \<Rightarrow> hpn_ret" where
  "publish_max_only st r = r\<lparr>
     sHpnRetMsg := (sHpnRetMsg r)\<lparr>timestamp := qinfo_ms_ctime_buf_max st,
       hop_latency := qinfo_hop_latency_max st, queue_occupancy := qinfo_max_value st,
       switch_id := qinfo_hop_switch_id_max st\<rparr>,
     hpnretcdone := True\<rparr>"

text \<open>The body of the poll loop after a poll that returned \<open>err\<close>.\<close>

definition poll_end :: "int \<Rightarrow> qinfo_stats \<Rightarrow> hpn_ret \<Rightarrow> hpn_ret" where
  "poll_end err st r =
    (if err < 0 \<or> perf_buffer_poll_start st then r
     else if qinfo_min_value st \<noteq> QINFO_START_MIN_VALUE \<and> qinfo_max_value st \<noteq> 0
     then (if qinfo_clk_min st \<le> qinfo_clk_max st then publish_min_first st r
           else publish_max_first st r)
     else if qinfo_min_value st \<noteq> QINFO_START_MIN_VALUE then publish_min_only st r
     else publish_max_only st r)"

section \<open>The callback\<close>

record hop_threshold_val =
  ht_hop_latency_threshold :: u32
  ht_hop_latency_delta :: u32
  ht_queue_occupancy_threshold :: u32
  ht_queue_occupancy_delta :: u32
  ht_switch_id :: u32

record flow_threshold_val =
  ft_hop_latency_threshold :: u32
  ft_hop_latency_delta :: u32
  ft_sink_time_threshold :: u32
  ft_sink_time_delta :: u32
  ft_total_hops :: u32

record flow_key =
  fl_switch_id :: u32
  fl_egress_port :: u16
  fl_vlan_id :: u16
  fl_src_ip :: u32
  fl_dst_ip :: u32
  fl_src_port :: u16
  fl_dst_port :: u16
  fl_resv1 :: u32

definition flow_key_of :: "hop_key \<Rightarrow> flow_key" where
  "flow_key_of k = \<lparr>fl_switch_id = fk_switch_id k, fl_egress_port = fk_egress_port k,
     fl_vlan_id = fk_vlan_id k, fl_src_ip = fk_src_ip k, fl_dst_ip = fk_dst_ip k,
     fl_src_port = fk_src_port k, fl_dst_port = fk_dst_port k,
     fl_resv1 = fk_resv1 k\<rparr>"

record sink =
  sdet :: detector
  stables :: ip_tables
  stats :: qinfo_stats
  hop_map :: "hop_key \<Rightarrow> hop_threshold_val option"
  flow_map :: "flow_key \<Rightarrow> flow_threshold_val option"
  counter_map :: "flow_key \<Rightarrow> (nat \<times> nat) option"
  g_src_ip_addr :: u32
  g_dst_ip_addr :: u32

text \<open>Settings and environment of the callback: what \<open>timer_settime\<close> returns, the clock.\<close>

record sample_env =
  se_use_retransmission :: bool
  se_thresholds :: thresholds
  se_settime :: int
  se_clk :: time_t
  se_ms_ctime :: string

text \<open>Posting at once what an operation is about to post; \<open>None\<close> while the queue is full.\<close>

fun proceed_all :: "wait list \<Rightarrow> detector \<Rightarrow> detector option" where
  "proceed_all [] d = Some d"
| "proceed_all (w # ws) d =
    (case proceed False 0 0 w d of None \<Rightarrow> None | Some d' \<Rightarrow> proceed_all ws d')"

text \<open>One turn of the loop: the extremes, the thresholds with their timers and reset message, the
  BPF map, and the source table with the start-of-traffic message.  The accumulator is
  \<open>flow_threshold_update\<close>.\<close>

definition hop_alarm :: "sample_env \<Rightarrow> hop_key \<Rightarrow> int_hop_metadata \<Rightarrow> sink \<Rightarrow> sink option" where
  "hop_alarm env key md s =
    (let st = note_hop (se_clk env) (se_ms_ctime env) md (stats s);
         (t, ws) = evaluate_hop (se_use_retransmission env) (se_thresholds env) (se_settime env) key
           (vQinfoUserValue st) (hop_latency_of md) (tmr (sdet s))
     in case proceed_all ws ((sdet s)\<lparr>tmr := t\<rparr>) of None \<Rightarrow> None
        | Some d \<Rightarrow> Some (s\<lparr>stats := st, sdet := d\<rparr>))"

definition hop_maps ::
  "sample_env \<Rightarrow> hop_key \<Rightarrow> int_hop_metadata \<Rightarrow> flow_threshold_val \<times> sink \<Rightarrow> flow_threshold_val \<times> sink" where
  "hop_maps env key md fs =
    (let (f, s) = fs;
         s1 = s\<lparr>hop_map := (hop_map s)(key \<mapsto>
           \<lparr>ht_hop_latency_threshold = hop_latency_of md,
            ht_hop_latency_delta = vHOP_LATENCY_DELTA (se_thresholds env),
            ht_queue_occupancy_threshold = hop_Qinfo md,
            ht_queue_occupancy_delta = vQUEUE_OCCUPANCY_DELTA (se_thresholds env),
            ht_switch_id = hop_switch md\<rparr>)\<rparr>;
         (f1, s2) = (if hop_index key = 0
           then (f\<lparr>ft_sink_time_threshold := ntohl (md_ingress_time md)\<rparr>,
                 s1\<lparr>stats := (stats s1)\<lparr>flow_sink_time_threshold := ntohl (md_ingress_time md)\<rparr>\<rparr>)
           else (f, s1))
     in (f1\<lparr>ft_hop_latency_threshold := ft_hop_latency_threshold f1 + hop_latency_of md\<rparr>, s2))"

definition hop_source :: "sample_env \<Rightarrow> hop_key \<Rightarrow> sink \<Rightarrow> (c_fault + sink) option" where
  "hop_source env key s =
    (let src = ntohl (fk_src_ip key); dst = ntohl (fk_dst_ip key);
         s1 = s\<lparr>g_src_ip_addr := src, g_dst_ip_addr := dst\<rparr>
     in case attach_src (se_clk env) src (stables s1) of
          Inl e \<Rightarrow> Some (Inl e)
        | Inr t \<Rightarrow>
            if new_traffic t
            then (case proceed_all [W_Start (fk_vlan_id key) src dst] (sdet s1) of
                    None \<Rightarrow> None
                  | Some d \<Rightarrow> Some (Inr (s1\<lparr>stables := t\<lparr>new_traffic := False, vIamADestDtn := True\<rparr>,
                                          sdet := d\<rparr>)))
            else Some (Inr (s1\<lparr>stables := t\<rparr>)))"

definition sample_hop ::
  "sample_env \<Rightarrow> int_hop_metadata \<Rightarrow> hop_key \<times> flow_threshold_val \<times> sink \<Rightarrow>
   (c_fault + (hop_key \<times> flow_threshold_val \<times> sink)) option" where
  "sample_hop env md kfs =
    (let (key, f, s) = kfs in
     case hop_alarm env key md s of None \<Rightarrow> None
     | Some s1 \<Rightarrow>
        (let (f1, s2) = hop_maps env key md (f, s1) in
         case hop_source env key s2 of None \<Rightarrow> None
         | Some (Inl e) \<Rightarrow> Some (Inl e)
         | Some (Inr s3) \<Rightarrow> Some (Inr (key\<lparr>hop_index := hop_index key + 1\<rparr>, f1, s3))))"

fun sample_hops ::
  "(nat \<Rightarrow> sample_env) \<Rightarrow> int_hop_metadata list \<Rightarrow> hop_key \<times> flow_threshold_val \<times> sink \<Rightarrow>
   (c_fault + (hop_key \<times> flow_threshold_val \<times> sink)) option" where
  "sample_hops envs [] kfs = Some (Inr kfs)"
| "sample_hops envs (md # mds) kfs =
    (case sample_hop (envs 0) md kfs of None \<Rightarrow> None
     | Some (Inl e) \<Rightarrow> Some (Inl e)
     | Some (Inr kfs') \<Rightarrow> sample_hops (\<lambda>i. envs (Suc i)) mds kfs')"

text \<open>The while loop's reads: metadata from \<open>off\<close> on while a whole one fits.\<close>

function read_metadata :: "byte list \<Rightarrow> nat \<Rightarrow> int_hop_metadata list" where
  "read_metadata bs off =
    (if off + sizeof_int_hop_metadata \<le> length bs
     then load_metadata bs off # read_metadata bs (off + sizeof_int_hop_metadata) else [])"
  by auto
termination
  by (relation "measure (\<lambda>(bs, off). length bs - off)") (auto simp: sizeof_int_hop_metadata_def)

declare read_metadata.simps [simp del]

text \<open>The whole callback; the environment is given per hop, since the clock is read and the
  thresholds may be changed by the HTTP server between hops.\<close>

definition sample_func :: "(nat \<Rightarrow> sample_env) \<Rightarrow> byte list \<Rightarrow> sink \<Rightarrow> (c_fault + sink) option" where
  "sample_func envs bs s =
    (if length bs < sizeof_hop_key then Some (Inr s)
     else
       let th = se_thresholds (envs 0);
           f = \<lparr>ft_hop_latency_threshold = 0, ft_hop_latency_delta = vFLOW_LATENCY_DELTA th,
                ft_sink_time_threshold = 0, ft_sink_time_delta = vFLOW_SINK_TIME_DELTA th,
                ft_total_hops = 0\<rparr>
       in case sample_hops envs (read_metadata bs sizeof_hop_key)
                 ((load_hop_key bs)\<lparr>hop_index := 0\<rparr>, f, s) of
            None \<Rightarrow> None
          | Some (Inl e) \<Rightarrow> Some (Inl e)
          | Some (Inr (key, f1, s1)) \<Rightarrow>
              Some (Inr (s1\<lparr>
                flow_map := (flow_map s1)(flow_key_of key \<mapsto> f1\<lparr>ft_total_hops := hop_index key\<rparr>),
                counter_map := (if counter_map s1 (flow_key_of key) = None
                  then (counter_map s1)(flow_key_of key \<mapsto> (0, 0)) else counter_map s1)\<rparr>)))"

section \<open>Lemmas: the extremes\<close>

fun note_all :: "(time_t \<times> string \<times> int_hop_metadata) list \<Rightarrow> qinfo_stats \<Rightarrow> qinfo_stats" where
  "note_all [] st = st"
| "note_all ((clk, ms, md) # hs) st = note_all hs (note_hop clk ms md st)"

definition Qinfos :: "(time_t \<times> string \<times> int_hop_metadata) list \<Rightarrow> u32 list" where
  "Qinfos hs = map (\<lambda>(clk, ms, md). hop_Qinfo md) hs"

lemma note_hop_values:
  "qinfo_min_value (note_hop clk ms md st) = min (hop_Qinfo md) (qinfo_min_value st)"
  "qinfo_max_value (note_hop clk ms md st) =
     (if perf_buffer_poll_start st then qinfo_max_value st else max (hop_Qinfo md) (qinfo_max_value st))"
  "\<not> perf_buffer_poll_start (note_hop clk ms md st)"
  by (auto simp: note_hop_def note_min_def note_max_def min_def max_def)

lemma note_all_values:
  "qinfo_min_value (note_all hs st) = fold min (Qinfos hs) (qinfo_min_value st)"
  "\<not> perf_buffer_poll_start st \<Longrightarrow>
     qinfo_max_value (note_all hs st) = fold max (Qinfos hs) (qinfo_max_value st)"
  "\<not> perf_buffer_poll_start st \<Longrightarrow> \<not> perf_buffer_poll_start (note_all hs st)"
  by (induction hs st rule: note_all.induct) (simp_all add: Qinfos_def note_hop_values)

lemma note_all_min_from:
  "(\<exists>(clk, ms, md) \<in> set hs. qinfo_min_value (note_all hs st) = hop_Qinfo md
      \<and> qinfo_hop_latency_min (note_all hs st) = hop_latency_of md
      \<and> qinfo_hop_switch_id_min (note_all hs st) = hop_switch md
      \<and> qinfo_clk_min (note_all hs st) = clk)
   \<or> (qinfo_min_value (note_all hs st) = qinfo_min_value st
      \<and> qinfo_hop_latency_min (note_all hs st) = qinfo_hop_latency_min st
      \<and> qinfo_hop_switch_id_min (note_all hs st) = qinfo_hop_switch_id_min st
      \<and> qinfo_clk_min (note_all hs st) = qinfo_clk_min st)"
proof (induction hs st rule: note_all.induct)
  case (2 clk ms md hs st)
  have "qinfo_min_value (note_hop clk ms md st) = hop_Qinfo md
      \<and> qinfo_hop_latency_min (note_hop clk ms md st) = hop_latency_of md
      \<and> qinfo_hop_switch_id_min (note_hop clk ms md st) = hop_switch md
      \<and> qinfo_clk_min (note_hop clk ms md st) = clk
    \<or> qinfo_min_value (note_hop clk ms md st) = qinfo_min_value st
      \<and> qinfo_hop_latency_min (note_hop clk ms md st) = qinfo_hop_latency_min st
      \<and> qinfo_hop_switch_id_min (note_hop clk ms md st) = qinfo_hop_switch_id_min st
      \<and> qinfo_clk_min (note_hop clk ms md st) = qinfo_clk_min st"
    by (simp add: note_hop_def note_min_def note_max_def)
  with "2.IH" show ?case by (simp only: note_all.simps list.set) force
qed simp

lemma fold_min_le: "fold min xs (a :: u32) \<le> a \<and> (\<forall>x \<in> set xs. fold min xs a \<le> x)"
proof (induction xs arbitrary: a)
  case (Cons x xs)
  show ?case using Cons [of "min x a"] by (auto intro: order_trans)
qed simp

section \<open>Lemmas: the hop loop\<close>

lemma read_metadata_length:
  "length (read_metadata bs off) = (length bs - off) div sizeof_int_hop_metadata"
proof (induction bs off rule: read_metadata.induct)
  case (1 bs off)
  show ?case
  proof (cases "off + sizeof_int_hop_metadata \<le> length bs")
    case True
    then have e: "length bs - off = sizeof_int_hop_metadata + (length bs - (off + sizeof_int_hop_metadata))"
      by simp
    have "(length bs - off) div sizeof_int_hop_metadata =
        Suc ((length bs - (off + sizeof_int_hop_metadata)) div sizeof_int_hop_metadata)"
      unfolding e by (simp add: sizeof_int_hop_metadata_def del: diff_diff_left)
    with 1 True show ?thesis by (subst read_metadata.simps) simp
  next
    case False
    then have "length bs - off < sizeof_int_hop_metadata" by (simp add: sizeof_int_hop_metadata_def)
    with False show ?thesis by (subst read_metadata.simps) simp
  qed
qed

lemma hop_alarm_frame:
  "hop_alarm env key md s = Some s' \<Longrightarrow> flow_map s' = flow_map s \<and> stables s' = stables s
     \<and> hop_map s' = hop_map s \<and> stats s' = note_hop (se_clk env) (se_ms_ctime env) md (stats s)"
  by (auto simp: hop_alarm_def Let_def split: prod.splits option.splits)

lemma hop_maps_frame:
  "hop_maps env key md (f, s) = (f', s') \<Longrightarrow> flow_map s' = flow_map s \<and> stables s' = stables s
     \<and> sdet s' = sdet s \<and> ft_hop_latency_threshold f' = ft_hop_latency_threshold f + hop_latency_of md"
  by (auto simp: hop_maps_def Let_def split: prod.splits if_splits)

lemma hop_source_frame:
  "hop_source env key s = Some (Inr s') \<Longrightarrow> flow_map s' = flow_map s"
  by (auto simp: hop_source_def Let_def split: sum.splits option.splits if_splits)

lemma sample_hop_frame:
  assumes "sample_hop env md (key, f, s) = Some (Inr (key', f', s'))"
  shows "key' = key\<lparr>hop_index := hop_index key + 1\<rparr> \<and> flow_map s' = flow_map s
    \<and> ft_hop_latency_threshold f' = ft_hop_latency_threshold f + hop_latency_of md"
  using assms
  by (auto simp: sample_hop_def split: option.splits prod.splits sum.splits
      dest!: hop_alarm_frame hop_maps_frame hop_source_frame)

lemma sample_hops_frame:
  "sample_hops envs mds (key, f, s) = Some (Inr (key', f', s')) \<Longrightarrow>
     key' = key\<lparr>hop_index := hop_index key + of_nat (length mds)\<rparr> \<and> flow_map s' = flow_map s
     \<and> ft_hop_latency_threshold f' = ft_hop_latency_threshold f + sum_list (map hop_latency_of mds)"
proof (induction mds arbitrary: envs key f s)
  case (Cons md mds)
  then obtain key1 f1 s1 where 1: "sample_hop (envs 0) md (key, f, s) = Some (Inr (key1, f1, s1))"
    "sample_hops (\<lambda>i. envs (Suc i)) mds (key1, f1, s1) = Some (Inr (key', f', s'))"
    by (auto split: option.splits sum.splits)
  from Cons.IH [OF 1(2)] sample_hop_frame [OF 1(1)] show ?case by (simp add: ac_simps)
qed simp

section \<open>Properties\<close>

text \<open>C34: What a report leaves in the flow map.  If the callback gets through a report of at least the
  key's 28 bytes, the entry of the report's flow counts exactly the whole metadata records the
  bytes after the key hold (a partial last one is ignored) and sums their latencies, and no other
  flow's entry changes.\<close>

theorem sample_func_totals:
  assumes "sizeof_hop_key \<le> length bs" "sample_func envs bs s = Some (Inr s')"
  shows "\<exists>f. flow_map s' = (flow_map s)(flow_key_of (load_hop_key bs) \<mapsto> f)
    \<and> ft_total_hops f = of_nat ((length bs - sizeof_hop_key) div sizeof_int_hop_metadata)
    \<and> ft_hop_latency_threshold f = sum_list (map hop_latency_of (read_metadata bs sizeof_hop_key))"
proof -
  let ?f0 = "\<lparr>ft_hop_latency_threshold = 0, ft_hop_latency_delta = vFLOW_LATENCY_DELTA (se_thresholds (envs 0)),
      ft_sink_time_threshold = 0, ft_sink_time_delta = vFLOW_SINK_TIME_DELTA (se_thresholds (envs 0)),
      ft_total_hops = 0\<rparr>"
  obtain key f s1 where r: "sample_hops envs (read_metadata bs sizeof_hop_key)
      ((load_hop_key bs)\<lparr>hop_index := 0\<rparr>, ?f0, s) = Some (Inr (key, f, s1))"
    "s' = s1\<lparr>flow_map := (flow_map s1)(flow_key_of key \<mapsto> f\<lparr>ft_total_hops := hop_index key\<rparr>),
       counter_map := (if counter_map s1 (flow_key_of key) = None
                  then (counter_map s1)(flow_key_of key \<mapsto> (0, 0)) else counter_map s1)\<rparr>"
    using assms by (auto simp: sample_func_def Let_def split: option.splits sum.splits prod.splits)
  from sample_hops_frame [OF r(1)]
  have k: "key = (load_hop_key bs)\<lparr>hop_index := of_nat (length (read_metadata bs sizeof_hop_key))\<rparr>"
    "flow_map s1 = flow_map s"
    "ft_hop_latency_threshold f = sum_list (map hop_latency_of (read_metadata bs sizeof_hop_key))"
    by simp_all
  then have "flow_key_of key = flow_key_of (load_hop_key bs)" by (simp add: flow_key_of_def)
  with r(2) k show ?thesis
    by (intro exI [where x = "f\<lparr>ft_total_hops := hop_index key\<rparr>"])
      (simp add: read_metadata_length)
qed

definition empty_sink :: sink where
  "empty_sink = \<lparr>sdet = det (initial_machine False), stables = no_peers, stats = zero_stats,
     hop_map = Map.empty, flow_map = Map.empty, counter_map = Map.empty,
     g_src_ip_addr = 0, g_dst_ip_addr = 0\<rparr>"

definition quiet_env :: sample_env where
  "quiet_env = \<lparr>se_use_retransmission = False, se_thresholds = default_thresholds, se_settime = 0,
     se_clk = 5, se_ms_ctime = []\<rparr>"

lemma quiet_evaluate: "snd (evaluate_hop False th ret k q h initial_timers) = []"
  by (simp add: evaluate_hop_def low_disable_def initial_timers_def)

lemma quiet_sample_hop:
  "\<exists>r. sample_hop quiet_env md (k, f, empty_sink) = Some (Inr r)"
proof -
  let ?st = "note_hop 5 [] md zero_stats"
  obtain tt where tt: "evaluate_hop False default_thresholds 0 k (vQinfoUserValue ?st)
      (hop_latency_of md) initial_timers = (tt, [])"
    using quiet_evaluate by (metis prod.collapse)
  have "hop_alarm quiet_env k md empty_sink = Some (empty_sink\<lparr>stats := ?st,
      sdet := (sdet empty_sink)\<lparr>tmr := tt\<rparr>\<rparr>)"
    using tt by (simp add: hop_alarm_def Let_def quiet_env_def empty_sink_def)
  then obtain s1 where s1: "hop_alarm quiet_env k md empty_sink = Some s1"
    "stables s1 = no_peers" "peerq (sdet s1) = empty_queue"
    by (simp add: empty_sink_def)
  obtain f2 s2 where s2: "hop_maps quiet_env k md (f, s1) = (f2, s2)" by fastforce
  then have t: "stables s2 = no_peers" "peerq (sdet s2) = empty_queue"
    using hop_maps_frame [OF s2] s1 by simp_all
  have "attach_src 5 a no_peers \<noteq> Inl e" for a e
    using attach_src_Inl_iff [of no_peers 5 a e] by (simp add: MAX_NUM_IP_ATTACHED_def)
  then obtain t' where "attach_src 5 (ntohl (fk_src_ip k)) no_peers = Inr t'"
    by (cases "attach_src 5 (ntohl (fk_src_ip k)) no_peers") auto
  moreover obtain q where "post_start (fk_vlan_id k) (ntohl (fk_src_ip k)) (ntohl (fk_dst_ip k)) empty_queue = Some q"
    by (simp add: post_start_def q_full_def empty_queue_def SMSGS_BUFFER_SIZE_def Let_def)
  ultimately obtain s3 where "hop_source quiet_env k s2 = Some (Inr s3)"
    using t by (cases "new_traffic t'") (simp_all add: hop_source_def Let_def quiet_env_def)
  with s1 s2 show ?thesis by (simp add: sample_hop_def)
qed

definition zero_report :: "byte list" where
  "zero_report = replicate 60 0"

lemma length_zero_report [simp]: "length zero_report = 60"
  by (simp add: zero_report_def)

theorem sample_func_totals_witness:
  "\<exists>s' f. sample_func (\<lambda>i. quiet_env) zero_report empty_sink = Some (Inr s')
     \<and> flow_map s' (flow_key_of (load_hop_key zero_report)) = Some f \<and> ft_total_hops f = 1"
proof -
  have one: "length (read_metadata zero_report sizeof_hop_key) = 1"
    by (simp add: read_metadata_length sizeof_hop_key_def sizeof_int_hop_metadata_def)
  then obtain md where md: "read_metadata zero_report sizeof_hop_key = [md]"
    by (auto simp: length_Suc_conv)
  let ?k = "(load_hop_key zero_report)\<lparr>hop_index := 0\<rparr>"
  let ?f = "\<lparr>ft_hop_latency_threshold = 0, ft_hop_latency_delta = vFLOW_LATENCY_DELTA (se_thresholds quiet_env),
      ft_sink_time_threshold = 0, ft_sink_time_delta = vFLOW_SINK_TIME_DELTA (se_thresholds quiet_env),
      ft_total_hops = 0\<rparr>"
  obtain k1 f1 s1 where "sample_hop quiet_env md (?k, ?f, empty_sink) = Some (Inr (k1, f1, s1))"
    using quiet_sample_hop [of md ?k ?f] by (metis prod_cases3)
  then obtain s' where s': "sample_func (\<lambda>i. quiet_env) zero_report empty_sink = Some (Inr s')"
    by (simp add: sample_func_def md [unfolded sizeof_hop_key_def] sizeof_hop_key_def Let_def)
  from sample_func_totals [OF _ s'] s' show ?thesis
    by (auto simp: sizeof_hop_key_def sizeof_int_hop_metadata_def)
qed

text \<open>The extremes of a poll.  After the hops of one poll, the minimum is that of all their queue
  occupancies (16777215 if none is smaller), with the latency, switch and time of a hop that has
  it; the maximum is that of all but the first hop, whose occupancy is never considered.\<close>

theorem poll_extremes:
  assumes "st' = note_all hs (poll_begin st)"
  shows "qinfo_min_value st' = fold min (Qinfos hs) QINFO_START_MIN_VALUE
    \<and> qinfo_max_value st' = fold max (Qinfos (tl hs)) 0
    \<and> (qinfo_min_value st' \<noteq> QINFO_START_MIN_VALUE \<longrightarrow>
        (\<exists>(clk, ms, md) \<in> set hs. hop_Qinfo md = qinfo_min_value st'
          \<and> qinfo_hop_latency_min st' = hop_latency_of md
          \<and> qinfo_hop_switch_id_min st' = hop_switch md \<and> qinfo_clk_min st' = clk))"
proof -
  have b: "qinfo_min_value (poll_begin st) = QINFO_START_MIN_VALUE"
    "qinfo_max_value (poll_begin st) = 0" "perf_buffer_poll_start (poll_begin st)"
    by (simp_all add: poll_begin_def)
  have "qinfo_max_value st' = fold max (Qinfos (tl hs)) 0"
  proof (cases hs)
    case Nil
    then show ?thesis using assms b by (simp add: Qinfos_def)
  next
    case (Cons h hs')
    obtain clk ms md where h: "h = (clk, ms, md)" by (cases h) auto
    have "st' = note_all hs' (note_hop clk ms md (poll_begin st))"
      using assms Cons h by simp
    then show ?thesis
      using note_all_values(2) [OF note_hop_values(3)] note_hop_values(2) [of clk ms md "poll_begin st"]
        b Cons by simp
  qed
  moreover have "qinfo_min_value st' = fold min (Qinfos hs) QINFO_START_MIN_VALUE"
    using assms b by (simp add: note_all_values(1))
  ultimately show ?thesis
    using note_all_min_from [of hs "poll_begin st"] b assms by fastforce
qed

definition example_hop :: "u32 \<Rightarrow> time_t \<times> string \<times> int_hop_metadata" where
  "example_hop q = (7, [], \<lparr>md_switch_id = 0, ingress_port_id = 0, egress_port_id = 0,
     md_hop_latency = 0, queue_info = htonl q, md_ingress_time = 0, md_egress_time = 0\<rparr>)"

theorem poll_extremes_witness:
  "qinfo_max_value (note_all [example_hop 900, example_hop 5, example_hop 20] (poll_begin zero_stats)) = 20"
  using poll_extremes [OF refl, of "[example_hop 900, example_hop 5, example_hop 20]" zero_stats]
  by (simp add: Qinfos_def example_hop_def hop_Qinfo_def)

text \<open>What a poll publishes.  After a poll that delivered at least one hop, the message for the
  HPN client carries one of the two extremes: the minimum if only it was set or it was seen no
  later than the maximum, otherwise the maximum; the second message carries the other one, and
  only when both were set.  A poll that failed or delivered nothing publishes nothing.\<close>

theorem poll_publishes:
  assumes "st = note_all hs (poll_begin stb)"
  shows "let r' = poll_end err st r;
             has_min = qinfo_min_value st \<noteq> QINFO_START_MIN_VALUE;
             has_max = qinfo_max_value st \<noteq> 0;
             min_first = has_min \<and> (has_max \<longrightarrow> qinfo_clk_min st \<le> qinfo_clk_max st)
    in if err < 0 \<or> hs = [] then r' = r
       else hpnretcdone r'
        \<and> queue_occupancy (sHpnRetMsg r') = (if min_first then qinfo_min_value st else qinfo_max_value st)
        \<and> switch_id (sHpnRetMsg r') = (if min_first then qinfo_hop_switch_id_min st else qinfo_hop_switch_id_max st)
        \<and> (if has_min \<and> has_max
           then queue_occupancy (sHpnRetMsg2 r') = (if min_first then qinfo_max_value st else qinfo_min_value st)
             \<and> pts (sHpnRetMsg2 r') = Some (if min_first then Qinfo_Ms_Ctime_Buf_Max else Qinfo_Ms_Ctime_Buf_Min)
           else sHpnRetMsg2 r' = sHpnRetMsg2 r)"
proof (cases hs)
  case Nil
  then show ?thesis using assms by (simp add: Let_def poll_end_def poll_begin_def)
next
  case (Cons h hs')
  then have "\<not> perf_buffer_poll_start st"
    using note_all_values(3) [OF note_hop_values(3)] assms by (cases h) simp
  then show ?thesis
    using Cons by (simp add: poll_end_def Let_def publish_min_first_def publish_max_first_def
        publish_min_only_def publish_max_only_def)
qed

end
