(* ===== verification/Congestion_Path.thy ===== *)
theory Congestion_Path
  imports Peer_Dispatch Int_Sink
begin

text \<open>
  From the switch to \<open>tc\<close> (\<open>src/userspace/user_dtn.c\<close>): the components of the pacing loop put one
  after the other, as the threads of the two DTNs run them without Kafka.  On the destination
  \<open>sample_func\<close> sees an INT report, the hop-delay timer it armed fires, and
  \<open>fDoRunSendMessageToPeer\<close> empties the queue; on the source \<open>fDoRunGetMessageFromPeer\<close> accepts a
  connection for each message, since the sender opens one per message.
\<close>

section \<open>The composition\<close>

text \<open>The hop-delay timer fires and its handler posts at once.\<close>

definition alarm_fires :: "string \<Rightarrow> string \<Rightarrow> detector \<Rightarrow> detector option" where
  "alarm_fires ctime_buf phase d =
    (if hop_armed (tmr d)
     then (case qOCC_Hop_TimerID_Handler ctime_buf phase (d\<lparr>tmr := (tmr d)\<lparr>hop_armed := False\<rparr>\<rparr>) of
             Inl e \<Rightarrow> None | Inr (d', ws) \<Rightarrow> proceed_all ws d')
     else None)"

text \<open>Passes of the sender thread whose system calls succeed.\<close>

fun sender_passes :: "int \<Rightarrow> nat \<Rightarrow> msg_queue \<times> sender \<Rightarrow> (msg_queue \<times> sender) option" where
  "sender_passes dbg 0 qs = Some qs"
| "sender_passes dbg (Suc n) qs =
    (case sender_pass dbg 0 0 0 qs of None \<Rightarrow> None | Some qs' \<Rightarrow> sender_passes dbg n qs')"

text \<open>The source's accept loop over connections of one peer that carry one message each; \<open>arrive\<close>
  cuts the bytes into the pieces in which they arrive.\<close>

fun connections ::
  "(byte list \<Rightarrow> sys_read list) \<Rightarrow> (nat \<Rightarrow> time_t) \<Rightarrow> u32 \<Rightarrow> (nat \<Rightarrow> pace_env) \<Rightarrow> byte list \<Rightarrow> byte list \<Rightarrow>
   PeerMsg list \<Rightarrow> source \<Rightarrow> c_fault + source" where
  "connections arrive clk peer envs junk buf [] s = Inr s"
| "connections arrive clk peer envs junk buf (w # ws) s =
    bindE (accept_connection False (clk 0) (Some peer) (\<lambda>i. envs 0) buf
            (arrive (encode_msg junk w) @ [Read_Eof]) s)
      (connections arrive (\<lambda>i. clk (Suc i)) peer (\<lambda>i. envs (Suc i)) junk buf ws)"

section \<open>The detector\<close>

definition congested :: "thresholds \<Rightarrow> int_hop_metadata \<Rightarrow> bool" where
  "congested th md \<longleftrightarrow> vHOP_LATENCY_DELTA th < hop_latency_of md \<and> vQUEUE_OCCUPANCY_DELTA th < hop_Qinfo md"

text \<open>A destination that waits for a complaint: nothing queued, no alarm pending, the gate open, and a
  slot for the source of the flow.\<close>

definition quiet_sink :: "u32 \<Rightarrow> sink \<Rightarrow> bool" where
  "quiet_sink src s \<longleftrightarrow> stores_ok (sdet s) \<and> contents (peerq (sdet s)) = []
     \<and> \<not> vq_TimerIsSet (tmr (sdet s)) \<and> vCanStartEvaluationTimer (tmr (sdet s)) \<and> tables_ok (stables s)
     \<and> (src \<in> set (sources (stables s)) \<or> length (sources (stables s)) < MAX_NUM_IP_ATTACHED)"

lemma quiet_not_full: "quiet_sink src s \<Longrightarrow> \<not> q_full (peerq (sdet s))"
  using length_contents [of "peerq (sdet s)"]
  by (simp add: quiet_sink_def stores_ok_def q_full_pending SMSGS_BUFFER_SIZE_def)

lemma vQinfo_note_hop [simp]: "vQinfoUserValue (note_hop clk ms md st) = hop_Qinfo md"
  by (simp add: note_hop_def)

lemma hop_alarm_congested:
  assumes "congested (se_thresholds env) md"
  shows "hop_alarm env key md s = Some (s\<lparr>stats := note_hop (se_clk env) (se_ms_ctime env) md (stats s),
    sdet := (sdet s)\<lparr>tmr := EvaluateQOcc_and_HopDelay (se_settime env) key (hop_Qinfo md)
      (hop_latency_of md) (tmr (sdet s))\<rparr>\<rparr>)"
  using assms by (simp add: hop_alarm_def evaluate_hop_def congested_def Let_def)

lemma attach_src_room:
  assumes "tables_ok t" "src \<noteq> 0"
    and "src \<in> set (sources t) \<or> length (sources t) < MAX_NUM_IP_ATTACHED"
  obtains t' where "attach_src clk src t = Inr t'" "tables_ok t'" "src \<in> set (sources t')"
    "src \<in> set (sources t) \<Longrightarrow> \<not> new_traffic t'"
proof -
  have k: "src \<in> sip_addr ` set (aSrc_Dtn_IPs t) \<longleftrightarrow> src \<in> set (sources t)"
    using assms(2) by (simp add: sources_def set_live_keys)
  have "attach_src clk src t \<noteq> Inl e" for e
    using attach_src_Inl_iff [OF assms(1), of clk src e] assms(3) k by auto
  then obtain t' where "attach_src clk src t = Inr t'" by (cases "attach_src clk src t") auto
  with that attach_src_Inr [OF assms(1) this] assms(2) k show ?thesis by simp
qed

text \<open>A further hop of the report changes neither timers nor queue.\<close>

definition source_known :: "u32 \<Rightarrow> sink \<Rightarrow> bool" where
  "source_known src s \<longleftrightarrow> tables_ok (stables s) \<and> src \<in> set (sources (stables s))"

lemma hop_source_known:
  assumes "source_known (ntohl (fk_src_ip key)) s" "ntohl (fk_src_ip key) \<noteq> 0"
  obtains s' where "hop_source env key s = Some (Inr s')" "sdet s' = sdet s"
    "source_known (ntohl (fk_src_ip key)) s'"
proof -
  obtain t where "attach_src (se_clk env) (ntohl (fk_src_ip key)) (stables s) = Inr t"
    "tables_ok t" "ntohl (fk_src_ip key) \<in> set (sources t)" "\<not> new_traffic t"
    using attach_src_room [of "stables s" "ntohl (fk_src_ip key)" "se_clk env"] assms
    by (metis source_known_def)
  then show ?thesis using that by (simp add: hop_source_def Let_def source_known_def)
qed

text \<open>Hops that change neither timers nor queue: further congested ones while the alarm is set, and
  relieved ones after the reset message.\<close>

definition relieved :: "bool \<Rightarrow> thresholds \<Rightarrow> int_hop_metadata \<Rightarrow> bool" where
  "relieved use th md \<longleftrightarrow> \<not> congested th md \<and> \<not> (use \<and> vQUEUE_OCCUPANCY_DELTA th < hop_Qinfo md)"

definition calm_hop :: "sample_env \<Rightarrow> int_hop_metadata \<Rightarrow> timers \<Rightarrow> bool" where
  "calm_hop env md t \<longleftrightarrow> (congested (se_thresholds env) md \<and> vq_TimerIsSet t) \<or>
     (relieved (se_use_retransmission env) (se_thresholds env) md \<and> \<not> vq_TimerIsSet t \<and> \<not> vSentPacingOver t)"

lemma hop_alarm_calm:
  assumes "calm_hop env md (tmr (sdet s))"
  shows "hop_alarm env key md s = Some (s\<lparr>stats := note_hop (se_clk env) (se_ms_ctime env) md (stats s)\<rparr>)"
  using assms
  by (auto simp: calm_hop_def hop_alarm_congested EvaluateQOcc_and_HopDelay_def relieved_def congested_def
      hop_alarm_def evaluate_hop_def low_disable_def Let_def)

lemma further_hop:
  assumes "calm_hop env md (tmr (sdet s))"
    and "source_known (ntohl (fk_src_ip key)) s" "ntohl (fk_src_ip key) \<noteq> 0"
  obtains f' s' where "sample_hop env md (key, f, s) = Some (Inr (key\<lparr>hop_index := hop_index key + 1\<rparr>, f', s'))"
    "sdet s' = sdet s" "source_known (ntohl (fk_src_ip key)) s'"
proof -
  let ?s1 = "s\<lparr>stats := note_hop (se_clk env) (se_ms_ctime env) md (stats s)\<rparr>"
  have a: "hop_alarm env key md s = Some ?s1" by (rule hop_alarm_calm [OF assms(1)])
  obtain f1 s2 where m: "hop_maps env key md (f, ?s1) = (f1, s2)" by fastforce
  from hop_maps_frame [OF m] assms(2) have k: "source_known (ntohl (fk_src_ip key)) s2" "sdet s2 = sdet s"
    by (simp_all add: source_known_def)
  obtain s3 where "hop_source env key s2 = Some (Inr s3)" "sdet s3 = sdet s2"
    "source_known (ntohl (fk_src_ip key)) s3"
    using hop_source_known [OF k(1) assms(3)] by metis
  with a m k that show ?thesis by (simp add: sample_hop_def)
qed

lemma further_hops:
  "\<forall>i. \<forall>md \<in> set mds. calm_hop (envs i) md (tmr (sdet s)) \<Longrightarrow>
   source_known (ntohl (fk_src_ip key)) s \<Longrightarrow> ntohl (fk_src_ip key) \<noteq> 0 \<Longrightarrow>
   \<exists>key' f' s'. sample_hops envs mds (key, f, s) = Some (Inr (key', f', s')) \<and> sdet s' = sdet s
     \<and> source_known (ntohl (fk_src_ip key)) s'"
proof (induction mds arbitrary: envs key f s)
  case (Cons md mds)
  have c: "calm_hop (envs 0) md (tmr (sdet s))" using Cons.prems(1) by simp
  obtain f1 s1 where h: "sample_hop (envs 0) md (key, f, s) =
      Some (Inr (key\<lparr>hop_index := hop_index key + 1\<rparr>, f1, s1))" "sdet s1 = sdet s"
    "source_known (ntohl (fk_src_ip key)) s1"
    using further_hop [OF c Cons.prems(2,3)] by metis
  from Cons.IH [of "\<lambda>i. envs (Suc i)" s1 "key\<lparr>hop_index := hop_index key + 1\<rparr>" f1] h Cons.prems
  show ?case by simp
qed simp

text \<open>The first hop arms the timer with its readings and announces a source not seen before.\<close>

definition armed_for :: "hop_key \<Rightarrow> int_hop_metadata \<Rightarrow> timers \<Rightarrow> bool" where
  "armed_for key md t \<longleftrightarrow> hop_armed t \<and> vq_TimerIsSet t \<and> vCanStartEvaluationTimer t
     \<and> sqOCC_TimerID_Data t = \<lparr>td_src = ntohl (fk_src_ip key), td_dst = ntohl (fk_dst_ip key),
         td_vQinfo = hop_Qinfo md, td_vHopDelay = hop_latency_of md\<rparr>"

definition start_or_nothing :: "hop_key \<Rightarrow> msg_queue \<Rightarrow> msg_queue \<Rightarrow> bool" where
  "start_or_nothing key q q' \<longleftrightarrow> q' = q \<or>
     post (Post_Start (fk_vlan_id key) (ntohl (fk_src_ip key)) (ntohl (fk_dst_ip key))) q = Some q'"

lemma first_source:
  assumes "tables_ok (stables s)" "ntohl (fk_src_ip key) \<noteq> 0"
    and "ntohl (fk_src_ip key) \<in> set (sources (stables s)) \<or> length (sources (stables s)) < MAX_NUM_IP_ATTACHED"
    and "\<not> q_full (peerq (sdet s))"
  obtains s' where "hop_source env key s = Some (Inr s')" "tmr (sdet s') = tmr (sdet s)"
    "acts (sdet s') = acts (sdet s)" "start_or_nothing key (peerq (sdet s)) (peerq (sdet s'))"
    "source_known (ntohl (fk_src_ip key)) s'"
proof -
  obtain t where t: "attach_src (se_clk env) (ntohl (fk_src_ip key)) (stables s) = Inr t"
    "tables_ok t" "ntohl (fk_src_ip key) \<in> set (sources t)"
    using attach_src_room [OF assms(1-3)] by metis
  obtain q where q: "post_start (fk_vlan_id key) (ntohl (fk_src_ip key)) (ntohl (fk_dst_ip key)) (peerq (sdet s)) = Some q"
    using assms(4) by (simp add: post_start_def Let_def)
  have "tables_ok (t\<lparr>new_traffic := False, vIamADestDtn := True\<rparr>)"
    "sources (t\<lparr>new_traffic := False, vIamADestDtn := True\<rparr>) = sources t"
    using t(2) by (simp_all add: tables_ok_def sources_def)
  with t q that show ?thesis
    by (cases "new_traffic t") (simp_all add: hop_source_def Let_def source_known_def start_or_nothing_def)
qed

text \<open>The rest of the first hop, and of the report, after what its values did to the timers.\<close>

lemma hop_after_alarm:
  assumes "hop_alarm env key md s = Some s1" "\<not> q_full (peerq (sdet s1))"
    and "quiet_sink (ntohl (fk_src_ip key)) s" "ntohl (fk_src_ip key) \<noteq> 0"
  obtains f' s' where "sample_hop env md (key, f, s) = Some (Inr (key\<lparr>hop_index := hop_index key + 1\<rparr>, f', s'))"
    "tmr (sdet s') = tmr (sdet s1)" "acts (sdet s') = acts (sdet s1)"
    "start_or_nothing key (peerq (sdet s1)) (peerq (sdet s'))" "source_known (ntohl (fk_src_ip key)) s'"
proof -
  obtain f1 s2 where m: "hop_maps env key md (f, s1) = (f1, s2)" by fastforce
  from hop_maps_frame [OF m] hop_alarm_frame [OF assms(1)]
  have k: "stables s2 = stables s" "sdet s2 = sdet s1" by simp_all
  have r: "tables_ok (stables s2)" "\<not> q_full (peerq (sdet s2))"
    "ntohl (fk_src_ip key) \<in> set (sources (stables s2)) \<or> length (sources (stables s2)) < MAX_NUM_IP_ATTACHED"
    using assms(2,3) k by (simp_all add: quiet_sink_def)
  obtain s3 where "hop_source env key s2 = Some (Inr s3)" "tmr (sdet s3) = tmr (sdet s2)"
    "acts (sdet s3) = acts (sdet s2)" "start_or_nothing key (peerq (sdet s2)) (peerq (sdet s3))"
    "source_known (ntohl (fk_src_ip key)) s3"
    by (rule first_source [OF r(1) assms(4) r(3,2)])
  with assms(1) m k that show ?thesis by (simp add: sample_hop_def)
qed

lemma sample_func_runs:
  assumes "read_metadata bs sizeof_hop_key = md # mds"
    and "hop_alarm (envs 0) ((load_hop_key bs)\<lparr>hop_index := 0\<rparr>) md s = Some s1" "\<not> q_full (peerq (sdet s1))"
    and "\<forall>i. \<forall>h \<in> set mds. calm_hop (envs i) h (tmr (sdet s1))"
    and "quiet_sink (ntohl (fk_src_ip (load_hop_key bs))) s" "ntohl (fk_src_ip (load_hop_key bs)) \<noteq> 0"
  obtains s' where "sample_func envs bs s = Some (Inr s')" "tmr (sdet s') = tmr (sdet s1)"
    "acts (sdet s') = acts (sdet s1)" "start_or_nothing (load_hop_key bs) (peerq (sdet s1)) (peerq (sdet s'))"
    "source_known (ntohl (fk_src_ip (load_hop_key bs))) s'"
proof -
  let ?k = "(load_hop_key bs)\<lparr>hop_index := 0\<rparr>"
  have l: "sizeof_hop_key \<le> length bs"
    using assms(1) by (subst (asm) read_metadata.simps) (simp split: if_splits)
  define f where "f = \<lparr>ft_hop_latency_threshold = 0, ft_hop_latency_delta = vFLOW_LATENCY_DELTA (se_thresholds (envs 0)),
    ft_sink_time_threshold = 0, ft_sink_time_delta = vFLOW_SINK_TIME_DELTA (se_thresholds (envs 0)),
    ft_total_hops = (0 :: u32)\<rparr>"
  have s: "quiet_sink (ntohl (fk_src_ip ?k)) s" "ntohl (fk_src_ip ?k) \<noteq> 0" using assms(5,6) by simp_all
  obtain f1 s2 where h: "sample_hop (envs 0) md (?k, f, s) = Some (Inr (?k\<lparr>hop_index := hop_index ?k + 1\<rparr>, f1, s2))"
    "tmr (sdet s2) = tmr (sdet s1)" "acts (sdet s2) = acts (sdet s1)"
    "start_or_nothing ?k (peerq (sdet s1)) (peerq (sdet s2))" "source_known (ntohl (fk_src_ip ?k)) s2"
    by (rule hop_after_alarm [OF assms(2,3) s])
  obtain k2 f2 s3 where r: "sample_hops (\<lambda>i. envs (Suc i)) mds (?k\<lparr>hop_index := hop_index ?k + 1\<rparr>, f1, s2) =
      Some (Inr (k2, f2, s3))" "sdet s3 = sdet s2" "source_known (ntohl (fk_src_ip (load_hop_key bs))) s3"
    using further_hops [of mds "\<lambda>i. envs (Suc i)" s2 "?k\<lparr>hop_index := hop_index ?k + 1\<rparr>" f1] h assms(4,6)
    by auto
  define s4 where "s4 = s3\<lparr>flow_map := (flow_map s3)(flow_key_of k2 \<mapsto> f2\<lparr>ft_total_hops := hop_index k2\<rparr>),
    counter_map := (if counter_map s3 (flow_key_of k2) = None
      then (counter_map s3)(flow_key_of k2 \<mapsto> (0, 0)) else counter_map s3)\<rparr>"
  have "sample_func envs bs s = Some (Inr s4)"
    using h(1) r(1) l assms(1) by (simp add: sample_func_def Let_def f_def s4_def)
  then show ?thesis using that [of s4] h r(2,3) by (simp add: s4_def start_or_nothing_def source_known_def)
qed

lemma sample_func_arms:
  assumes "read_metadata bs sizeof_hop_key = md # mds"
    and "\<forall>i. \<forall>h \<in> set (md # mds). congested (se_thresholds (envs i)) h" "se_settime (envs 0) = 0"
    and "quiet_sink (ntohl (fk_src_ip (load_hop_key bs))) s" "ntohl (fk_src_ip (load_hop_key bs)) \<noteq> 0"
  obtains s' where "sample_func envs bs s = Some (Inr s')"
    "armed_for (load_hop_key bs) md (tmr (sdet s'))" "acts (sdet s') = acts (sdet s)"
    "start_or_nothing (load_hop_key bs) (peerq (sdet s)) (peerq (sdet s'))"
    "source_known (ntohl (fk_src_ip (load_hop_key bs))) s'"
proof -
  let ?k = "(load_hop_key bs)\<lparr>hop_index := 0\<rparr>"
  let ?s1 = "s\<lparr>stats := note_hop (se_clk (envs 0)) (se_ms_ctime (envs 0)) md (stats s),
    sdet := (sdet s)\<lparr>tmr := EvaluateQOcc_and_HopDelay 0 ?k (hop_Qinfo md) (hop_latency_of md) (tmr (sdet s))\<rparr>\<rparr>"
  have a: "hop_alarm (envs 0) ?k md s = Some ?s1"
    using hop_alarm_congested [of "envs 0" md ?k s] assms(2,3) by simp
  have t: "armed_for (load_hop_key bs) md (tmr (sdet ?s1))"
    using assms(4) by (simp add: armed_for_def quiet_sink_def EvaluateQOcc_and_HopDelay_def)
  then have c: "\<forall>i. \<forall>h \<in> set mds. calm_hop (envs i) h (tmr (sdet ?s1))"
    using assms(2) by (simp add: calm_hop_def armed_for_def)
  have q: "\<not> q_full (peerq (sdet ?s1))" using quiet_not_full [OF assms(4)] by simp
  obtain s' where "sample_func envs bs s = Some (Inr s')" "tmr (sdet s') = tmr (sdet ?s1)"
    "acts (sdet s') = acts (sdet ?s1)" "start_or_nothing (load_hop_key bs) (peerq (sdet ?s1)) (peerq (sdet s'))"
    "source_known (ntohl (fk_src_ip (load_hop_key bs))) s'"
    by (rule sample_func_runs [OF assms(1) a q c assms(4,5)])
  with t that show ?thesis by simp
qed

text \<open>The queue after the alarm: the start-of-traffic message, if any, and the complaint.\<close>

definition message_to :: "u32 \<Rightarrow> u32 \<Rightarrow> u32 \<Rightarrow> PeerMsg \<Rightarrow> bool" where
  "message_to kind src dst m \<longleftrightarrow> ntohl (msg_no m) = kind \<and> src_ip_addr m = src \<and> dst_ip_addr m = dst"

lemma start_or_nothing_contents:
  assumes "queue_inv q" "start_or_nothing key q q'"
  obtains ms where "queue_inv q'" "contents q' = contents q @ ms" "length ms \<le> 1"
    "\<forall>m \<in> set ms. message_to TEST_MSG (ntohl (fk_src_ip key)) (ntohl (fk_dst_ip key)) m"
proof (cases "q' = q")
  case True
  with assms(1) that [of "[]"] show ?thesis by simp
next
  case False
  let ?p = "Post_Start (fk_vlan_id key) (ntohl (fk_src_ip key)) (ntohl (fk_dst_ip key))"
  have p: "post ?p q = Some q'" using assms(2) False by (simp add: start_or_nothing_def)
  from post_step [OF assms(1) p] start_fields [OF assms(1) p] that [of "[posted_msg ?p q]"]
  show ?thesis by (simp add: message_to_def)
qed

lemma alarm_complains:
  assumes "armed_for key md (tmr d)" "stores_ok d" "length (contents (peerq d)) \<le> 1"
    and "length ctime + length phase < 1000"
  obtains d' m where "alarm_fires ctime phase d = Some d'" "stores_ok d'"
    "\<not> vq_TimerIsSet (tmr d')" "vSentPacingOver (tmr d')"
    "contents (peerq d') = contents (peerq d) @ [m]"
    "message_to QINFO_MSG (ntohl (fk_src_ip key)) (ntohl (fk_dst_ip key)) m"
    "ntohl (vHopDelay m) = hop_latency_of md"
proof -
  let ?d = "d\<lparr>tmr := (tmr d)\<lparr>hop_armed := False\<rparr>\<rparr>"
  let ?p = "Post_Qinfo_HopD (hop_Qinfo md) (hop_latency_of md) (ntohl (fk_src_ip key)) (ntohl (fk_dst_ip key))"
  have q: "queue_inv (peerq d)" using assms(2) by (simp add: stores_ok_def)
  obtain l where h: "qOCC_Hop_TimerID_Handler ctime phase ?d =
      Inr (?d\<lparr>acts := l, tmr := (tmr ?d)\<lparr>vq_TimerIsSet := False\<rparr>\<rparr>, [W_Qinfo_HopD])"
    using handler_total(1) [of ?d ctime phase] assms(1,2,4) by (auto simp: armed_for_def stores_ok_def)
  let ?e = "?d\<lparr>acts := l, tmr := (tmr ?d)\<lparr>vq_TimerIsSet := False\<rparr>\<rparr>"
  have w: "wait_post 0 W_Qinfo_HopD (sqOCC_TimerID_Data (tmr ?e)) = ?p"
    using assms(1) by (simp add: armed_for_def)
  have "post ?p (peerq d) \<noteq> None"
    using peer_q.enq_None [OF q, of ?p] assms(3) by (simp add: SMSGS_BUFFER_SIZE_def)
  then obtain d' where d': "proceed False 0 0 W_Qinfo_HopD ?e = Some d'"
    using proceed_post(1) [of False 0 0 W_Qinfo_HopD ?e] unfolding w by auto
  have p: "post ?p (peerq d) = Some (peerq d')" "acts d' = l"
    using proceed_post(2) [OF d'] unfolding w by simp_all
  have f: "\<not> vq_TimerIsSet (tmr d')" "vSentPacingOver (tmr d')"
    using d' by (auto simp: Let_def fStartEvaluationTimer_def split: option.splits)
  have "stores_ok ?e" using handler_stores [OF _ disjI1 [OF h]] assms(2) by (simp add: stores_ok_def)
  then have "stores_ok d'" using post_step [OF q p(1)] p(2) by (simp add: stores_ok_def)
  moreover have "alarm_fires ctime phase d = Some d'"
    using assms(1) h d' by (simp add: alarm_fires_def armed_for_def del: proceed.simps)
  ultimately show ?thesis
    using f that [of d' "posted_msg ?p (peerq d)"] post_step [OF q p(1)] qinfo_hopd_fields [OF q p(1)]
    by (simp add: message_to_def)
qed

section \<open>The sender and the source\<close>

lemma sender_drains:
  "queue_inv q \<Longrightarrow> src \<noteq> 0 \<Longrightarrow> \<forall>m \<in> set (contents q). src_ip_addr m = src \<Longrightarrow>
   \<exists>q' s'. sender_passes dbg (length (contents q)) (q, s) = Some (q', s') \<and> queue_inv q' \<and> contents q' = []
     \<and> wire s' = wire s @ map (\<lambda>m. (dotted src, on_wire m)) (contents q)"
proof (induction "contents q" arbitrary: q s)
  case Nil
  then show ?case by (metis append_Nil2 list.map(1) list.size(3) sender_passes.simps(1))
next
  case (Cons m ms)
  obtain q1 where t: "take_msg q = Some (m, q1)" "queue_inv q1" "contents q1 = ms"
    using peer_q.deq_None [OF Cons.prems(1)] Cons.hyps(2) take_step [OF Cons.prems(1)]
    by (cases "take_msg q") fastforce+
  have m: "src_ip_addr m = src" using Cons.prems(3) Cons.hyps(2) [symmetric] by simp
  let ?s = "send_msg dbg 0 0 0 m s"
  have w: "wire ?s = wire s @ [(dotted src, on_wire m)]"
    using send_msg_cases(1) [of 0 m 0 dbg 0 s] m Cons.prems(2) by (simp add: on_wire_def)
  have p: "sender_pass dbg 0 0 0 (q, s) = Some (q1, ?s)" using t(1) by (simp add: sender_pass_def)
  have "\<forall>m \<in> set (contents q1). src_ip_addr m = src"
    using Cons.prems(3) Cons.hyps(2) [symmetric] t(3) by simp
  from Cons.hyps(1) [OF t(3) [symmetric] t(2) Cons.prems(2) this, of ?s] p w t(3) Cons.hyps(2) [symmetric]
  show ?case by auto
qed

definition cuts_bytes :: "(byte list \<Rightarrow> sys_read list) \<Rightarrow> bool" where
  "cuts_bytes arrive \<longleftrightarrow> (\<forall>bs. clean (arrive bs) \<and> bytes_of (arrive bs) = bs)"

lemma starts_accepted:
  "\<forall>m \<in> set ms. ntohl (msg_no m) = TEST_MSG \<Longrightarrow> listens peer (src_tables s) \<Longrightarrow> peer \<noteq> 0 \<Longrightarrow>
   cuts_bytes arrive \<Longrightarrow> length junk = 28 \<Longrightarrow> length buf = sizeof_PeerMsg \<Longrightarrow>
   \<exists>t. listens peer t \<and> connections arrive clk peer envs junk buf (ms @ ws) s =
     connections arrive (\<lambda>i. clk (i + length ms)) peer (\<lambda>i. envs (i + length ms)) junk buf ws (s\<lparr>src_tables := t\<rparr>)"
proof (induction ms arbitrary: clk envs s)
  case Nil
  then show ?case by (intro exI [of _ "src_tables s"]) simp
next
  case (Cons m ms)
  have c: "clean (arrive (encode_msg junk m))" "bytes_of (arrive (encode_msg junk m)) = encode_msg junk m"
    using Cons.prems(4) by (simp_all add: cuts_bytes_def)
  have k: "ntohl (msg_no m) = TEST_MSG" using Cons.prems(1) by simp
  obtain t where t: "listens peer t" "accept_connection False (clk 0) (Some peer) (\<lambda>i. envs 0) buf
      (arrive (encode_msg junk m) @ [Read_Eof]) s = Inr (s\<lparr>src_tables := t\<rparr>)"
    by (rule start_connection [OF Cons.prems(2,3) k c Cons.prems(5,6)])
  from Cons.IH [of "s\<lparr>src_tables := t\<rparr>" "\<lambda>i. clk (Suc i)" "\<lambda>i. envs (Suc i)"] Cons.prems t
  show ?case by simp
qed

lemma source_answers:
  assumes "\<forall>m \<in> set ms. ntohl (msg_no m) = TEST_MSG"
    and "ntohl (msg_no m) = QINFO_MSG" "ntohl (vHopDelay m) \<noteq> 0" "ntohl (dst_ip_addr m) = peer"
    and "listens peer (src_tables s)" "peer \<noteq> 0" "\<forall>i. paces_now (envs i)"
    and "rp_set (shm (src_pacer s)) \<in> {0, REGULAR_PACING_FLAG_SET}"
    and "cuts_bytes arrive" "length junk = 28" "length buf = sizeof_PeerMsg"
  shows "\<exists>s' c. connections arrive clk peer envs junk buf (ms @ [m]) s = Inr s'
    \<and> system_cmds (trace (src_pacer s')) = system_cmds (trace (src_pacer s)) @ [c]
    \<and> describes c (shm (src_pacer s'))"
proof -
  obtain t where t: "listens peer t" "connections arrive clk peer envs junk buf (ms @ [m]) s =
      connections arrive (\<lambda>i. clk (i + length ms)) peer (\<lambda>i. envs (i + length ms)) junk buf [m] (s\<lparr>src_tables := t\<rparr>)"
    using starts_accepted [OF assms(1,5,6,9-11), of clk envs "[m]"] by blast
  have e: "paces_now (envs (length ms))" using assms(7) by simp
  have c: "clean (arrive (encode_msg junk m))" "bytes_of (arrive (encode_msg junk m)) = encode_msg junk m"
    using assms(9) by (simp_all add: cuts_bytes_def)
  have l: "listens peer (src_tables (s\<lparr>src_tables := t\<rparr>))"
    "rp_set (shm (src_pacer (s\<lparr>src_tables := t\<rparr>))) \<in> {0, REGULAR_PACING_FLAG_SET}"
    using t(1) assms(8) by simp_all
  from congestion_connection [where envs = "\<lambda>i. envs (length ms)", OF l(1) e assms(6) assms(2-4) l(2) c assms(10,11),
      of "clk (length ms)"] t(2)
  show ?thesis by auto
qed

lemma source_releases:
  assumes "\<forall>m \<in> set ms. ntohl (msg_no m) = TEST_MSG"
    and "ntohl (msg_no m) = RESET_PACING_MSG" "ntohl (dst_ip_addr m) = peer"
    and "listens peer (src_tables s)" "peer \<noteq> 0" "\<forall>i. paces_now (envs i)"
    and "rp_set (shm (src_pacer s)) = REGULAR_PACING_FLAG_SET"
    and "cuts_bytes arrive" "length junk = 28" "length buf = sizeof_PeerMsg"
  shows "\<exists>s'. connections arrive clk peer envs junk buf (m # ms) s = Inr s'
    \<and> system_cmds (trace (src_pacer s')) = system_cmds (trace (src_pacer s)) @ [Tc_Change_Nopacing]
    \<and> rp_set (shm (src_pacer s')) = NOPACING_FLAG_SET"
proof -
  have e: "paces_now (envs 0)" using assms(6) by simp
  have c: "clean (arrive (encode_msg junk m))" "bytes_of (arrive (encode_msg junk m)) = encode_msg junk m"
    using assms(8) by (simp_all add: cuts_bytes_def)
  obtain s1 where s1: "accept_connection False (clk 0) (Some peer) (\<lambda>i. envs 0) buf
      (arrive (encode_msg junk m) @ [Read_Eof]) s = Inr s1"
    "listens peer (src_tables s1)" "rp_set (shm (src_pacer s1)) = NOPACING_FLAG_SET"
    "system_cmds (trace (src_pacer s1)) = system_cmds (trace (src_pacer s)) @ [Tc_Change_Nopacing]"
    by (rule reset_connection [where envs = "\<lambda>i. envs 0", OF assms(4) e assms(5,2,3,7) c assms(9,10)])
  from starts_accepted [OF assms(1) s1(2) assms(5,8-10), of "\<lambda>i. clk (Suc i)" "\<lambda>i. envs (Suc i)" "[]"] s1
  show ?thesis by auto
qed

section \<open>The destination from report to report\<close>

text \<open>A destination that has complained and waits for the congestion to end.\<close>

definition awaits_relief :: "u32 \<Rightarrow> sink \<Rightarrow> bool" where
  "awaits_relief src s \<longleftrightarrow> quiet_sink src s \<and> vSentPacingOver (tmr (sdet s))"

definition all_to :: "u32 \<Rightarrow> u32 \<Rightarrow> PeerMsg list \<Rightarrow> bool" where
  "all_to src dst ms \<longleftrightarrow> (\<forall>m \<in> set ms. message_to TEST_MSG src dst m)"

lemma destination_complains:
  assumes "read_metadata bs sizeof_hop_key = md # mds"
    and "\<forall>i. \<forall>h \<in> set (md # mds). congested (se_thresholds (envs i)) h" "se_settime (envs 0) = 0"
    and r: "ntohl (fk_src_ip (load_hop_key bs)) = src" "ntohl (fk_dst_ip (load_hop_key bs)) = dst"
    and "src \<noteq> 0" "quiet_sink src s" "length ctime + length phase < 1000"
  obtains s1 d ms m where "sample_func envs bs s = Some (Inr s1)" "alarm_fires ctime phase (sdet s1) = Some d"
    "contents (peerq d) = ms @ [m]" "all_to src dst ms" "message_to QINFO_MSG src dst m" "ntohl (vHopDelay m) \<noteq> 0"
    "stores_ok d" "\<not> vq_TimerIsSet (tmr d)" "vSentPacingOver (tmr d)" "source_known src s1"
proof -
  obtain s1 where s1: "sample_func envs bs s = Some (Inr s1)"
    "armed_for (load_hop_key bs) md (tmr (sdet s1))" "acts (sdet s1) = acts (sdet s)"
    "start_or_nothing (load_hop_key bs) (peerq (sdet s)) (peerq (sdet s1))" "source_known src s1"
    using sample_func_arms [OF assms(1-3), unfolded r, OF assms(7,6)] .
  have i: "queue_inv (peerq (sdet s))" "contents (peerq (sdet s)) = []" "log_ok (acts (sdet s))"
    using assms(7) by (simp_all add: quiet_sink_def stores_ok_def)
  obtain ms where ms: "queue_inv (peerq (sdet s1))" "contents (peerq (sdet s1)) = contents (peerq (sdet s)) @ ms" "length ms \<le> 1"
    "\<forall>m \<in> set ms. message_to TEST_MSG src dst m"
    using start_or_nothing_contents [OF i(1) s1(4), unfolded r] .
  have ok: "stores_ok (sdet s1)" "length (contents (peerq (sdet s1))) \<le> 1"
    using ms i s1(3) by (simp_all add: stores_ok_def)
  obtain d m where d: "alarm_fires ctime phase (sdet s1) = Some d" "stores_ok d"
    "\<not> vq_TimerIsSet (tmr d)" "vSentPacingOver (tmr d)"
    "contents (peerq d) = contents (peerq (sdet s1)) @ [m]" "message_to QINFO_MSG src dst m"
    "ntohl (vHopDelay m) = hop_latency_of md"
    using alarm_complains [OF s1(2) ok assms(8), unfolded r] .
  have "hop_latency_of md \<noteq> 0" using assms(2) by (force simp: congested_def)
  with that s1(1,5) d ms(2,4) i(2) show ?thesis by (simp add: all_to_def)
qed

lemma destination_relents:
  assumes "read_metadata bs sizeof_hop_key = md # mds"
    and "\<forall>i. \<forall>h \<in> set (md # mds). relieved (se_use_retransmission (envs i)) (se_thresholds (envs i)) h"
    and r: "ntohl (fk_src_ip (load_hop_key bs)) = src" "ntohl (fk_dst_ip (load_hop_key bs)) = dst"
    and "src \<noteq> 0" "awaits_relief src s"
  obtains s1 ms m where "sample_func envs bs s = Some (Inr s1)"
    "contents (peerq (sdet s1)) = m # ms" "all_to src dst ms" "message_to RESET_PACING_MSG src dst m"
    "stores_ok (sdet s1)" "\<not> vq_TimerIsSet (tmr (sdet s1))" "vCanStartEvaluationTimer (tmr (sdet s1))"
    "\<not> vSentPacingOver (tmr (sdet s1))" "source_known src s1"
proof -
  let ?k = "(load_hop_key bs)\<lparr>hop_index := 0\<rparr>" and ?p = "Post_Reset (fk_src_ip (load_hop_key bs)) (fk_dst_ip (load_hop_key bs))"
  have a: "quiet_sink src s" "vSentPacingOver (tmr (sdet s))" using assms(6) by (simp_all add: awaits_relief_def)
  have i: "queue_inv (peerq (sdet s))" "contents (peerq (sdet s)) = []" "stores_ok (sdet s)"
    "\<not> vq_TimerIsSet (tmr (sdet s))" "vCanStartEvaluationTimer (tmr (sdet s))"
    using a(1) by (simp_all add: quiet_sink_def stores_ok_def)
  obtain q where q: "post ?p (peerq (sdet s)) = Some q"
    using quiet_not_full [OF a(1)] post_None_iff [of ?p] by (cases "post ?p (peerq (sdet s))") auto
  let ?s1 = "s\<lparr>stats := note_hop (se_clk (envs 0)) (se_ms_ctime (envs 0)) md (stats s),
    sdet := (sdet s)\<lparr>peerq := q, tmr := (tmr (sdet s))\<lparr>vSentPacingOver := False\<rparr>\<rparr>\<rparr>"
  have h: "hop_alarm (envs 0) ?k md s = Some ?s1"
    using assms(2) a(2) i q
    by (auto simp: hop_alarm_def evaluate_hop_def low_disable_def relieved_def congested_def Let_def)
  have c: "queue_inv q" "contents q = [posted_msg ?p (peerq (sdet s))]"
    using post_step [OF i(1) q] i(2) by simp_all
  have n: "\<not> q_full (peerq (sdet ?s1))"
    using c length_contents [of q] by (simp add: q_full_pending SMSGS_BUFFER_SIZE_def)
  have f: "\<forall>i. \<forall>h \<in> set mds. calm_hop (envs i) h (tmr (sdet ?s1))"
    using assms(2) i(4) by (simp add: calm_hop_def)
  obtain s1 where s1: "sample_func envs bs s = Some (Inr s1)" "tmr (sdet s1) = tmr (sdet ?s1)"
    "acts (sdet s1) = acts (sdet ?s1)" "start_or_nothing (load_hop_key bs) (peerq (sdet ?s1)) (peerq (sdet s1))"
    "source_known src s1"
    using sample_func_runs [where envs = envs, OF assms(1) h n f, unfolded r, OF a(1) assms(5)] .
  have n2: "start_or_nothing (load_hop_key bs) q (peerq (sdet s1))" using s1(4) by simp
  obtain ms where ms: "queue_inv (peerq (sdet s1))" "contents (peerq (sdet s1)) = contents q @ ms" "length ms \<le> 1"
    "\<forall>m \<in> set ms. message_to TEST_MSG src dst m"
    using start_or_nothing_contents [OF c(1) n2, unfolded r] .
  have "message_to RESET_PACING_MSG src dst (posted_msg ?p (peerq (sdet s)))"
    using reset_fields [OF i(1) q] r by (simp add: message_to_def)
  with that s1 ms c(2) i(3-5) show ?thesis by (simp add: all_to_def stores_ok_def)
qed

lemma sends_all:
  assumes "queue_inv q" "src \<noteq> 0" "\<forall>m \<in> set (contents q). src_ip_addr m = src"
  obtains q' sdr' where "sender_passes dbg (length (contents q)) (q, sdr) = Some (q', sdr')"
    "queue_inv q'" "contents q' = []" "wire sdr' = wire sdr @ map (Pair (dotted src)) (map on_wire (contents q))"
  using sender_drains [OF assms, of dbg sdr] by (auto simp: o_def)

lemma all_to_wire:
  "all_to src dst ms \<Longrightarrow> \<forall>m \<in> set (map on_wire ms). ntohl (msg_no m) = TEST_MSG"
  "all_to src dst ms \<Longrightarrow> \<forall>m \<in> set ms. src_ip_addr m = src"
  "message_to k src dst m \<Longrightarrow> ntohl (msg_no (on_wire m)) = k \<and> ntohl (dst_ip_addr (on_wire m)) = dst
     \<and> vHopDelay (on_wire m) = vHopDelay m \<and> src_ip_addr m = src"
  by (auto simp: all_to_def message_to_def on_wire_def)

section \<open>Properties\<close>

text \<open>C10: Congestion seen by a switch makes the source pace.  Whatever report of one or more hops, all
  above both thresholds, reaches a destination that waits for a complaint and has a slot for the
  flow's source, the callback goes through; the alarm it armed fires and queues a complaint; the
  sender empties the queue and dials only that source; when the evaluation timer has fired, the
  destination waits for the congestion to end; and if the source is tuning, has a measured bit
  rate and a slot for the destination, and its shared record says that pacing is not set or
  regular, then accepting these connections one after the other, in whatever pieces their bytes
  arrive, it runs exactly one \<open>tc\<close> command, which the shared record then describes.\<close>

theorem congestion_makes_source_pace:
  assumes "read_metadata bs sizeof_hop_key = md # mds"
    and "\<forall>i. \<forall>h \<in> set (md # mds). congested (se_thresholds (envs i)) h" "se_settime (envs 0) = 0"
    and "ntohl (fk_src_ip (load_hop_key bs)) = src" "ntohl (fk_dst_ip (load_hop_key bs)) = dst"
    and "src \<noteq> 0" "dst \<noteq> 0" "quiet_sink src s" "length ctime + length phase < 1000"
    and "listens dst (src_tables s0)" "\<forall>i. paces_now (penv i)"
    and "rp_set (shm (src_pacer s0)) \<in> {0, REGULAR_PACING_FLAG_SET}"
    and "cuts_bytes arrive" "length junk = 28" "length buf = sizeof_PeerMsg"
  shows "\<exists>s1 d q sdr' ws s'. sample_func envs bs s = Some (Inr s1)
    \<and> alarm_fires ctime phase (sdet s1) = Some d
    \<and> sender_passes dbg (length (contents (peerq d))) (peerq d, sdr) = Some (q, sdr')
    \<and> awaits_relief src (s1\<lparr>sdet := d\<lparr>peerq := q, tmr := qEvaluation_TimerID_Handler ((tmr d)\<lparr>eval_armed := False\<rparr>)\<rparr>\<rparr>)
    \<and> wire sdr' = wire sdr @ map (Pair (dotted src)) ws
    \<and> connections arrive clk dst penv junk buf ws s0 = Inr s'
    \<and> (\<exists>c. system_cmds (trace (src_pacer s')) = system_cmds (trace (src_pacer s0)) @ [c]
         \<and> describes c (shm (src_pacer s')))"
proof -
  obtain s1 d ms m where d: "sample_func envs bs s = Some (Inr s1)" "alarm_fires ctime phase (sdet s1) = Some d"
    "contents (peerq d) = ms @ [m]" "all_to src dst ms" "message_to QINFO_MSG src dst m" "ntohl (vHopDelay m) \<noteq> 0"
    "stores_ok d" "\<not> vq_TimerIsSet (tmr d)" "vSentPacingOver (tmr d)" "source_known src s1"
    by (rule destination_complains [OF assms(1-6,8,9)])
  have q: "queue_inv (peerq d)" "\<forall>m \<in> set (contents (peerq d)). src_ip_addr m = src"
    using d(3,7) all_to_wire(2) [OF d(4)] all_to_wire(3) [OF d(5)] by (auto simp: stores_ok_def)
  obtain q' sdr' where w: "sender_passes dbg (length (contents (peerq d))) (peerq d, sdr) = Some (q', sdr')"
    "queue_inv q'" "contents q' = []" "wire sdr' = wire sdr @ map (Pair (dotted src)) (map on_wire (contents (peerq d)))"
    by (rule sends_all [OF q(1) assms(6) q(2)])
  have a: "awaits_relief src (s1\<lparr>sdet := d\<lparr>peerq := q', tmr := qEvaluation_TimerID_Handler ((tmr d)\<lparr>eval_armed := False\<rparr>)\<rparr>\<rparr>)"
    using d(7-10) w(2,3)
    by (simp add: awaits_relief_def quiet_sink_def stores_ok_def source_known_def qEvaluation_TimerID_Handler_def)
  have m: "ntohl (msg_no (on_wire m)) = QINFO_MSG" "ntohl (vHopDelay (on_wire m)) \<noteq> 0"
    "ntohl (dst_ip_addr (on_wire m)) = dst"
    using all_to_wire(3) [OF d(5)] d(6) by simp_all
  have "map on_wire (contents (peerq d)) = map on_wire ms @ [on_wire m]" using d(3) by simp
  with source_answers [OF all_to_wire(1) [OF d(4)] m assms(10,7,11-15), of clk] d(1,2) w a show ?thesis by metis
qed

text \<open>C11: The end of the congestion lifts the pacing.  Whatever report of one or more hops, none above
  both thresholds (nor above that of the occupancy when the retransmission rate is used), reaches a
  destination that has complained and waits for the congestion to end, the callback queues one
  request for the end of the pacing; the sender empties the queue and dials only the flow's
  source, and the destination again waits for a complaint; the source, accepting the
  connections, switches the regular pacing off with one \<open>tc\<close> command and records it.\<close>

theorem relief_releases_source:
  assumes "read_metadata bs sizeof_hop_key = md # mds"
    and "\<forall>i. \<forall>h \<in> set (md # mds). relieved (se_use_retransmission (envs i)) (se_thresholds (envs i)) h"
    and "ntohl (fk_src_ip (load_hop_key bs)) = src" "ntohl (fk_dst_ip (load_hop_key bs)) = dst"
    and "src \<noteq> 0" "dst \<noteq> 0" "awaits_relief src s"
    and "listens dst (src_tables s0)" "\<forall>i. paces_now (penv i)"
    and "rp_set (shm (src_pacer s0)) = REGULAR_PACING_FLAG_SET"
    and "cuts_bytes arrive" "length junk = 28" "length buf = sizeof_PeerMsg"
  shows "\<exists>s1 q sdr' ws s'. sample_func envs bs s = Some (Inr s1)
    \<and> sender_passes dbg (length (contents (peerq (sdet s1)))) (peerq (sdet s1), sdr) = Some (q, sdr')
    \<and> quiet_sink src (s1\<lparr>sdet := (sdet s1)\<lparr>peerq := q\<rparr>\<rparr>) \<and> \<not> vSentPacingOver (tmr (sdet s1))
    \<and> wire sdr' = wire sdr @ map (Pair (dotted src)) ws
    \<and> connections arrive clk dst penv junk buf ws s0 = Inr s'
    \<and> system_cmds (trace (src_pacer s')) = system_cmds (trace (src_pacer s0)) @ [Tc_Change_Nopacing]
    \<and> rp_set (shm (src_pacer s')) = NOPACING_FLAG_SET"
proof -
  obtain s1 ms m where d: "sample_func envs bs s = Some (Inr s1)"
    "contents (peerq (sdet s1)) = m # ms" "all_to src dst ms" "message_to RESET_PACING_MSG src dst m"
    "stores_ok (sdet s1)" "\<not> vq_TimerIsSet (tmr (sdet s1))" "vCanStartEvaluationTimer (tmr (sdet s1))"
    "\<not> vSentPacingOver (tmr (sdet s1))" "source_known src s1"
    by (rule destination_relents [OF assms(1-5,7)])
  have q: "queue_inv (peerq (sdet s1))" "\<forall>m \<in> set (contents (peerq (sdet s1))). src_ip_addr m = src"
    using d(2,5) all_to_wire(2) [OF d(3)] all_to_wire(3) [OF d(4)] by (auto simp: stores_ok_def)
  obtain q' sdr' where w: "sender_passes dbg (length (contents (peerq (sdet s1)))) (peerq (sdet s1), sdr) = Some (q', sdr')"
    "queue_inv q'" "contents q' = []" "wire sdr' = wire sdr @ map (Pair (dotted src)) (map on_wire (contents (peerq (sdet s1))))"
    by (rule sends_all [OF q(1) assms(5) q(2)])
  have a: "quiet_sink src (s1\<lparr>sdet := (sdet s1)\<lparr>peerq := q'\<rparr>\<rparr>)"
    using d(5-7,9) w(2,3) by (simp add: quiet_sink_def stores_ok_def source_known_def)
  have m: "ntohl (msg_no (on_wire m)) = RESET_PACING_MSG" "ntohl (dst_ip_addr (on_wire m)) = dst"
    using all_to_wire(3) [OF d(4)] by simp_all
  have "map on_wire (contents (peerq (sdet s1))) = on_wire m # map on_wire ms" using d(2) by simp
  with source_releases [OF all_to_wire(1) [OF d(3)] m assms(8,6,9-13), of clk] d(1,8) w a show ?thesis by metis
qed

text \<open>Reports of one hop from address 4 to address 77 with an occupancy and a time in the switch.\<close>

definition example_report :: "u32 \<Rightarrow> u32 \<Rightarrow> byte list" where
  "example_report occ ns = store32 1 @ store16 2 @ store16 3 @ store32 (htonl 4) @ store32 (htonl 77)
     @ store16 6 @ store16 7 @ store32 0 @ store32 0
     @ store32 9 @ store16 1 @ store16 2 @ store32 0 @ store32 (htonl occ) @ store32 (htonl 0) @ store32 (htonl ns)"

lemma example_report_reads:
  "ntohl (fk_src_ip (load_hop_key (example_report occ ns))) = 4"
  "ntohl (fk_dst_ip (load_hop_key (example_report occ ns))) = 77"
  "read_metadata (example_report occ ns) sizeof_hop_key = [load_metadata (example_report occ ns) 28]"
  "hop_latency_of (load_metadata (example_report occ ns) 28) = ns"
  "hop_Qinfo (load_metadata (example_report occ ns) 28) = occ AND 0xFFFFFF"
proof -
  have l: "length (example_report occ ns) = 52" by (simp add: example_report_def)
  show "read_metadata (example_report occ ns) sizeof_hop_key = [load_metadata (example_report occ ns) 28]"
    using l by (simp add: read_metadata.simps sizeof_hop_key_def sizeof_int_hop_metadata_def)
  show "ntohl (fk_src_ip (load_hop_key (example_report occ ns))) = 4"
    "ntohl (fk_dst_ip (load_hop_key (example_report occ ns))) = 77"
    by (simp_all add: load_hop_key_def example_report_def load32_skip)
  show "hop_latency_of (load_metadata (example_report occ ns) 28) = ns"
    "hop_Qinfo (load_metadata (example_report occ ns) 28) = occ AND 0xFFFFFF"
    by (simp_all add: hop_latency_of_def hop_Qinfo_def load_metadata_def example_report_def load32_skip
        load_first(1) [of _ "[]", simplified])
qed

lemma example_ends:
  "(4 :: u32) \<noteq> 0" "(77 :: u32) \<noteq> 0" "cuts_bytes (\<lambda>bs. push_back bs [])"
  "length (replicate 28 (0 :: byte)) = 28" "length zero_buffer = sizeof_PeerMsg"
  "\<forall>i::nat. paces_now tuning_env" "listens 77 (src_tables idle_source)" "quiet_sink 4 empty_sink"
  by (simp_all add: cuts_bytes_def zero_buffer_def paces_now_def tuning_env_def listens_def idle_source_def
      MAX_NUM_IP_ATTACHED_def quiet_sink_def empty_sink_def initial_timers_def stores_ok_def)

theorem congestion_makes_source_pace_witness:
  "\<exists>s1 d q sdr' ws s'. sample_func (\<lambda>i. quiet_env) (example_report 500 600000) empty_sink = Some (Inr s1)
     \<and> alarm_fires [] [] (sdet s1) = Some d
     \<and> sender_passes 1 (length (contents (peerq d))) (peerq d, idle_sender) = Some (q, sdr')
     \<and> awaits_relief 4 (s1\<lparr>sdet := d\<lparr>peerq := q, tmr := qEvaluation_TimerID_Handler ((tmr d)\<lparr>eval_armed := False\<rparr>)\<rparr>\<rparr>)
     \<and> wire sdr' = map (Pair (dotted 4)) ws
     \<and> connections (\<lambda>bs. push_back bs []) (\<lambda>i. 5) 77 (\<lambda>i. tuning_env) (replicate 28 0) zero_buffer ws idle_source = Inr s'
     \<and> (\<exists>c. system_cmds (trace (src_pacer s')) = [c] \<and> describes c (shm (src_pacer s')))"
proof -
  have c: "\<forall>i::nat. \<forall>h \<in> set [load_metadata (example_report 500 600000) 28]. congested (se_thresholds quiet_env) h"
    "se_settime quiet_env = 0" "length ([] :: string) + length ([] :: string) < 1000"
    "rp_set (shm (src_pacer idle_source)) \<in> {0, REGULAR_PACING_FLAG_SET}"
    by (simp_all add: congested_def example_report_reads quiet_env_def default_thresholds_def idle_source_def no_pacing_def)
  have e: "wire idle_sender = []" "system_cmds (trace (src_pacer idle_source)) = []"
    by (simp_all add: idle_sender_def idle_source_def no_pacing_def)
  show ?thesis
    using congestion_makes_source_pace [OF example_report_reads(3) c(1,2) example_report_reads(1,2) example_ends(1,2,8)
        c(3) example_ends(7,6) c(4) example_ends(3-5), of 1 idle_sender "\<lambda>i. 5", unfolded e append_Nil] .
qed

definition complained_sink :: sink where
  "complained_sink = empty_sink\<lparr>sdet := (sdet empty_sink)\<lparr>tmr := initial_timers\<lparr>vSentPacingOver := True\<rparr>\<rparr>\<rparr>"

definition paced_source :: source where
  "paced_source = idle_source\<lparr>src_pacer := no_pacing\<lparr>shm :=
     \<lparr>rp_set = REGULAR_PACING_FLAG_SET, current_pacing = 18\<rparr>\<rparr>\<rparr>"

theorem relief_releases_source_witness:
  "\<exists>s1 q sdr' ws s'. sample_func (\<lambda>i. quiet_env) (example_report 3 2) complained_sink = Some (Inr s1)
     \<and> sender_passes 1 (length (contents (peerq (sdet s1)))) (peerq (sdet s1), idle_sender) = Some (q, sdr')
     \<and> quiet_sink 4 (s1\<lparr>sdet := (sdet s1)\<lparr>peerq := q\<rparr>\<rparr>) \<and> \<not> vSentPacingOver (tmr (sdet s1))
     \<and> wire sdr' = map (Pair (dotted 4)) ws
     \<and> connections (\<lambda>bs. push_back bs []) (\<lambda>i. 5) 77 (\<lambda>i. tuning_env) (replicate 28 0) zero_buffer ws paced_source = Inr s'
     \<and> system_cmds (trace (src_pacer s')) = [Tc_Change_Nopacing] \<and> rp_set (shm (src_pacer s')) = NOPACING_FLAG_SET"
proof -
  have c: "\<forall>i::nat. \<forall>h \<in> set [load_metadata (example_report 3 2) 28].
      relieved (se_use_retransmission quiet_env) (se_thresholds quiet_env) h"
    "awaits_relief 4 complained_sink" "listens 77 (src_tables paced_source)"
    "rp_set (shm (src_pacer paced_source)) = REGULAR_PACING_FLAG_SET"
    using example_ends(7,8)
    by (simp_all add: relieved_def congested_def example_report_reads quiet_env_def default_thresholds_def
        awaits_relief_def complained_sink_def quiet_sink_def empty_sink_def initial_timers_def stores_ok_def paced_source_def)
  have e: "wire idle_sender = []" "system_cmds (trace (src_pacer paced_source)) = []"
    by (simp_all add: idle_sender_def paced_source_def idle_source_def no_pacing_def)
  show ?thesis
    using relief_releases_source [OF example_report_reads(3) c(1) example_report_reads(1,2) example_ends(1,2) c(2,3)
        example_ends(6) c(4) example_ends(3-5), of 1 idle_sender "\<lambda>i. 5", unfolded e append_Nil] .
qed

end
