(* ===== verification/Http_Server.thy ===== *)
theory Http_Server
  imports Settings Activity_Log
begin

text \<open>
  The control interface: the request handler \<open>check_req\<close> of \<open>src/userspace/user_dtn.c\<close> and the client
  \<open>src/cli/tuncli.c\<close> that builds the requests.  The HTTP library is not modelled: a request is the
  text \<open>http_req2str\<close> gives.  A handler returns the response and the new settings, or the fault the
  code runs into; the text copied into the 16 bytes of \<open>aNumber\<close> is where it can.  \<open>inet_aton\<close> is an
  argument.
\<close>

record server =
  srv_debug :: int
  srv_use_retransmission :: int
  srv_tuning_mode :: bool
  srv_phase :: phase
  srv_thresholds :: thresholds
  srv_retrans_threshold :: double
  srv_max_pacing_rate :: double
  srv_rtt_threshold :: double
  srv_rtt_factor :: int
  srv_use_kafka :: bool
  srv_kafka_dest_binary :: string
  srv_dest_binary :: string
  srv_dest :: string
  srv_device :: string
  srv_log :: activity_log
  srv_commands :: "string list"

definition nl_text :: string where "nl_text = [CHR 0x0A]"

section \<open>Reading numbers from a request\<close>

text \<open>\<open>aNumber\<close> has 16 bytes, zeroed before.  Copying more than 16 characters writes behind it, and
  with exactly 16 it has no NUL when it is read.\<close>

definition a_number :: "string \<Rightarrow> c_fault + string" where
  "a_number s = (if 16 < length s then Inl (Buffer_Overflow ''aNumber'' (length s))
     else if length s = 16 then Inl (Unterminated ''aNumber'') else Inr s)"

text \<open>\<open>p\<close> starts as many characters into the request as the recognised text is long.\<close>

definition digits_at :: "string \<Rightarrow> string \<Rightarrow> c_fault + string" where
  "digits_at key req = a_number (takeWhile isdigit (drop (length key) req))"

fun copy_float :: "nat \<Rightarrow> string \<Rightarrow> string \<times> nat" where
  "copy_float countdots [] = ([], countdots)"
| "copy_float countdots (c # s) =
    (if (isdigit c \<or> c = CHR ''.'') \<and> countdots \<le> 1
     then (let (r, n) = copy_float (if c = CHR ''.'' then countdots + 1 else countdots) s in (c # r, n))
     else ([], countdots))"

text \<open>\<open>sscanf("%lf")\<close> on digits with at most one dot; \<open>0.0\<close> stays when nothing matches.\<close>

definition scan_lf :: "string \<Rightarrow> double" where
  "scan_lf s =
    (let ip = takeWhile isdigit s; rest = dropWhile isdigit s;
         fp = (case rest of [] \<Rightarrow> [] | c # r \<Rightarrow> if c = CHR ''.'' then takeWhile isdigit r else [])
     in dlit (of_nat (digits_val ip) + of_nat (digits_val fp) / 10 ^ length fp))"

section \<open>The requests\<close>

definition req_tuning :: "server \<Rightarrow> c_fault + (string \<times> server)" where
  "req_tuning s = Inr (''Recommended Tuning applied!!!'' @ nl_text,
     s\<lparr>srv_commands := srv_commands s @ [''sh ./user_menu.sh apply_all_recommended_settings'']\<rparr>)"

definition req_counters :: "server \<Rightarrow> c_fault + (string \<times> server)" where
  "req_counters s = bindE (report_activities (srv_log s)) (\<lambda>r. Inr (r, s))"

definition req_debug :: "string \<Rightarrow> server \<Rightarrow> c_fault + (string \<times> server)" where
  "req_debug req s = bindE (digits_at ''GET /-d#'' req) (\<lambda>ds.
     let v = atoi ds; v1 = (if 10 < v then 10 else v)
     in Inr (''Changed debug level of Tuning Module from '' @ show_int (srv_debug s) @ '' to ''
          @ show_int v1 @ ''!'' @ nl_text, s\<lparr>srv_debug := v1\<rparr>))"

definition req_retransmission :: "string \<Rightarrow> server \<Rightarrow> c_fault + (string \<times> server)" where
  "req_retransmission req s = bindE (digits_at ''GET /-d#'' req) (\<lambda>ds.
     let v = atoi ds; old = show_int (srv_use_retransmission s)
     in if 0 < v
        then Inr (''Changed to now use RetransmissionRate in determining pacing adjustment from '' @ old
          @ '' to '' @ show_int 1 @ ''!'' @ nl_text, s\<lparr>srv_use_retransmission := 1\<rparr>)
        else Inr (''Changed to not use RetransmissionRate in determining pacing adjustment from '' @ old
          @ '' to '' @ show_int v @ ''!'' @ nl_text, s\<lparr>srv_use_retransmission := v\<rparr>))"

definition req_learning_on :: "server \<Rightarrow> c_fault + (string \<times> server)" where
  "req_learning_on s = Inr (''Tuning Module has turned on learning mode!!!'' @ nl_text,
     s\<lparr>srv_tuning_mode := False, srv_phase := LEARNING\<rparr>)"

definition req_learning_off :: "server \<Rightarrow> c_fault + (string \<times> server)" where
  "req_learning_off s = Inr (''Tuning Module has turned on tuning mode!!!'' @ nl_text,
     s\<lparr>srv_tuning_mode := True, srv_phase := TUNING\<rparr>)"

definition show_u32 :: "u32 \<Rightarrow> string" where
  "show_u32 w = show_nat (unat w)"

definition changed_u32 :: "string \<Rightarrow> u32 \<Rightarrow> u32 \<Rightarrow> string" where
  "changed_u32 what old new = ''Changed '' @ what @ '' from '' @ show_u32 old @ '' to '' @ show_u32 new
     @ ''!'' @ nl_text"

definition req_flow_sink :: "string \<Rightarrow> server \<Rightarrow> c_fault + (string \<times> server)" where
  "req_flow_sink req s = bindE (digits_at ''GET /-ct#flow_sink#'' req) (\<lambda>ds.
     let v = ucast (strtoul ds); th = srv_thresholds s
     in Inr (changed_u32 ''flow sink time delta'' (vFLOW_SINK_TIME_DELTA th) v,
             s\<lparr>srv_thresholds := th\<lparr>vFLOW_SINK_TIME_DELTA := v\<rparr>\<rparr>))"

definition req_q_occ :: "string \<Rightarrow> server \<Rightarrow> c_fault + (string \<times> server)" where
  "req_q_occ req s = bindE (digits_at ''GET /-ct#q_occ#'' req) (\<lambda>ds.
     let v = ucast (strtoul ds); th = srv_thresholds s
     in Inr (changed_u32 ''queue occupancy delta'' (vQUEUE_OCCUPANCY_DELTA th) v,
             s\<lparr>srv_thresholds := th\<lparr>vQUEUE_OCCUPANCY_DELTA := v\<rparr>\<rparr>))"

definition req_hop_late :: "string \<Rightarrow> server \<Rightarrow> c_fault + (string \<times> server)" where
  "req_hop_late req s = bindE (digits_at ''GET /-ct#hop_late#'' req) (\<lambda>ds.
     let v = ucast (strtoul ds); th = srv_thresholds s
     in Inr (changed_u32 ''hop latency delta'' (vHOP_LATENCY_DELTA th) v,
             s\<lparr>srv_thresholds := th\<lparr>vHOP_LATENCY_DELTA := v\<rparr>\<rparr>))"

definition req_flow_late :: "string \<Rightarrow> server \<Rightarrow> c_fault + (string \<times> server)" where
  "req_flow_late req s = bindE (digits_at ''GET /-ct#flow_late#'' req) (\<lambda>ds.
     let v = ucast (strtoul ds); th = srv_thresholds s
     in Inr (changed_u32 ''flow latency delta'' (vFLOW_LATENCY_DELTA th) v,
             s\<lparr>srv_thresholds := th\<lparr>vFLOW_LATENCY_DELTA := v\<rparr>\<rparr>))"

definition req_retrans_rate :: "string \<Rightarrow> server \<Rightarrow> c_fault + (string \<times> server)" where
  "req_retrans_rate req s =
    (case copy_float 0 (drop (length ''GET /-ct#retrans_rate#'') req) of (raw, countdots) \<Rightarrow>
     bindE (a_number raw) (\<lambda>n.
      if 1 < countdots
      then Inr (''***ERROR: Number is invalid for retransmission rate: *'' @ n @ ''***'' @ nl_text, s)
      else Inr (''Changed  maximum retransmission rate allowed from ''
        @ show_fixed 5 (srv_retrans_threshold s) @ '' to '' @ show_fixed 5 (scan_lf n) @ ''!'' @ nl_text,
        s\<lparr>srv_retrans_threshold := scan_lf n\<rparr>)))"

definition req_pacing_rate :: "string \<Rightarrow> server \<Rightarrow> c_fault + (string \<times> server)" where
  "req_pacing_rate req s =
    (case copy_float 0 (drop (length ''GET /-ct#pacing_rate#'') req) of (raw, countdots) \<Rightarrow>
     bindE (a_number raw) (\<lambda>n.
      if 1 < countdots
      then Inr (''***ERROR: Number is invalid for pacing rate: *'' @ n @ ''***'' @ nl_text, s)
      else Inr (''Changed  maximum pacing rate from ''
        @ show_fixed 2 (dmul (srv_max_pacing_rate s) 100) @ '' to '' @ show_fixed 2 (scan_lf n)
        @ ''%!'' @ nl_text, s\<lparr>srv_max_pacing_rate := ddiv (scan_lf n) 100\<rparr>)))"

definition req_rtt_thresh :: "string \<Rightarrow> server \<Rightarrow> c_fault + (string \<times> server)" where
  "req_rtt_thresh req s = bindE (digits_at ''GET /-rtt#thresh#'' req) (\<lambda>ds.
     let v = c_int (uint (strtoul ds))
     in Inr (''Changed rtt threshold from '' @ show_fixed 2 (srv_rtt_threshold s) @ ''ms to ''
          @ show_fixed 2 (dint v) @ ''ms!'' @ nl_text, s\<lparr>srv_rtt_threshold := dint v\<rparr>))"

definition req_rtt_factor :: "string \<Rightarrow> server \<Rightarrow> c_fault + (string \<times> server)" where
  "req_rtt_factor req s = bindE (digits_at ''GET /-rtt#factor#'' req) (\<lambda>ds.
     let v = c_int (uint (strtoul ds))
     in Inr (''Changed rtt factor from '' @ show_int (srv_rtt_factor s) @ '' to '' @ show_int v @ ''!''
          @ nl_text, s\<lparr>srv_rtt_factor := v\<rparr>))"

definition req_kafka_ip :: "(string \<Rightarrow> u32 option) \<Rightarrow> string \<Rightarrow> server \<Rightarrow> c_fault + (string \<times> server)" where
  "req_kafka_ip inet_aton req s =
    (let raw = take 16 (takeWhile (\<lambda>c. isdigit c \<or> c = CHR ''.'') (drop (length ''GET /-kaf#ip4#'') req)) in
     if \<not> srv_use_kafka s
     then Inr (''ERROR***:the flag *use_apache_kafka* must be set in your user_config.txt file in order to use this feature.  Please Check, restart the Tuning Module and resubmit this request...!'' @ nl_text, s)
     else bindE (a_number raw) (\<lambda>n.
       case inet_aton n of
         None \<Rightarrow> Inr (''ERROR***:IP address '' @ n @ '' is invalid. Please Check and resubmit...!'' @ nl_text, s)
       | Some a \<Rightarrow> Inr (''Using IP address '' @ n @ '' with Kafka!'' @ nl_text,
           s\<lparr>srv_kafka_dest_binary := hex08 a, srv_dest_binary := hex08 a, srv_dest := n\<rparr>)))"

definition req_rx :: "string \<Rightarrow> server \<Rightarrow> c_fault + (string \<times> server)" where
  "req_rx req s = bindE (digits_at ''GET /-b#rx#'' req) (\<lambda>ds.
     Inr (''Changed rx ring buffer size of '' @ srv_device s @ '' to '' @ ds @ ''!'' @ nl_text,
       s\<lparr>srv_commands := srv_commands s @ [''ethtool -G '' @ srv_device s @ '' rx '' @ ds]\<rparr>))"

definition req_tx :: "string \<Rightarrow> server \<Rightarrow> c_fault + (string \<times> server)" where
  "req_tx req s = bindE (digits_at ''GET /-b#tx#'' req) (\<lambda>ds.
     Inr (''Changed tx ring buffer size of '' @ srv_device s @ '' to '' @ ds @ ''!'' @ nl_text,
       s\<lparr>srv_commands := srv_commands s @ [''ethtool -G '' @ srv_device s @ '' tx '' @ ds]\<rparr>))"

definition req_sock_rx :: "string \<Rightarrow> server \<Rightarrow> c_fault + (string \<times> server)" where
  "req_sock_rx req s = bindE (digits_at ''GET /-b#sock_rx_buff#'' req) (\<lambda>ds.
     Inr (''Changed the maximum OS receive buffer size for all types of connections to '' @ ds @ ''!'' @ nl_text,
       s\<lparr>srv_commands := srv_commands s @ [''sysctl -w net.core.rmem_max='' @ ds]\<rparr>))"

definition req_sock_tx :: "string \<Rightarrow> server \<Rightarrow> c_fault + (string \<times> server)" where
  "req_sock_tx req s = bindE (digits_at ''GET /-b#sock_tx_buff#'' req) (\<lambda>ds.
     Inr (''Changed the maximum OS send buffer size for all types of connections to '' @ ds @ ''!'' @ nl_text,
       s\<lparr>srv_commands := srv_commands s @ [''sysctl -w net.core.wmem_max='' @ ds]\<rparr>))"

definition check_req :: "(string \<Rightarrow> u32 option) \<Rightarrow> string \<Rightarrow> server \<Rightarrow> c_fault + (string \<times> server)" where
  "check_req inet_aton req s =
    (if has_substr req ''GET /-t'' then req_tuning s
     else if has_substr req ''GET /-pc'' then req_counters s
     else if has_substr req ''GET /-d#'' then req_debug req s
     else if has_substr req ''GET /-r#'' then req_retransmission req s
     else if has_substr req ''GET /-l#on'' then req_learning_on s
     else if has_substr req ''GET /-l#off'' then req_learning_off s
     else if has_substr req ''GET /-ct#flow_sink#'' then req_flow_sink req s
     else if has_substr req ''GET /-ct#q_occ#'' then req_q_occ req s
     else if has_substr req ''GET /-ct#retrans_rate#'' then req_retrans_rate req s
     else if has_substr req ''GET /-ct#pacing_rate#'' then req_pacing_rate req s
     else if has_substr req ''GET /-ct#hop_late#'' then req_hop_late req s
     else if has_substr req ''GET /-ct#flow_late#'' then req_flow_late req s
     else if has_substr req ''GET /-rtt#thresh#'' then req_rtt_thresh req s
     else if has_substr req ''GET /-rtt#factor#'' then req_rtt_factor req s
     else if has_substr req ''GET /-kaf#ip4#'' then req_kafka_ip inet_aton req s
     else if has_substr req ''GET /-b#rx#'' then req_rx req s
     else if has_substr req ''GET /-b#tx#'' then req_tx req s
     else if has_substr req ''GET /-b#sock_rx_buff#'' then req_sock_rx req s
     else if has_substr req ''GET /-b#sock_tx_buff#'' then req_sock_tx req s
     else Inr (''Received something else!!!'' @ nl_text, s))"

section \<open>The client\<close>

text \<open>\<open>tuncli\<close>: the path it requests for its arguments (without the program name), \<open>None\<close> when it
  prints its usage instead; \<open>aSecondPart\<close> has 128 bytes.\<close>

definition second_part :: "string \<Rightarrow> c_fault + string option" where
  "second_part p = (if 128 \<le> length p then Inl (Buffer_Overflow ''aSecondPart'' (length p + 1))
     else Inr (Some p))"

definition first_is_digit :: "string \<Rightarrow> bool" where
  "first_is_digit s = (case s of [] \<Rightarrow> False | c # _ \<Rightarrow> isdigit c)"

definition tuncli_path :: "string list \<Rightarrow> c_fault + string option" where
  "tuncli_path args =
    (case args of
       [a] \<Rightarrow> if a = ''-t'' \<or> a = ''-pc'' then second_part a else Inr None
     | [a, b, c] \<Rightarrow>
         if a = ''-b'' \<or> a = ''-ct'' \<or> a = ''-rtt'' \<or> a = ''-kaf''
         then second_part (a @ ''#'' @ b @ ''#'' @ c) else Inr None
     | [a, b] \<Rightarrow>
         if a = ''-d'' then (if first_is_digit b then second_part (a @ ''#'' @ b) else Inr None)
         else if a = ''-r'' then (if first_is_digit b then second_part (a @ ''#'' @ b) else Inr None)
         else if a = ''-l'' then (if b = ''on'' \<or> b = ''off'' then second_part (a @ ''#'' @ b) else Inr None)
         else Inr None
     | _ \<Rightarrow> Inr None)"

section \<open>What the settings mean\<close>

text \<open>The settings that take one whole number: the arguments of \<open>tuncli\<close> before the number, and what the
  number does.\<close>

datatype knob = Debug | Use_Retransmission | Flow_Sink | Q_Occ | Hop_Late | Flow_Late
  | Rtt_Thresh | Rtt_Factor | Rx | Tx | Sock_Rx | Sock_Tx

fun knob_args :: "knob \<Rightarrow> string list" where
  "knob_args Debug = [''-d'']"
| "knob_args Use_Retransmission = [''-r'']"
| "knob_args Flow_Sink = [''-ct'', ''flow_sink'']"
| "knob_args Q_Occ = [''-ct'', ''q_occ'']"
| "knob_args Hop_Late = [''-ct'', ''hop_late'']"
| "knob_args Flow_Late = [''-ct'', ''flow_late'']"
| "knob_args Rtt_Thresh = [''-rtt'', ''thresh'']"
| "knob_args Rtt_Factor = [''-rtt'', ''factor'']"
| "knob_args Rx = [''-b'', ''rx'']"
| "knob_args Tx = [''-b'', ''tx'']"
| "knob_args Sock_Rx = [''-b'', ''sock_rx_buff'']"
| "knob_args Sock_Tx = [''-b'', ''sock_tx_buff'']"

definition knob_path :: "knob \<Rightarrow> string" where
  "knob_path k = concat (map (\<lambda>a. a @ ''#'') (knob_args k))"

definition run_cmd :: "string \<Rightarrow> server \<Rightarrow> server" where
  "run_cmd c s = s\<lparr>srv_commands := srv_commands s @ [c]\<rparr>"

fun knob_set :: "knob \<Rightarrow> string \<Rightarrow> server \<Rightarrow> server" where
  "knob_set Debug ds s = s\<lparr>srv_debug := min 10 (c_int (int (digits_val ds)))\<rparr>"
| "knob_set Use_Retransmission ds s =
    s\<lparr>srv_use_retransmission := min 1 (c_int (int (digits_val ds)))\<rparr>"
| "knob_set Flow_Sink ds s =
    s\<lparr>srv_thresholds := srv_thresholds s\<lparr>vFLOW_SINK_TIME_DELTA := of_nat (digits_val ds)\<rparr>\<rparr>"
| "knob_set Q_Occ ds s =
    s\<lparr>srv_thresholds := srv_thresholds s\<lparr>vQUEUE_OCCUPANCY_DELTA := of_nat (digits_val ds)\<rparr>\<rparr>"
| "knob_set Hop_Late ds s =
    s\<lparr>srv_thresholds := srv_thresholds s\<lparr>vHOP_LATENCY_DELTA := of_nat (digits_val ds)\<rparr>\<rparr>"
| "knob_set Flow_Late ds s =
    s\<lparr>srv_thresholds := srv_thresholds s\<lparr>vFLOW_LATENCY_DELTA := of_nat (digits_val ds)\<rparr>\<rparr>"
| "knob_set Rtt_Thresh ds s = s\<lparr>srv_rtt_threshold := of_int (c_int (int (digits_val ds)))\<rparr>"
| "knob_set Rtt_Factor ds s = s\<lparr>srv_rtt_factor := c_int (int (digits_val ds))\<rparr>"
| "knob_set Rx ds s = run_cmd (''ethtool -G '' @ srv_device s @ '' rx '' @ ds) s"
| "knob_set Tx ds s = run_cmd (''ethtool -G '' @ srv_device s @ '' tx '' @ ds) s"
| "knob_set Sock_Rx ds s = run_cmd (''sysctl -w net.core.rmem_max='' @ ds) s"
| "knob_set Sock_Tx ds s = run_cmd (''sysctl -w net.core.wmem_max='' @ ds) s"

section \<open>Recognising a request\<close>

lemma strstr_skip: "CHR ''G'' \<notin> set t \<Longrightarrow> strstr (t @ rest) (CHR ''G'' # k) = strstr rest (CHR ''G'' # k)"
  by (induction t) auto

lemma starts_with_trans: "starts_with (a @ b) s \<Longrightarrow> starts_with a s"
  by (auto simp: starts_with_iff)

lemma strstr_longer: "strstr s a = None \<Longrightarrow> strstr s (a @ b) = None"
proof (induction s)
  case (Cons c s)
  then show ?case
    using starts_with_trans [of a b "c # s"] by (auto split: if_splits)
qed (auto split: if_splits)

text \<open>A request line with no second \<open>GET /\<close> behind it is recognised by its beginning.\<close>

lemma request_key:
  assumes "CHR ''G'' \<notin> set p" "\<not> has_substr rest ''GET /''"
  shows "has_substr (''GET /'' @ p @ rest) (''GET /'' @ k) \<longleftrightarrow> starts_with k (p @ rest)"
proof -
  have "CHR ''G'' \<notin> set (''ET /'' @ p)" using assms(1) by simp
  from strstr_skip [OF this, of rest "''ET /'' @ k"]
  have "strstr (''ET /'' @ p @ rest) (''GET /'' @ k) = strstr rest (''GET /'' @ k)" by simp
  also have "\<dots> = None" using assms(2) strstr_longer [of rest "''GET /''" k] by (simp add: has_substr_def)
  finally show ?thesis by (simp add: has_substr_def)
qed

lemma digits_val_less: "\<forall>c \<in> set ds. isdigit c \<Longrightarrow> digits_val ds < 10 ^ length ds"
proof (induction ds rule: rev_induct)
  case (snoc c ds)
  then have "digits_val ds < 10 ^ length ds" "isdigit c" by simp_all
  moreover from this(2) have "digit_val c < 10" by (auto simp: isdigit_def digit_val_def)
  ultimately show ?case by (simp add: digits_val_snoc)
qed simp

lemma digits_val_15:
  assumes "\<forall>c \<in> set ds. isdigit c" "length ds \<le> 15"
  shows "digits_val ds < 10 ^ 15"
  using less_le_trans [OF digits_val_less [OF assms(1)]] power_increasing [OF assms(2), of "10 :: nat"]
  by simp

lemma short_number:
  assumes "\<forall>c \<in> set ds. isdigit c" "length ds \<le> 15"
  shows "atoi ds = c_int (int (digits_val ds))" "strtoul ds = of_nat (digits_val ds)"
    "uint (of_nat (digits_val ds) :: u64) = int (digits_val ds)"
    "(ucast (of_nat (digits_val ds) :: u64) :: u32) = of_nat (digits_val ds)"
proof -
  have b: "digits_val ds < 10 ^ 15" using digits_val_15 [OF assms] .
  then show "atoi ds = c_int (int (digits_val ds))"
    using assms(1) by (simp add: atoi_def strtol_digits)
  show "strtoul ds = of_nat (digits_val ds)"
    using strtoul_digits [OF assms(1)] b by simp
  show "uint (of_nat (digits_val ds) :: u64) = int (digits_val ds)"
    using b by (simp add: uint_nat unat_of_nat take_bit_nat_eq_self)
  show "(ucast (of_nat (digits_val ds) :: u64) :: u32) = of_nat (digits_val ds)"
    using b by (simp add: unsigned_of_nat take_bit_nat_eq_self)
qed

lemma knob_path_no_G: "CHR ''G'' \<notin> set (knob_path k)"
  by (cases k) (simp_all add: knob_path_def)

lemma digits_no_G: "\<forall>c \<in> set ds. isdigit c \<Longrightarrow> CHR ''G'' \<notin> set ds"
  by (auto simp: isdigit_def char_code_def)

text \<open>The handler a request for a setting reaches, and the number it reads.\<close>

definition knob_req :: "knob \<Rightarrow> string \<Rightarrow> server \<Rightarrow> c_fault + (string \<times> server)" where
  "knob_req k = (case k of Debug \<Rightarrow> req_debug | Use_Retransmission \<Rightarrow> req_retransmission
     | Flow_Sink \<Rightarrow> req_flow_sink | Q_Occ \<Rightarrow> req_q_occ | Hop_Late \<Rightarrow> req_hop_late
     | Flow_Late \<Rightarrow> req_flow_late | Rtt_Thresh \<Rightarrow> req_rtt_thresh | Rtt_Factor \<Rightarrow> req_rtt_factor
     | Rx \<Rightarrow> req_rx | Tx \<Rightarrow> req_tx | Sock_Rx \<Rightarrow> req_sock_rx | Sock_Tx \<Rightarrow> req_sock_tx)"

definition has_key :: "string \<Rightarrow> string \<Rightarrow> bool" where
  "has_key req k = has_substr req (''GET /'' @ k)"

lemma check_req_keys:
  "check_req inet_aton req s =
    (if has_key req ''-t'' then req_tuning s
     else if has_key req ''-pc'' then req_counters s
     else if has_key req ''-d#'' then req_debug req s
     else if has_key req ''-r#'' then req_retransmission req s
     else if has_key req ''-l#on'' then req_learning_on s
     else if has_key req ''-l#off'' then req_learning_off s
     else if has_key req ''-ct#flow_sink#'' then req_flow_sink req s
     else if has_key req ''-ct#q_occ#'' then req_q_occ req s
     else if has_key req ''-ct#retrans_rate#'' then req_retrans_rate req s
     else if has_key req ''-ct#pacing_rate#'' then req_pacing_rate req s
     else if has_key req ''-ct#hop_late#'' then req_hop_late req s
     else if has_key req ''-ct#flow_late#'' then req_flow_late req s
     else if has_key req ''-rtt#thresh#'' then req_rtt_thresh req s
     else if has_key req ''-rtt#factor#'' then req_rtt_factor req s
     else if has_key req ''-kaf#ip4#'' then req_kafka_ip inet_aton req s
     else if has_key req ''-b#rx#'' then req_rx req s
     else if has_key req ''-b#tx#'' then req_tx req s
     else if has_key req ''-b#sock_rx_buff#'' then req_sock_rx req s
     else if has_key req ''-b#sock_tx_buff#'' then req_sock_tx req s
     else Inr (''Received something else!!!'' @ nl_text, s))"
  by (simp add: check_req_def has_key_def)

lemma knob_dispatch:
  assumes "\<forall>c \<in> set ds. isdigit c" "\<not> has_substr rest ''GET /''"
  shows "check_req ia (''GET /'' @ knob_path k @ ds @ rest) s =
     knob_req k (''GET /'' @ knob_path k @ ds @ rest) s"
proof -
  have "CHR ''G'' \<notin> set (knob_path k @ ds)"
    using knob_path_no_G digits_no_G [OF assms(1)] by simp
  from request_key [OF this assms(2)]
  have key: "has_key (''GET /'' @ knob_path k @ ds @ rest) x \<longleftrightarrow> starts_with x (knob_path k @ ds @ rest)" for x
    by (simp add: has_key_def)
  show ?thesis
    unfolding check_req_keys key
    by (cases k) (simp_all add: knob_path_def knob_req_def)
qed

lemmas knob_handlers = req_debug_def req_retransmission_def req_flow_sink_def req_q_occ_def
  req_hop_late_def req_flow_late_def req_rtt_thresh_def req_rtt_factor_def req_rx_def req_tx_def
  req_sock_rx_def req_sock_tx_def

lemma knob_digits:
  assumes "\<forall>c \<in> set ds. isdigit c" "rest = [] \<or> \<not> isdigit (hd rest)"
  shows "digits_at (''GET /'' @ knob_path k) (''GET /'' @ knob_path k @ ds @ rest) = a_number ds"
proof -
  have "takeWhile isdigit (ds @ rest) = ds @ takeWhile isdigit rest" using assms(1) by simp
  also have "takeWhile isdigit rest = []" using assms(2) by (cases rest) auto
  finally show ?thesis by (simp add: digits_at_def)
qed

lemma knob_req_Inl:
  "digits_at (''GET /'' @ knob_path k) req = Inl e \<Longrightarrow> knob_req k req s = Inl e"
  by (cases k) (simp_all add: knob_req_def knob_path_def digits_at_def knob_handlers)

lemma knob_req_Inr:
  assumes "digits_at (''GET /'' @ knob_path k) req = Inr ds" "\<forall>c \<in> set ds. isdigit c" "length ds \<le> 15"
  shows "\<exists>r. knob_req k req s = Inr (r, knob_set k ds s)"
proof -
  have dint: "dint (c_int i) = of_int (c_int i)" for i
    using c_int_range [of i] by (intro dint_exact) auto
  show ?thesis
    using assms(1)
    by (cases k) (auto simp: knob_req_def knob_path_def digits_at_def knob_handlers dint min_def Let_def
        run_cmd_def short_number [OF assms(2,3)])
qed

lemma tuncli_knob:
  assumes "n < 10 ^ 15"
  shows "tuncli_path (knob_args k @ [show_nat n]) = Inr (Some (knob_path k @ show_nat n))"
proof -
  have l: "length (show_nat n) \<le> 15" using length_show_nat_le [of n 14] assms by simp
  have f: "first_is_digit (show_nat n)"
    using show_nat_digits [of n] by (cases "show_nat n") (auto simp: first_is_digit_def)
  show ?thesis
    using l f by (cases k) (simp_all add: tuncli_path_def second_part_def knob_path_def)
qed

text \<open>The commands a request may run.\<close>

definition tool_command :: "string \<Rightarrow> string \<Rightarrow> bool" where
  "tool_command device c \<longleftrightarrow> c = ''sh ./user_menu.sh apply_all_recommended_settings''
     \<or> (\<exists>p \<in> set [''ethtool -G '' @ device @ '' rx '', ''ethtool -G '' @ device @ '' tx '',
          ''sysctl -w net.core.rmem_max='', ''sysctl -w net.core.wmem_max=''].
        starts_with p c \<and> list_all isdigit (drop (length p) c) \<and> length c < length p + 16)"

lemma tool_commandI:
  assumes "list_all isdigit ds" "length ds < 16"
    and "p \<in> set [''ethtool -G '' @ device @ '' rx '', ''ethtool -G '' @ device @ '' tx '',
          ''sysctl -w net.core.rmem_max='', ''sysctl -w net.core.wmem_max='']"
  shows "tool_command device (p @ ds)"
  unfolding tool_command_def using assms by (intro disjI2 bexI [of _ p]) simp_all

definition settings_ok :: "server \<Rightarrow> bool" where
  "settings_ok s \<longleftrightarrow> srv_debug s \<le> 10 \<and> srv_use_retransmission s \<le> 1
     \<and> (srv_tuning_mode s \<longleftrightarrow> srv_phase s = TUNING)"

text \<open>What every request keeps.\<close>

definition confined :: "server \<Rightarrow> server \<Rightarrow> bool" where
  "confined s s' \<longleftrightarrow> (settings_ok s \<longrightarrow> settings_ok s') \<and> srv_log s' = srv_log s
     \<and> srv_device s' = srv_device s
     \<and> (srv_commands s' = srv_commands s
        \<or> (\<exists>c. srv_commands s' = srv_commands s @ [c] \<and> tool_command (srv_device s) c))"

lemma confined_refl [simp]: "confined s s"
  by (simp add: confined_def)

lemma digits_at_Inr:
  "digits_at key req = Inr ds \<Longrightarrow> list_all isdigit ds \<and> length ds < 16"
  by (auto simp: digits_at_def a_number_def list_all_iff dest: set_takeWhileD split: if_splits)

lemma debug_confined: "req_debug req s = Inr (r, s') \<Longrightarrow> confined s s'"
proof -
  assume "req_debug req s = Inr (r, s')"
  then obtain ds where "s' = s\<lparr>srv_debug := if 10 < atoi ds then 10 else atoi ds\<rparr>"
    by (auto simp: req_debug_def bindE_Inr_iff Let_def simp del: if_split split del: if_split)
  then show ?thesis by (simp add: confined_def settings_ok_def)
qed

lemma settings_confined:
  "req_retransmission req s = Inr (r, s') \<Longrightarrow> confined s s'"
  "req_learning_on s = Inr (r, s') \<Longrightarrow> confined s s'"
  "req_learning_off s = Inr (r, s') \<Longrightarrow> confined s s'"
  "req_flow_sink req s = Inr (r, s') \<Longrightarrow> confined s s'"
  "req_q_occ req s = Inr (r, s') \<Longrightarrow> confined s s'"
  "req_hop_late req s = Inr (r, s') \<Longrightarrow> confined s s'"
  "req_flow_late req s = Inr (r, s') \<Longrightarrow> confined s s'"
  "req_rtt_thresh req s = Inr (r, s') \<Longrightarrow> confined s s'"
  "req_rtt_factor req s = Inr (r, s') \<Longrightarrow> confined s s'"
  by (auto simp: confined_def settings_ok_def knob_handlers req_learning_on_def req_learning_off_def
      bindE_Inr_iff Let_def split: if_splits)

lemma number_confined:
  "req_counters s = Inr (r, s') \<Longrightarrow> confined s s'"
  "req_retrans_rate req s = Inr (r, s') \<Longrightarrow> confined s s'"
  "req_pacing_rate req s = Inr (r, s') \<Longrightarrow> confined s s'"
  "req_kafka_ip ia req s = Inr (r, s') \<Longrightarrow> confined s s'"
  by (auto simp: confined_def settings_ok_def req_counters_def req_retrans_rate_def req_pacing_rate_def
      req_kafka_ip_def bindE_Inr_iff Let_def split: if_splits option.splits prod.splits)

lemma command_confined:
  "req_tuning s = Inr (r, s') \<Longrightarrow> confined s s'"
  "req_rx req s = Inr (r, s') \<Longrightarrow> confined s s'"
  "req_tx req s = Inr (r, s') \<Longrightarrow> confined s s'"
  "req_sock_rx req s = Inr (r, s') \<Longrightarrow> confined s s'"
  "req_sock_tx req s = Inr (r, s') \<Longrightarrow> confined s s'"
  using tool_commandI [of _ "''ethtool -G '' @ srv_device s @ '' rx ''" "srv_device s"]
    tool_commandI [of _ "''ethtool -G '' @ srv_device s @ '' tx ''" "srv_device s"]
    tool_commandI [of _ "''sysctl -w net.core.rmem_max=''" "srv_device s"]
    tool_commandI [of _ "''sysctl -w net.core.wmem_max=''" "srv_device s"]
  by (auto simp: confined_def settings_ok_def req_tuning_def req_rx_def req_tx_def req_sock_rx_def
      req_sock_tx_def bindE_Inr_iff tool_command_def [of _ "''sh ./user_menu.sh apply_all_recommended_settings''"]
      dest!: digits_at_Inr)

section \<open>Properties\<close>

text \<open>C38: A setting sent over HTTP.  For every whole-number setting and every digit string, with
  nothing behind it that starts another request line: up to fifteen digits set exactly that
  setting, sixteen are read without a terminating NUL, and more overflow the sixteen bytes of
  \<open>aNumber\<close>.  A debug level above 10 becomes 10.\<close>

theorem knob_request:
  assumes "\<forall>c \<in> set ds. isdigit c" "rest = [] \<or> \<not> isdigit (hd rest)"
    and "\<not> has_substr rest ''GET /''"
  shows "if length ds \<le> 15
    then \<exists>r. check_req ia (''GET /'' @ knob_path k @ ds @ rest) s = Inr (r, knob_set k ds s)
    else check_req ia (''GET /'' @ knob_path k @ ds @ rest) s
      = Inl (if length ds = 16 then Unterminated ''aNumber'' else Buffer_Overflow ''aNumber'' (length ds))"
  using knob_digits [OF assms(1,2), of k] assms(1)
  unfolding knob_dispatch [OF assms(1,3)]
  by (auto simp: a_number_def intro: knob_req_Inr knob_req_Inl)

definition example_server :: server where
  "example_server = \<lparr>srv_debug = 1, srv_use_retransmission = 1, srv_tuning_mode = False,
     srv_phase = LEARNING, srv_thresholds = default_thresholds, srv_retrans_threshold = 0,
     srv_max_pacing_rate = 0, srv_rtt_threshold = 2, srv_rtt_factor = 4, srv_use_kafka = False,
     srv_kafka_dest_binary = [], srv_dest_binary = [], srv_dest = [], srv_device = ''eth0'',
     srv_log = empty_log, srv_commands = []\<rparr>"

lemma example_digits:
  "\<forall>c \<in> set ''77''. isdigit c" "\<forall>c \<in> set ''12345678901234567''. isdigit c"
  by (simp_all add: isdigit_def char_code_def)

lemma example_rest:
  "'' HTTP/1.1'' = [] \<or> \<not> isdigit (hd '' HTTP/1.1'')" "\<not> has_substr '' HTTP/1.1'' ''GET /''"
  by (simp_all add: isdigit_def char_code_def has_substr_def)

theorem knob_request_witness:
  "(\<exists>r. check_req (\<lambda>_. None) ''GET /-d#77 HTTP/1.1'' example_server = Inr (r, example_server\<lparr>srv_debug := 10\<rparr>))
   \<and> check_req (\<lambda>_. None) ''GET /-d#12345678901234567 HTTP/1.1'' example_server
       = Inl (Buffer_Overflow ''aNumber'' 17)"
  using knob_request [OF example_digits(1) example_rest, of "\<lambda>_. None" Debug example_server]
    knob_request [OF example_digits(2) example_rest, of "\<lambda>_. None" Debug example_server]
  by (simp add: knob_path_def digits_val_def digit_val_def char_code_def c_int_def)




lemma example_off:
  "check_req (\<lambda>_. None) ''GET /-l#off'' example_server = req_learning_off example_server"
  by (simp add: check_req_def has_substr_def)


end
