(* ===== verification/C_Stdio.thy ===== *)
theory C_Stdio
  imports C_Double
begin

text \<open>
  What the sources use of C's input functions: \<open>fgets\<close> on the output of a command run with \<open>popen\<close>,
  \<open>sscanf\<close>'s conversions and \<open>strtod\<close>.  A stream is the text still to be read.  Text from the
  system contains no NUL.
\<close>

abbreviation newline :: char where "newline \<equiv> CHR 0x0A"

section \<open>fgets\<close>

text \<open>\<open>fgets(buffer, n, pipe)\<close> reads up to a newline, which it keeps, or \<open>n - 1\<close> bytes.  It returns the
  text read, the rest, and whether it met the end of the stream (\<open>feof\<close>); with nothing to read it
  returns \<open>NULL\<close>.\<close>

fun cut_line :: "nat \<Rightarrow> string \<Rightarrow> string \<times> string \<times> bool" where
  "cut_line 0 s = ([], s, False)"
| "cut_line (Suc n) [] = ([], [], True)"
| "cut_line (Suc n) (c # s) =
    (if c = newline then ([c], s, False)
     else (case cut_line n s of (l, r, e) \<Rightarrow> (c # l, r, e)))"

definition fgets :: "nat \<Rightarrow> string \<Rightarrow> (string \<times> string \<times> bool) option" where
  "fgets n s = (case cut_line (n - 1) s of (l, r, e) \<Rightarrow> if l = [] then None else Some (l, r, e))"

lemma cut_line_split: "cut_line n s = (l, r, e) \<Longrightarrow> s = l @ r"
  by (induction n s arbitrary: l r e rule: cut_line.induct) (auto split: if_splits prod.splits)

lemma fgets_split: "fgets n s = Some (l, r, e) \<Longrightarrow> s = l @ r \<and> l \<noteq> []"
  by (auto simp: fgets_def dest: cut_line_split split: prod.splits if_splits)

lemma fgets_shorter: "fgets n s = Some (l, r, e) \<Longrightarrow> length r < length s"
  by (auto dest!: fgets_split)

text \<open>Printed numbers.\<close>

lemma show_nat_no_newline [simp]: "newline \<notin> set (show_nat n)"
proof -
  have "\<not> isdigit newline" by (simp add: isdigit_def char_code_def)
  then show ?thesis using show_nat_digits [of n] by blast
qed

lemma length_show_u32: "length (show_nat (unat (w :: u32))) \<le> 10"
  using length_show_nat_le [of "unat w" 9] unat_u32_lt [of w] by simp

text \<open>The buffers a loop \<open>while (!feof(pipe)) if (fgets(...) != NULL) ...\<close> gets: to the end of the
  stream, where \<open>fgets\<close> returns \<open>NULL\<close> or \<open>feof\<close> ends the loop after an unfinished line.\<close>

function read_lines :: "nat \<Rightarrow> string \<Rightarrow> string list" where
  "read_lines n s = (case fgets n s of None \<Rightarrow> [] | Some (l, r, e) \<Rightarrow> l # read_lines n r)"
  by pat_completeness auto
termination
  by (relation "measure (\<lambda>(n, s). length s)") (auto dest: fgets_shorter)

declare read_lines.simps [simp del]

definition line_ok :: "nat \<Rightarrow> string \<Rightarrow> bool" where
  \<comment> \<open>a line and its newline fit the buffer\<close>
  "line_ok n l \<longleftrightarrow> newline \<notin> set l \<and> length l + 2 \<le> n"

lemma cut_line_line:
  "newline \<notin> set l \<Longrightarrow> length l < n \<Longrightarrow> cut_line n (l @ newline # s) = (l @ [newline], s, False)"
proof (induction l arbitrary: n)
  case Nil
  then show ?case by (cases n) auto
next
  case (Cons c l)
  then show ?case by (cases n) auto
qed

lemma fgets_line: "line_ok n l \<Longrightarrow> fgets n (l @ newline # s) = Some (l @ [newline], s, False)"
  using cut_line_line [of l "n - 1" s] by (auto simp: fgets_def line_ok_def)

lemma read_lines_Nil [simp]: "read_lines n [] = []"
  by (subst read_lines.simps) (cases "n - 1", auto simp: fgets_def)

lemma read_lines_line: "line_ok n l \<Longrightarrow> read_lines n (l @ newline # s) = (l @ [newline]) # read_lines n s"
  by (subst read_lines.simps) (simp add: fgets_line)

definition unlines :: "string list \<Rightarrow> string" where
  "unlines ls = concat (map (\<lambda>l. l @ [newline]) ls)"

lemma unlines_simps [simp]: "unlines [] = []" "unlines (l # ls) = l @ newline # unlines ls"
  by (simp_all add: unlines_def)

lemma read_lines_unlines:
  "\<forall>l \<in> set ls. line_ok n l \<Longrightarrow> read_lines n (unlines ls) = map (\<lambda>l. l @ [newline]) ls"
  by (induction ls) (simp_all add: read_lines_line)

lemma read_lines_concat: "1 < n \<Longrightarrow> concat (read_lines n s) = s"
proof (induction n s rule: read_lines.induct)
  case (1 n s)
  show ?case
  proof (cases "fgets n s")
    case None
    obtain m where "n - 1 = Suc m" using \<open>1 < n\<close> by (cases "n - 1") auto
    with None have "s = []"
      by (cases s) (auto simp: fgets_def split: prod.splits if_splits)
    with None show ?thesis by simp
  next
    case (Some x)
    then obtain l r e where x: "fgets n s = Some (l, r, e)" by (cases x) auto
    with 1 have "concat (read_lines n r) = r" by auto
    moreover have "concat (read_lines n s) = l @ concat (read_lines n r)"
      by (subst read_lines.simps) (simp add: x)
    ultimately show ?thesis using fgets_split [OF x] by simp
  qed
qed

section \<open>sscanf\<close>

text \<open>A decimal integer after white space: its sign, its magnitude and the rest of the input.\<close>

definition scan_num :: "string \<Rightarrow> (bool \<times> nat \<times> string) option" where
  "scan_num s =
    (let s1 = dropWhile isspace s;
         neg = (s1 \<noteq> [] \<and> hd s1 = CHR ''-'');
         s2 = (if s1 \<noteq> [] \<and> (hd s1 = CHR ''-'' \<or> hd s1 = CHR ''+'') then tl s1 else s1);
         ds = takeWhile isdigit s2
     in if ds = [] then None else Some (neg, digits_val ds, drop (length ds) s2))"

text \<open>\<open>%lu\<close>, \<open>%u\<close> and \<open>%d\<close>: glibc converts at 64 bits, clamped, and stores the low bits.\<close>

definition scan_lu :: "string \<Rightarrow> (u64 \<times> string) option" where
  "scan_lu s = (case scan_num s of None \<Rightarrow> None
     | Some (neg, v, r) \<Rightarrow> Some (if 2 ^ 64 \<le> v then - 1 else if neg then - of_nat v else of_nat v, r))"

definition scan_u :: "string \<Rightarrow> (u32 \<times> string) option" where
  "scan_u s = map_option (\<lambda>(v, r). (ucast v, r)) (scan_lu s)"

definition scan_d :: "string \<Rightarrow> (int \<times> string) option" where
  "scan_d s = (case scan_num s of None \<Rightarrow> None
     | Some (neg, v, r) \<Rightarrow>
         Some (c_int (if neg then max (- (2 ^ 63)) (- int v) else min (2 ^ 63 - 1) (int v)), r))"

text \<open>\<open>%s\<close> without a width, and a white space directive followed by \<open>%c\<close>.\<close>

definition scan_s :: "string \<Rightarrow> (string \<times> string) option" where
  "scan_s s =
    (let s1 = dropWhile isspace s; t = takeWhile (\<lambda>c. \<not> isspace c) s1
     in if t = [] then None else Some (t, drop (length t) s1))"

definition scan_c :: "string \<Rightarrow> (char \<times> string) option" where
  "scan_c s = (case dropWhile isspace s of [] \<Rightarrow> None | c # r \<Rightarrow> Some (c, r))"

lemma space_class [simp]: "isspace (CHR '' '')" "isspace (CHR 0x09)" "isspace newline"
  "\<not> isdigit (CHR '' '')" "\<not> isdigit (CHR 0x09)" "\<not> isdigit newline"
  by (simp_all add: isspace_def isdigit_def char_code_def)

lemma scan_num_digits:
  assumes "\<forall>c \<in> set ws. isspace c" "rest = [] \<or> \<not> isdigit (hd rest)"
  shows "scan_num (ws @ show_nat n @ rest) = Some (False, n, rest)"
proof -
  obtain d ds where d: "show_nat n = d # ds" "isdigit d"
    using show_nat_nonempty [of n] show_nat_digits [of n] by (cases "show_nat n") auto
  have "dropWhile isspace (ws @ show_nat n @ rest) = show_nat n @ rest"
    using assms(1) d by (simp add: dropWhile_append3 isdigit_not_space)
  moreover have "hd (show_nat n @ rest) \<noteq> CHR ''-''" "hd (show_nat n @ rest) \<noteq> CHR ''+''"
    using d isdigit_not_sign by simp_all
  ultimately show ?thesis
    using assms(2) by (simp add: scan_num_def Let_def)
qed

lemma scan_num_neg:
  assumes "\<forall>c \<in> set ws. isspace c" "rest = [] \<or> \<not> isdigit (hd rest)"
  shows "scan_num (ws @ CHR ''-'' # show_nat n @ rest) = Some (True, n, rest)"
proof -
  have "dropWhile isspace (ws @ CHR ''-'' # show_nat n @ rest) = CHR ''-'' # show_nat n @ rest"
    using assms(1) by (simp add: dropWhile_append3 isspace_def char_code_def)
  then show ?thesis using assms(2) by (simp add: scan_num_def Let_def)
qed

lemma scan_lu_show:
  "\<forall>c \<in> set ws. isspace c \<Longrightarrow> rest = [] \<or> \<not> isdigit (hd rest) \<Longrightarrow>
     scan_lu (ws @ show_nat (unat w) @ rest) = Some (w, rest)"
  using unsigned_less [of w, where ?'a = nat] by (simp add: scan_lu_def scan_num_digits)

lemma ucast_u64_u32 [simp]: "ucast (ucast (w :: u32) :: u64) = w"
  by (rule bit_word_eqI) (auto simp: bit_simps)

lemma scan_u_show:
  "\<forall>c \<in> set ws. isspace c \<Longrightarrow> rest = [] \<or> \<not> isdigit (hd rest) \<Longrightarrow>
     scan_u (ws @ show_nat (unat w) @ rest) = Some (w, rest)"
  using unsigned_less [of w, where ?'a = nat] by (simp add: scan_u_def scan_lu_def scan_num_digits)

lemma scan_d_show:
  assumes "\<forall>c \<in> set ws. isspace c" "rest = [] \<or> \<not> isdigit (hd rest)"
    and "- (2 ^ 31) \<le> i" "i < 2 ^ 31"
  shows "scan_d (ws @ show_int i @ rest) = Some (i, rest)"
  using assms scan_num_digits [OF assms(1,2), of "nat i"] scan_num_neg [OF assms(1,2), of "nat (- i)"]
  by (simp add: scan_d_def show_int_def c_int_id)

section \<open>strtod\<close>

text \<open>\<open>strtod\<close> on decimal notation with an optional fraction and exponent; 0 when there is no
  number.  Hexadecimal notation, infinities and NaN are not modelled.\<close>

definition scan_frac :: "string \<Rightarrow> string \<times> string" where
  "scan_frac s = (case s of c # r \<Rightarrow>
       if c = CHR ''.'' then (takeWhile isdigit r, dropWhile isdigit r) else ([], s)
     | [] \<Rightarrow> ([], s))"

definition scan_exp :: "string \<Rightarrow> int" where
  "scan_exp s = (case s of c # r \<Rightarrow>
       if c = CHR ''e'' \<or> c = CHR ''E''
       then (case r of [] \<Rightarrow> 0 | d # r' \<Rightarrow>
          if d = CHR ''-'' then - int (digits_val (takeWhile isdigit r'))
          else if d = CHR ''+'' then int (digits_val (takeWhile isdigit r'))
          else int (digits_val (takeWhile isdigit r)))
       else 0
     | [] \<Rightarrow> 0)"

definition strtod :: "string \<Rightarrow> double" where
  "strtod s =
    (let s1 = dropWhile isspace s;
         neg = (s1 \<noteq> [] \<and> hd s1 = CHR ''-'');
         s2 = (if s1 \<noteq> [] \<and> (hd s1 = CHR ''-'' \<or> hd s1 = CHR ''+'') then tl s1 else s1);
         ip = takeWhile isdigit s2;
         (fp, rest) = scan_frac (dropWhile isdigit s2)
     in if ip = [] \<and> fp = [] then 0
        else let v = (of_nat (digits_val ip) + of_nat (digits_val fp) / 10 ^ length fp) * 10 powi scan_exp rest
             in dlit (if neg then - v else v))"

text \<open>\<open>strchr\<close>: the suffix from the first occurrence on.\<close>

definition strchr :: "string \<Rightarrow> char \<Rightarrow> string option" where
  "strchr s c = (let r = dropWhile (\<lambda>x. x \<noteq> c) s in if r = [] then None else Some r)"

end
