(* ===== verification/App_Traffic.thy ===== *)
theory App_Traffic
  imports C_Stdio Ip_Table "HOL-Library.While_Combinator"
begin

text \<open>
  How the source DTN watches its destinations in turn (\<open>src/userspace/user_dtn.c\<close>): the search for
  the next recorded destination, which \<open>fDoRunGetThresholds\<close> and \<open>fDoRunFindHighestRtt\<close> make each
  round, and what they do with it: \<open>fGetAppBandWidth\<close> with \<open>fCheckAppBandwidth\<close>, and
  \<open>fFindRttUsingPing\<close>.  What a command prints is an argument; \<open>None\<close> is a \<open>popen\<close> that failed.
\<close>

section \<open>The next recorded destination\<close>

definition next_slot :: "nat \<Rightarrow> nat" where
  "next_slot i = (if i + 1 = MAX_NUM_IP_ATTACHED then 0 else i + 1)"

text \<open>The loop \<open>while (!aDest_Dtn_IPs[last].dest_ip_addr && count)\<close>: where it stops, with the count
  that is left.\<close>

fun look_for_dest :: "sDest_Dtn_IPs list \<Rightarrow> nat \<Rightarrow> nat \<Rightarrow> nat \<times> nat" where
  "look_for_dest es cur 0 = (cur, 0)"
| "look_for_dest es cur (Suc count) =
    (if dip_addr (es ! cur) = 0 then look_for_dest es (next_slot cur) count
     else (cur, Suc count))"

text \<open>The same loop as the \<open>while\<close> it is in the code; it may in principle not end (\<open>None\<close>).\<close>

definition search_loop :: "sDest_Dtn_IPs list \<Rightarrow> nat \<times> nat \<Rightarrow> (nat \<times> nat) option" where
  "search_loop es = while_option (\<lambda>(cur, count). dip_addr (es ! cur) = 0 \<and> count \<noteq> 0)
     (\<lambda>(cur, count). (next_slot cur, count - 1))"

text \<open>One round: the destination to look at, if there is one, and where the next round starts.\<close>

definition next_dest :: "sDest_Dtn_IPs list \<Rightarrow> nat \<Rightarrow> nat option \<times> nat" where
  "next_dest es cur =
    (case look_for_dest es cur MAX_NUM_IP_ATTACHED of (i, count) \<Rightarrow>
       if count = 0 then (None, i) else (Some i, next_slot i))"

fun dest_rounds :: "nat \<Rightarrow> sDest_Dtn_IPs list \<Rightarrow> nat \<Rightarrow> nat list" where
  "dest_rounds 0 es cur = []"
| "dest_rounds (Suc n) es cur =
    (case next_dest es cur of
       (None, cur') \<Rightarrow> dest_rounds n es cur'
     | (Some i, cur') \<Rightarrow> i # dest_rounds n es cur')"

section \<open>Application bandwidth\<close>

definition fCheckAppBandwidth :: "string option \<Rightarrow> sDest_Dtn_IPs \<Rightarrow> sDest_Dtn_IPs" where
  "fCheckAppBandwidth out e =
    (case out of None \<Rightarrow> e
     | Some s \<Rightarrow>
       (case fgets 128 s of None \<Rightarrow> e
        | Some (_, r, _) \<Rightarrow>
          (case fgets 128 r of None \<Rightarrow> e
           | Some (l, _, _) \<Rightarrow>
               let v = (case scan_lu l of None \<Rightarrow> 0 | Some (v, _) \<Rightarrow> v);
                   kbits = (8 * v) div 1000
               in e\<lparr>vThis_app_tx_Gbits_per_sec := ddiv (dint (uint kbits)) 1000000\<rparr>)))"

text \<open>The loop over the lines of \<open>lsof\<close>; \<open>prev\<close> is \<open>previous_value\<close>, \<open>clk i\<close> the clock read for the
  \<open>i\<close>-th line, \<open>probe i app\<close> what \<open>bpftrace\<close> prints for the application of that line.\<close>

fun lsof_lines ::
  "(nat \<Rightarrow> time_t) \<Rightarrow> (nat \<Rightarrow> string \<Rightarrow> string option) \<Rightarrow> nat \<Rightarrow> string \<Rightarrow> string list \<Rightarrow> sDest_Dtn_IPs \<Rightarrow>
   sDest_Dtn_IPs \<times> string list" where
  "lsof_lines clk probe i prev [] e = (e, [])"
| "lsof_lines clk probe i prev (b # bs) e =
    (let e1 = e\<lparr>dip_last_time := clk i\<rparr> in
     case strchr b (CHR '' '') of
       None \<Rightarrow> lsof_lines clk probe (i + 1) prev bs e1
     | Some q \<Rightarrow>
         (let app = take (length b - length q) b in
          if prev \<noteq> app
          then (case lsof_lines clk probe (i + 1) prev bs (fCheckAppBandwidth (probe i app) e1) of
                  (e2, apps) \<Rightarrow> (e2, app # apps))
          else lsof_lines clk probe (i + 1) app bs e1))"

definition fGetAppBandWidth ::
  "(nat \<Rightarrow> time_t) \<Rightarrow> (nat \<Rightarrow> string \<Rightarrow> string option) \<Rightarrow> string option \<Rightarrow> sDest_Dtn_IPs \<Rightarrow>
   sDest_Dtn_IPs \<times> string list" where
  "fGetAppBandWidth clk probe lsof e =
    (if dip_Ip2 e = [] then (e, [])
     else (case lsof of None \<Rightarrow> (e, [])
           | Some s \<Rightarrow> lsof_lines clk probe 0 '' '' (read_lines 256 s) e))"

text \<open>The start of a round of \<open>fDoRunGetThresholds\<close>.\<close>

definition watch_apps ::
  "(nat \<Rightarrow> time_t) \<Rightarrow> (nat \<Rightarrow> string \<Rightarrow> string option) \<Rightarrow> string option \<Rightarrow> double \<Rightarrow>
   nat \<Rightarrow> ip_tables \<Rightarrow> nat \<times> ip_tables" where
  "watch_apps clk probe lsof previous_average cur t =
    (if previous_average \<noteq> 0 \<and> vIamASrcDtn t
     then (case next_dest (aDest_Dtn_IPs t) cur of
        (None, cur') \<Rightarrow> (cur', t)
      | (Some i, cur') \<Rightarrow>
          (cur', t\<lparr>aDest_Dtn_IPs := (aDest_Dtn_IPs t)[i :=
             fst (fGetAppBandWidth clk probe lsof (aDest_Dtn_IPs t ! i))]\<rparr>))
     else (cur, t))"

section \<open>Ping\<close>

text \<open>The average between the first and the second slash after the equals sign, copied into
  \<open>value[32]\<close> without a bound.\<close>

definition ping_average :: "string \<Rightarrow> (c_fault + double) option" where
  "ping_average buffer =
    (case strstr buffer ''avg'' of None \<Rightarrow> None
     | Some f1 \<Rightarrow> (case strchr f1 (CHR ''='') of None \<Rightarrow> None
     | Some f2 \<Rightarrow> (case strchr f2 (CHR ''/'') of None \<Rightarrow> None
     | Some f3 \<Rightarrow> (case strchr (tl f3) (CHR ''/'') of None \<Rightarrow> None
     | Some q \<Rightarrow>
         (let n = length (tl f3) - length q; value = take n (tl f3) in
          Some (if 32 < n then Inl (Buffer_Overflow ''value'' n)
                else if n = 32 then Inl (Unterminated ''value'')
                else Inr (strtod value)))))))"

fun first_average :: "string list \<Rightarrow> c_fault + double" where
  "first_average [] = Inr 0"
| "first_average (b # bs) = (case ping_average b of None \<Rightarrow> first_average bs | Some r \<Rightarrow> r)"

definition fFindRttUsingPing :: "string \<Rightarrow> string option \<Rightarrow> c_fault + double" where
  "fFindRttUsingPing addr out =
    (if addr = [] then Inr 0
     else (case out of None \<Rightarrow> Inr 0 | Some s \<Rightarrow> first_average (read_lines 128 s)))"

section \<open>Lemmas\<close>

lemma next_slot_less: "i < MAX_NUM_IP_ATTACHED \<Longrightarrow> next_slot i < MAX_NUM_IP_ATTACHED"
  by (simp add: next_slot_def MAX_NUM_IP_ATTACHED_def)

text \<open>The slots in the order a round looks at them.\<close>

definition ring_from :: "nat \<Rightarrow> nat list" where
  "ring_from i = [i..<MAX_NUM_IP_ATTACHED] @ [0..<i]"

definition live_slot :: "sDest_Dtn_IPs list \<Rightarrow> nat \<Rightarrow> bool" where
  "live_slot es i \<longleftrightarrow> dip_addr (es ! i) \<noteq> 0"

lemma length_ring_from [simp]: "i < MAX_NUM_IP_ATTACHED \<Longrightarrow> length (ring_from i) = MAX_NUM_IP_ATTACHED"
  by (simp add: ring_from_def)

lemma ring_from_all:
  "i < MAX_NUM_IP_ATTACHED \<Longrightarrow> distinct (ring_from i) \<and> set (ring_from i) = {..<MAX_NUM_IP_ATTACHED}"
  by (auto simp: ring_from_def)

lemma length_live_ring:
  assumes "i < MAX_NUM_IP_ATTACHED"
  shows "length (filter P (ring_from i)) = length (filter P [0..<MAX_NUM_IP_ATTACHED])"
proof -
  have "length (filter P (ring_from i)) = card (set (filter P (ring_from i)))"
    using ring_from_all [OF assms] by (metis distinct_card distinct_filter)
  also have "set (filter P (ring_from i)) = set (filter P [0..<MAX_NUM_IP_ATTACHED])"
    using ring_from_all [OF assms] by auto
  also have "card \<dots> = length (filter P [0..<MAX_NUM_IP_ATTACHED])"
    by (simp add: distinct_card del: set_filter)
  finally show ?thesis .
qed

lemma ring_from_step:
  assumes "i < MAX_NUM_IP_ATTACHED"
  obtains r where "ring_from i = i # r" "ring_from (next_slot i) = r @ [i]"
proof -
  have "[i..<MAX_NUM_IP_ATTACHED] = i # [Suc i..<MAX_NUM_IP_ATTACHED]"
    using assms by (simp add: upt_conv_Cons)
  then have "ring_from i = i # ([Suc i..<MAX_NUM_IP_ATTACHED] @ [0..<i])"
    by (simp add: ring_from_def)
  moreover have "ring_from (next_slot i) = ([Suc i..<MAX_NUM_IP_ATTACHED] @ [0..<i]) @ [i]"
  proof (cases "Suc i = MAX_NUM_IP_ATTACHED")
    case True
    then have "ring_from (next_slot i) = [0..<Suc i]" by (simp add: ring_from_def next_slot_def)
    also have "\<dots> = [0..<i] @ [i]" by simp
    finally show ?thesis using True by simp
  next
    case False
    with assms show ?thesis by (simp add: ring_from_def next_slot_def)
  qed
  ultimately show ?thesis using that by blast
qed

lemma look_for_dest_found:
  "i < MAX_NUM_IP_ATTACHED \<Longrightarrow> ring_from i = xs @ j # ys \<Longrightarrow> \<forall>x \<in> set xs. \<not> live_slot es x \<Longrightarrow>
     live_slot es j \<Longrightarrow> look_for_dest es i (length xs + Suc c) = (j, Suc c)"
proof (induction xs arbitrary: i ys)
  case Nil
  then show ?case by (elim ring_from_step) (simp add: live_slot_def)
next
  case (Cons x xs)
  obtain r where r: "ring_from i = i # r" "ring_from (next_slot i) = r @ [i]"
    using ring_from_step [OF Cons.prems(1)] .
  with Cons.prems have "x = i" "ring_from (next_slot i) = xs @ j # (ys @ [i])" by auto
  with Cons.IH [OF next_slot_less [OF Cons.prems(1)]] Cons.prems show ?case
    by (simp add: live_slot_def)
qed

lemma ring_from_turn:
  "i < MAX_NUM_IP_ATTACHED \<Longrightarrow> ring_from i = xs @ j # ys \<Longrightarrow>
     ring_from (next_slot j) = ys @ xs @ [j] \<and> j < MAX_NUM_IP_ATTACHED"
proof (induction xs arbitrary: i ys)
  case Nil
  then show ?case using ring_from_step [OF Nil.prems(1)] by force
next
  case (Cons x xs)
  obtain r where r: "ring_from i = i # r" "ring_from (next_slot i) = r @ [i]"
    using ring_from_step [OF Cons.prems(1)] .
  with Cons.prems have "x = i" "ring_from (next_slot i) = xs @ j # (ys @ [i])" by auto
  with Cons.IH [OF next_slot_less [OF Cons.prems(1)]] show ?case by simp
qed

text \<open>So a round finds the first live slot of the ring.\<close>

lemma next_dest_found:
  assumes "i < MAX_NUM_IP_ATTACHED" "filter (live_slot es) (ring_from i) = j # js"
  shows "next_dest es i = (Some j, next_slot j)" "next_slot j < MAX_NUM_IP_ATTACHED"
    "filter (live_slot es) (ring_from (next_slot j)) = js @ [j]"
proof -
  obtain xs ys where r: "ring_from i = xs @ j # ys" "\<forall>x \<in> set xs. \<not> live_slot es x" "live_slot es j"
    "js = filter (live_slot es) ys"
    using assms(2) by (auto simp: filter_eq_Cons_iff)
  have "MAX_NUM_IP_ATTACHED = length xs + Suc (length ys)"
    using length_ring_from [OF assms(1)] r(1) by simp
  then have "look_for_dest es i MAX_NUM_IP_ATTACHED = (j, Suc (length ys))"
    using look_for_dest_found [OF assms(1) r(1-3)] by metis
  then show "next_dest es i = (Some j, next_slot j)" by (simp add: next_dest_def)
  show "next_slot j < MAX_NUM_IP_ATTACHED"
    using ring_from_turn [OF assms(1) r(1)] by (simp add: next_slot_less)
  show "filter (live_slot es) (ring_from (next_slot j)) = js @ [j]"
    using ring_from_turn [OF assms(1) r(1)] r(2-4) by (simp add: filter_empty_conv)
qed

lemma dest_rounds_take:
  "i < MAX_NUM_IP_ATTACHED \<Longrightarrow> n \<le> length (filter (live_slot es) (ring_from i)) \<Longrightarrow>
     dest_rounds n es i = take n (filter (live_slot es) (ring_from i))"
proof (induction n arbitrary: i)
  case (Suc n)
  obtain j js where f: "filter (live_slot es) (ring_from i) = j # js"
    using Suc.prems(2) by (cases "filter (live_slot es) (ring_from i)") auto
  note d = next_dest_found [OF Suc.prems(1) f]
  show ?case using Suc.IH [OF d(2)] Suc.prems(2) by (simp add: d(1,3) f)
qed simp

lemma live_slots_are_keys:
  "length es = MAX_NUM_IP_ATTACHED \<Longrightarrow>
     map (\<lambda>i. dip_addr (es ! i)) (filter (live_slot es) [0..<MAX_NUM_IP_ATTACHED]) = live_keys dip_addr es"
proof -
  assume l: "length es = MAX_NUM_IP_ATTACHED"
  have "live_keys dip_addr es = filter (\<lambda>k. k \<noteq> 0) (map dip_addr (map ((!) es) [0..<length es]))"
    by (simp add: live_keys_def map_nth)
  then show ?thesis by (simp add: l filter_map comp_def live_slot_def [abs_def])
qed

lemma search_loop_ends: "search_loop es (i, n) = Some (look_for_dest es i n)"
proof (induction es i n rule: look_for_dest.induct)
  case (1 es cur)
  then show ?case by (subst search_loop_def, subst while_option_unfold) simp
next
  case (2 es cur count)
  then show ?case
    by (subst search_loop_def, subst while_option_unfold) (simp add: search_loop_def)
qed

text \<open>The loop over the lines of \<open>lsof\<close>.\<close>

definition has_blank :: "string \<Rightarrow> bool" where
  "has_blank b \<longleftrightarrow> CHR '' '' \<in> set b"

definition app_of :: "string \<Rightarrow> string" where
  "app_of b = takeWhile (\<lambda>c. c \<noteq> CHR '' '') b"

lemma strchr_blank:
  "strchr b (CHR '' '') = (if has_blank b then Some (dropWhile (\<lambda>c. c \<noteq> CHR '' '') b) else None)"
  by (auto simp: strchr_def Let_def has_blank_def)

lemma take_before_blank: "take (length b - length (dropWhile P b)) b = takeWhile (\<lambda>c. P c) b"
  by (metis add_diff_cancel_right' append_eq_conv_conj length_append takeWhile_dropWhile_id)

lemma fCheckAppBandwidth_keeps [simp]:
  "dip_addr (fCheckAppBandwidth out e) = dip_addr e" "dip_Ip2 (fCheckAppBandwidth out e) = dip_Ip2 e"
  "dip_last_time (fCheckAppBandwidth out e) = dip_last_time e"
  by (simp_all add: fCheckAppBandwidth_def Let_def split: option.splits prod.splits)

lemma lsof_lines_Cons:
  "lsof_lines clk probe i '' '' (b # bs) e =
    (if has_blank b
     then (case lsof_lines clk probe (i + 1) '' '' bs
             (fCheckAppBandwidth (probe i (app_of b)) (e\<lparr>dip_last_time := clk i\<rparr>)) of
             (e2, apps) \<Rightarrow> (e2, app_of b # apps))
     else lsof_lines clk probe (i + 1) '' '' bs (e\<lparr>dip_last_time := clk i\<rparr>))"
proof -
  have "CHR '' '' \<notin> set (app_of b)" by (auto simp: app_of_def dest: set_takeWhileD)
  then have "'' '' \<noteq> app_of b" by (metis list.set_intros(1))
  then show ?thesis
    by (simp add: strchr_blank take_before_blank app_of_def Let_def)
qed

lemma lsof_lines_spec:
  "lsof_lines clk probe i '' '' bs e = (e', apps) \<Longrightarrow>
     apps = map app_of (filter has_blank bs)
     \<and> dip_addr e' = dip_addr e \<and> dip_Ip2 e' = dip_Ip2 e
     \<and> dip_last_time e' = (if bs = [] then dip_last_time e else clk (i + length bs - 1))"
proof (induction bs arbitrary: i e e' apps)
  case (Cons b bs)
  let ?e1 = "e\<lparr>dip_last_time := clk i\<rparr>"
  let ?e2 = "if has_blank b then fCheckAppBandwidth (probe i (app_of b)) ?e1 else ?e1"
  obtain e3 as where r: "lsof_lines clk probe (i + 1) '' '' bs ?e2 = (e3, as)" by fastforce
  with Cons.prems have "e' = e3" "apps = (if has_blank b then app_of b # as else as)"
    by (auto simp: lsof_lines_Cons simp del: lsof_lines.simps split: if_splits)
  with Cons.IH [OF r] show ?case by simp
qed simp

lemma watch_apps_touches:
  assumes "next_dest (aDest_Dtn_IPs t) cur = (Some i, cur')" "avg \<noteq> 0" "vIamASrcDtn t"
    and "i < length (aDest_Dtn_IPs t)" "dip_Ip2 (aDest_Dtn_IPs t ! i) \<noteq> []" "s \<noteq> []"
  shows "\<exists>t1. watch_apps clk probe (Some s) avg cur t = (cur', t1)
    \<and> dip_addr (aDest_Dtn_IPs t1 ! i) = dip_addr (aDest_Dtn_IPs t ! i)
    \<and> dip_last_time (aDest_Dtn_IPs t1 ! i) = clk (length (read_lines 256 s) - 1)
    \<and> length (aDest_Dtn_IPs t1) = length (aDest_Dtn_IPs t)"
proof -
  let ?e = "aDest_Dtn_IPs t ! i"
  obtain e' as where r: "lsof_lines clk probe 0 '' '' (read_lines 256 s) ?e = (e', as)" by fastforce
  have "read_lines 256 s \<noteq> []" using read_lines_concat [of 256 s] assms(6) by auto
  with lsof_lines_spec [OF r] have "dip_addr e' = dip_addr ?e"
    "dip_last_time e' = clk (length (read_lines 256 s) - 1)" by simp_all
  with assms r show ?thesis by (simp add: watch_apps_def fGetAppBandWidth_def)
qed

section \<open>Properties\<close>

text \<open>C20: The search for the next destination ends and is fair.  The \<open>while\<close> loop over the table ends
  from every slot, and as many rounds as there are recorded destinations look at each of them
  exactly once, whichever slot the first round starts from.\<close>

theorem every_destination_watched:
  assumes "tables_ok t" "cur < MAX_NUM_IP_ATTACHED"
  shows "search_loop (aDest_Dtn_IPs t) (cur, MAX_NUM_IP_ATTACHED)
      = Some (look_for_dest (aDest_Dtn_IPs t) cur MAX_NUM_IP_ATTACHED)
    \<and> distinct (dest_rounds (length (destinations t)) (aDest_Dtn_IPs t) cur)
    \<and> (\<lambda>i. dip_addr (aDest_Dtn_IPs t ! i)) ` set (dest_rounds (length (destinations t)) (aDest_Dtn_IPs t) cur)
        = set (destinations t)"
proof -
  let ?es = "aDest_Dtn_IPs t" and ?live = "\<lambda>xs. filter (live_slot (aDest_Dtn_IPs t)) xs"
  have "length ?es = MAX_NUM_IP_ATTACHED" using assms(1) by (simp add: tables_ok_def slots_ok_def)
  note keys = live_slots_are_keys [OF this]
  have n: "length (destinations t) = length (?live (ring_from cur))"
    unfolding destinations_def keys [symmetric] by (simp add: length_live_ring [OF assms(2)])
  then have r: "dest_rounds (length (destinations t)) ?es cur = ?live (ring_from cur)"
    by (simp add: dest_rounds_take [OF assms(2)])
  have "set (?live (ring_from cur)) = set (?live [0..<MAX_NUM_IP_ATTACHED])"
    using ring_from_all [OF assms(2)] by auto
  then have "(\<lambda>i. dip_addr (?es ! i)) ` set (?live (ring_from cur)) = set (destinations t)"
    unfolding destinations_def keys [symmetric] by (simp only: set_map)
  with r show ?thesis
    using search_loop_ends ring_from_all [OF assms(2)] by (simp only: distinct_filter simp_thms)
qed

definition two_destinations :: ip_tables where
  "two_destinations = no_peers\<lparr>aDest_Dtn_IPs := [zero_dest_ip, zero_dest_ip,
     dest_fill 5 77 zero_dest_ip, zero_dest_ip, dest_fill 5 78 zero_dest_ip, zero_dest_ip,
     zero_dest_ip, zero_dest_ip, zero_dest_ip, zero_dest_ip],
     currently_dest_networks := 2, vIamASrcDtn := True\<rparr>"

lemma two_destinations_ok: "tables_ok two_destinations"
  by (simp add: tables_ok_def slots_ok_def two_destinations_def no_peers_def live_keys_def
      zero_src_ip_def zero_dest_ip_def dest_fill_def MAX_NUM_IP_ATTACHED_def)

theorem every_destination_watched_witness:
  "distinct (dest_rounds (length (destinations two_destinations)) (aDest_Dtn_IPs two_destinations) 3)"
  using every_destination_watched [OF two_destinations_ok, of 3] by (simp add: MAX_NUM_IP_ATTACHED_def)

text \<open>Traffic keeps a destination.  When \<open>lsof\<close> shows anything for the destination whose turn it is,
  a housekeeping less than \<open>vHouseTime\<close> after the clock read for its last line leaves the slot to
  that destination.\<close>

theorem traffic_keeps_destination:
  assumes "next_dest (aDest_Dtn_IPs t) cur = (Some i, cur')" "avg \<noteq> 0" "vIamASrcDtn t"
    and "i < length (aDest_Dtn_IPs t)" "dip_Ip2 (aDest_Dtn_IPs t ! i) \<noteq> []" "lsof \<noteq> []"
    and "cd i < clk (length (read_lines 256 lsof) - 1) + house"
  shows "dip_addr (aDest_Dtn_IPs (tHouseKeeping_TimerID_Handler house cs cd
      (snd (watch_apps clk probe (Some lsof) avg cur t))) ! i) = dip_addr (aDest_Dtn_IPs t ! i)"
proof -
  obtain t1 where t1: "watch_apps clk probe (Some lsof) avg cur t = (cur', t1)"
    "dip_addr (aDest_Dtn_IPs t1 ! i) = dip_addr (aDest_Dtn_IPs t ! i)"
    "dip_last_time (aDest_Dtn_IPs t1 ! i) = clk (length (read_lines 256 lsof) - 1)"
    "length (aDest_Dtn_IPs t1) = length (aDest_Dtn_IPs t)"
    using watch_apps_touches [OF assms(1-6)] by blast
  obtain es n where r: "expire_ips dip_addr dip_last_time zero_dest_ip house cd 0 (aDest_Dtn_IPs t1)
      (currently_dest_networks (house_src house cs t1)) = (es, n)" by fastforce
  have "es ! i = aDest_Dtn_IPs t1 ! i"
    using expire_ips_nth [OF r] assms(4,7) t1(3,4) by simp
  moreover have "aDest_Dtn_IPs (house_src house cs t1) = aDest_Dtn_IPs t1"
    by (simp add: house_src_def split: prod.splits)
  ultimately show ?thesis
    using t1 r by (simp add: tHouseKeeping_TimerID_Handler_def house_dest_def split: prod.splits)
qed

theorem traffic_keeps_destination_witness:
  "dip_addr (aDest_Dtn_IPs (tHouseKeeping_TimerID_Handler 18 (\<lambda>_. 30) (\<lambda>_. 30)
      (snd (watch_apps (\<lambda>_. 20) (\<lambda>_ _. None) (Some ''iperf 7'') 1 4 two_destinations))) ! 4) = 78"
proof -
  have "dip_addr (aDest_Dtn_IPs two_destinations ! 4) \<noteq> 0"
    by (simp add: two_destinations_def dest_fill_def)
  then have n: "next_dest (aDest_Dtn_IPs two_destinations) 4 = (Some 4, 5)"
    using look_for_dest.simps(2) [of "aDest_Dtn_IPs two_destinations" 4 9]
    by (simp add: next_dest_def MAX_NUM_IP_ATTACHED_def next_slot_def)
  have "vIamASrcDtn two_destinations" "4 < length (aDest_Dtn_IPs two_destinations)"
    "dip_Ip2 (aDest_Dtn_IPs two_destinations ! 4) \<noteq> []" "dip_addr (aDest_Dtn_IPs two_destinations ! 4) = 78"
    by (simp_all add: two_destinations_def no_peers_def MAX_NUM_IP_ATTACHED_def dest_fill_def dotted_def)
  with traffic_keeps_destination [OF n, of 1 "''iperf 7''" "\<lambda>_. 30" "\<lambda>_. 20" 18 "\<lambda>_. 30" "\<lambda>_ _. None"]
  show ?thesis by simp
qed

end
