(* ===== verification/Rate_Tuner.thy ===== *)
theory Rate_Tuner
  imports App_Traffic Pacing "HOL-Library.Signed_Division"
begin

text \<open>
  The thresholds thread (\<open>src/userspace/user_dtn.c\<close>): \<open>fDoRunGetThresholds\<close> measures the rates of the
  NIC from what \<open>bpftrace\<close> prints, publishes their averages, lets go of pacing and timers on an idle
  link, and searches for the value of \<open>net.ipv4.tcp_wmem\<close> with the best transmit rate
  (\<open>check_if_bitrate_too_low\<close>); \<open>fGetTxBitRate\<close> is the measurement on its own.

  What commands print is an argument.  \<open>check_bitrate_interval\<close> is 1 whenever it is looked at and
  \<open>BITRATE_INTERVAL\<close> is 1, so the averages are of one measurement and the divisor is 1.
\<close>

section \<open>Measuring\<close>

text \<open>\<open>sscanf(buffer, "%lu %lu", &tx, &rx)\<close>: what is not converted stays.\<close>

definition scan_counters :: "string \<Rightarrow> u64 \<times> u64 \<Rightarrow> u64 \<times> u64" where
  "scan_counters buffer old =
    (case scan_lu buffer of None \<Rightarrow> old
     | Some (tx, r) \<Rightarrow> (tx, case scan_lu r of None \<Rightarrow> snd old | Some (rx, _) \<Rightarrow> rx))"

fun last_counters :: "string list \<Rightarrow> u64 \<times> u64 \<Rightarrow> u64 \<times> u64" where
  "last_counters [] prev = prev"
| "last_counters (b # bs) prev =
    (let now = scan_counters b (0, 0) in last_counters bs (if fst now \<noteq> 0 then now else prev))"

definition kbits :: "u64 \<Rightarrow> u64 \<Rightarrow> u64" where
  "kbits now before = (8 * (now - before)) div 1000"

text \<open>\<open>None\<close>: the thread gives up.  Otherwise \<open>stage\<close>, and the rates in kbit/s.\<close>

definition measure_rates :: "string option \<Rightarrow> (bool \<times> u64 \<times> u64) option" where
  "measure_rates out =
    (case out of None \<Rightarrow> None
     | Some s \<Rightarrow>
       (case fgets 128 s of None \<Rightarrow> None
        | Some (_, r0, feof) \<Rightarrow>
          if feof then Some (False, kbits 0 0, kbits 0 0)
          else (case fgets 128 r0 of None \<Rightarrow> None
                | Some (l1, r1, _) \<Rightarrow>
                    (let (tx_before, rx_before) = scan_counters l1 (0, 0);
                         (last_tx, last_rx) = last_counters (read_lines 128 r1) (0, 0)
                     in Some (True, kbits last_tx tx_before, kbits last_rx rx_before)))))"

definition Gbits :: "u64 \<Rightarrow> double" where
  "Gbits k = ddiv (ddiv (dint (uint k)) 1) 1000000"

text \<open>The averages to publish; \<open>None\<close> when the value is skipped as above the speed of the NIC.\<close>

definition tx_average :: "int \<Rightarrow> u64 \<Rightarrow> double option" where
  "tx_average speed tx =
    (let a = Gbits tx in
     if a \<noteq> 0
     then (if of_int (speed sdiv 1000) < a then None else Some (dadd a (dlit (30 / 100))))
     else Some a)"

definition averages :: "int \<Rightarrow> u64 \<Rightarrow> u64 \<Rightarrow> (double \<times> double) option" where
  "averages speed tx rx =
    (let a = Gbits tx; b = Gbits rx in
     if a \<noteq> 0
     then (if of_int (speed sdiv 1000) < a then None
           else Some (dadd a (dlit (30 / 100)), dadd b (dlit (30 / 100))))
     else Some (a, b))"

text \<open>\<open>fGetTxBitRate\<close>, called for one measurement: the transmit average it leaves in
  \<open>vGlobal_average_tx_Gbits_per_sec\<close>.\<close>

definition fGetTxBitRate :: "int \<Rightarrow> string option \<Rightarrow> double \<Rightarrow> double" where
  "fGetTxBitRate speed out global_tx =
    (case measure_rates out of None \<Rightarrow> global_tx
     | Some (_, tx, _) \<Rightarrow> (case tx_average speed tx of None \<Rightarrow> global_tx | Some a \<Rightarrow> a))"

section \<open>The search for a better tcp\_wmem\<close>

record wmem =
  kminimum :: u32
  kdefault :: int
  kmaximum :: u32

definition KTUNING_DELTA :: u32 where "KTUNING_DELTA = 200000"
definition MAX_TUNING_APPLY :: nat where "MAX_TUNING_APPLY = 10"

definition wmem_text :: "wmem \<Rightarrow> string" where
  "wmem_text w = show_nat (unat (kminimum w)) @ '' '' @ show_int (kdefault w) @ '' ''
     @ show_nat (unat (kmaximum w))"

definition quote :: char where "quote = CHR 0x22"

definition wmem_cmd :: "wmem \<Rightarrow> string" where
  "wmem_cmd w = ''sysctl -w net.ipv4.tcp_wmem='' @ [quote] @ wmem_text w @ [quote]"

text \<open>The local variables of the thread that the search keeps: \<open>aApplyDefTunBest\<close>, the command
  applied last, and \<open>best_wmem_val\<close> start uninitialised; both only ever hold such a command, so the
  model keeps its numbers.  \<open>previous_average_tx_Gbits_per_sec\<close> is a global other threads read.\<close>

record tuner =
  tune :: nat
  applied :: bool
  suggested :: nat
  nothing_done :: nat
  max_apply :: nat
  highest_average :: double
  previous_average :: double
  aApplyDefTunBest :: "wmem option"
  best_wmem_val :: "wmem option"

definition initial_tuner :: tuner where
  "initial_tuner = \<lparr>tune = 1, applied = False, suggested = 0, nothing_done = 0, max_apply = 0,
     highest_average = 0, previous_average = 0, aApplyDefTunBest = None, best_wmem_val = None\<rparr>"

text \<open>\<open>sscanf(buffer, "%s %c %u %d %u", ...)\<close> on what \<open>sysctl net.ipv4.tcp_wmem\<close> prints;
  \<open>kernel_parameter\<close> has 128 bytes.  \<open>None\<close>: not all of them were converted, so \<open>kmaximum\<close> was not
  stored to.\<close>

definition scan_wmem :: "string \<Rightarrow> c_fault + wmem option" where
  "scan_wmem s =
    (case scan_s s of None \<Rightarrow> Inr None
     | Some (param, r0) \<Rightarrow>
       if 128 \<le> length param then Inl (Buffer_Overflow ''kernel_parameter'' (length param + 1))
       else Inr (case scan_c r0 of None \<Rightarrow> None
          | Some (_, r1) \<Rightarrow> (case scan_u r1 of None \<Rightarrow> None
          | Some (a, r2) \<Rightarrow> (case scan_d r2 of None \<Rightarrow> None
          | Some (b, r3) \<Rightarrow> (case scan_u r3 of None \<Rightarrow> None
          | Some (c, _) \<Rightarrow> Some \<lparr>kminimum = a, kdefault = b, kmaximum = c\<rparr>)))))"

text \<open>What a check does: the search's variables, the command run if any, and the activity log.\<close>

record tuner_env =
  te_pace :: pace_env
  vGoodBitrateValue :: double
  my_tune_max :: int
  te_stamp :: string   \<comment> \<open>time and phase, as the activity has them\<close>

definition apply_wmem ::
  "tuner_env \<Rightarrow> wmem \<Rightarrow> tuner \<Rightarrow> activity_log \<Rightarrow> c_fault + (tuner \<times> wmem option \<times> activity_log)" where
  "apply_wmem env w t l =
    bindE (record_activity (te_stamp env @ '': ***ACTIVITY=APPLIED TUNING***: '' @ wmem_cmd w) l)
      (\<lambda>l1. Inr (t\<lparr>aApplyDefTunBest := Some w, applied := True\<rparr>, Some w, l1))"

definition tune_wmem ::
  "tuner_env \<Rightarrow> wmem \<Rightarrow> tuner \<Rightarrow> activity_log \<Rightarrow> c_fault + (tuner \<times> wmem option \<times> activity_log)" where
  "tune_wmem env k t l =
    (if word_of_int (my_tune_max env) \<le> kmaximum k then Inr (t\<lparr>nothing_done := 1\<rparr>, None, l)
     else if tune t = 1 then apply_wmem env (k\<lparr>kmaximum := kmaximum k + KTUNING_DELTA\<rparr>) t l
     else if tune t = 2
     then (if 600000 < kmaximum k
           then apply_wmem env (k\<lparr>kmaximum := kmaximum k - KTUNING_DELTA\<rparr>) t l
           else Inr (t\<lparr>nothing_done := 1\<rparr>, None, l))
     else if tune t = 3
     then (case aApplyDefTunBest t of None \<Rightarrow> Inl (Uninitialised ''aApplyDefTunBest'')
           | Some w \<Rightarrow> apply_wmem env w t l)
     else Inr (t\<lparr>nothing_done := 1\<rparr>, None, l))"

definition suggest_wmem :: "tuner_env \<Rightarrow> wmem \<Rightarrow> tuner \<Rightarrow> tuner" where
  "suggest_wmem env k t =
    (if word_of_int (my_tune_max env) \<le> kmaximum k then t\<lparr>nothing_done := 1\<rparr>
     else t\<lparr>suggested := 1\<rparr>)"

text \<open>\<open>sysctl\<close> is what the command prints; \<open>None\<close> when \<open>popen\<close> fails.\<close>

definition check_if_bitrate_too_low ::
  "tuner_env \<Rightarrow> double \<Rightarrow> string option \<Rightarrow> tuner \<Rightarrow> activity_log \<Rightarrow>
   c_fault + (tuner \<times> wmem option \<times> activity_log)" where
  "check_if_bitrate_too_low env average sysctl t l =
    (if \<not> average < vGoodBitrateValue env then Inr (t, None, l)
     else (case sysctl of None \<Rightarrow> Inr (t, None, l)
     | Some s \<Rightarrow> (case fgets 256 s of None \<Rightarrow> Inr (t, None, l)
     | Some (buffer, _, _) \<Rightarrow>
         bindE (scan_wmem buffer) (\<lambda>k.
           if my_tune_max env = 0 then Inr (t, None, l)
           else (case k of None \<Rightarrow> Inl (Uninitialised ''kmaximum'')
                 | Some k \<Rightarrow> if gTuningMode (te_pace env) then tune_wmem env k t l
                             else Inr (suggest_wmem env k t, None, l))))))"

text \<open>Judging the last change by the rate it gave.\<close>

definition note_highest :: "double \<Rightarrow> tuner \<Rightarrow> c_fault + tuner" where
  "note_highest average t =
    (if highest_average t \<le> average
     then let t1 = t\<lparr>highest_average := average\<rparr> in
          if applied t1
          then (case aApplyDefTunBest t1 of None \<Rightarrow> Inl (Uninitialised ''aApplyDefTunBest'')
                | Some w \<Rightarrow> Inr (t1\<lparr>best_wmem_val := Some w, max_apply := 0\<rparr>))
          else Inr t1
     else Inr t)"

definition settle :: "tuner \<Rightarrow> c_fault + tuner" where
  "settle t =
    (if MAX_TUNING_APPLY \<le> max_apply t
     then (case best_wmem_val t of None \<Rightarrow> Inl (Uninitialised ''best_wmem_val'')
           | Some w \<Rightarrow> Inr (t\<lparr>tune := 3, aApplyDefTunBest := Some w, max_apply := 0\<rparr>))
     else Inr t)"

definition judge :: "double \<Rightarrow> tuner \<Rightarrow> c_fault + tuner" where
  "judge average t =
    (if tune t = 3 \<and> average \<noteq> 0 then Inr (t\<lparr>tune := 0, applied := False, nothing_done := 1\<rparr>)
     else bindE (note_highest average t) (\<lambda>t1.
       let t2 = t1\<lparr>tune := if previous_average t1 < highest_average t1 then 1 else 2\<rparr>;
           t3 = t2\<lparr>max_apply := if applied t2 then max_apply t2 + 1 else 0\<rparr>
       in bindE (settle t3) (\<lambda>t4. Inr (t4\<lparr>previous_average := average\<rparr>))))"

text \<open>Whether this round skips the check (\<open>goto ck_stage\<close>).\<close>

definition back_off :: "tuner \<Rightarrow> bool \<times> tuner" where
  "back_off t =
    (if suggested t \<noteq> 0
     then (if 3 < suggested t then (False, t\<lparr>suggested := 0\<rparr>)
           else (True, t\<lparr>suggested := suggested t + 1\<rparr>))
     else if applied t then (False, t\<lparr>applied := False\<rparr>)
     else if nothing_done t \<noteq> 0
     then (if 5 < nothing_done t then (False, t\<lparr>nothing_done := 0\<rparr>)
           else (True, t\<lparr>nothing_done := nothing_done t + 1\<rparr>))
     else (False, t))"

text \<open>The part of a round that searches: whether it was skipped, and what the check did.\<close>

definition search_step ::
  "tuner_env \<Rightarrow> double \<Rightarrow> string option \<Rightarrow> tuner \<Rightarrow> activity_log \<Rightarrow>
   c_fault + (bool \<times> tuner \<times> wmem option \<times> activity_log)" where
  "search_step env average sysctl t l =
    bindE (judge average t) (\<lambda>t1.
      case back_off t1 of
        (True, t2) \<Rightarrow> Inr (True, t2, None, l)
      | (False, t2) \<Rightarrow>
          (let t3 = t2\<lparr>applied := False\<rparr> in
           if 1 \<le> average
           then bindE (check_if_bitrate_too_low env average sysctl t3 l)
                  (\<lambda>(t4, c, l1). Inr (False, t4, c, l1))
           else Inr (False, t3, None, l)))"

section \<open>A round of the thread\<close>

record rate_thread =
  rt_tuner :: tuner
  vLastIpFound :: nat
  vTwiceInaRow :: bool
  vDidSetChannel :: bool
  tx_kbits_per_sec :: u64
  rx_kbits_per_sec :: u64
  global_tx :: double   \<comment> \<open>\<open>vGlobal_average_tx_Gbits_per_sec\<close>\<close>
  global_rx :: double
  rt_timers :: timers
  rt_pacer :: pacer
  rt_tables :: ip_tables
  rt_log :: activity_log
  rt_waits :: "wait list"      \<comment> \<open>messages the thread posts before it goes on\<close>
  rt_commands :: "string list" \<comment> \<open>the \<open>ethtool\<close> and \<open>sysctl\<close> commands run\<close>

record round_env =
  re_tuner :: tuner_env
  re_clk :: "nat \<Rightarrow> time_t"
  re_probe :: "nat \<Rightarrow> string \<Rightarrow> string option"
  re_lsof :: "string option"
  re_rates :: "string option"
  re_sysctl :: "string option"
  netDevice :: string
  netDevice_only_combined_channel_cfg :: bool
  netDevice_rx_channel_cfg_curr_val :: int
  netDevice_tx_channel_cfg_curr_val :: int
  netDevice_combined_channel_cfg_curr_val :: int

abbreviation re_pace :: "round_env \<Rightarrow> pace_env" where "re_pace env \<equiv> te_pace (re_tuner env)"

text \<open>A link without traffic.\<close>

definition idle_check :: "round_env \<Rightarrow> rate_thread \<Rightarrow> rate_thread" where
  "idle_check env th =
    (if tx_kbits_per_sec th = 0 \<and> rx_kbits_per_sec th = 0
     then (case idle_link (vTwiceInaRow th) (rt_timers th) of (t, ws) \<Rightarrow>
       th\<lparr>rt_timers := t, rt_waits := rt_waits th @ ws,
          rt_pacer := idle_reset_pacing (re_pace env) (rt_pacer th), vTwiceInaRow := True\<rparr>)
     else th\<lparr>vTwiceInaRow := False\<rparr>)"

text \<open>Setting the channels of the NIC back when a transfer has stopped.\<close>

definition reset_channels :: "round_env \<Rightarrow> rate_thread \<Rightarrow> rate_thread" where
  "reset_channels env th =
    (if tx_kbits_per_sec th = 0 \<and> vDidSetChannel th \<and> 0 < vDebugLevel (re_pace env)
     then th\<lparr>vDidSetChannel := False, rt_commands := rt_commands th @
       [if \<not> netDevice_only_combined_channel_cfg env
        then ''ethtool -L '' @ netDevice env @ '' rx '' @ show_int (netDevice_rx_channel_cfg_curr_val env)
          @ '' tx '' @ show_int (netDevice_tx_channel_cfg_curr_val env)
          @ ''  combined '' @ show_int (netDevice_combined_channel_cfg_curr_val env)
        else ''ethtool -L '' @ netDevice env @ '' combined ''
          @ show_int (netDevice_combined_channel_cfg_curr_val env)]\<rparr>
     else th)"

text \<open>The end of a round (\<open>tx_Gbs_off\<close>): the edge of receive traffic.\<close>

definition note_traffic :: "rate_thread \<Rightarrow> rate_thread" where
  "note_traffic th =
    (case track_rx_traffic (unat (rx_kbits_per_sec th)) (rt_log th) of (l, nt) \<Rightarrow>
       th\<lparr>rt_log := l, rt_tables := (case nt of None \<Rightarrow> rt_tables th
            | Some b \<Rightarrow> (rt_tables th)\<lparr>new_traffic := b\<rparr>)\<rparr>)"

definition search_round :: "round_env \<Rightarrow> double \<Rightarrow> rate_thread \<Rightarrow> c_fault + rate_thread" where
  "search_round env average th =
    bindE (search_step (re_tuner env) average (re_sysctl env) (rt_tuner th) (rt_log th))
      (\<lambda>(skipped, t, c, l).
        let th1 = th\<lparr>rt_tuner := t, rt_log := l,
              rt_commands := rt_commands th @ (case c of None \<Rightarrow> [] | Some w \<Rightarrow> [wmem_cmd w])\<rparr>
        in Inr (if skipped then th1 else note_traffic th1))"

text \<open>A round, and whether another follows.\<close>

definition threshold_round :: "round_env \<Rightarrow> rate_thread \<Rightarrow> c_fault + (rate_thread \<times> bool)" where
  "threshold_round env th =
    (case watch_apps (re_clk env) (re_probe env) (re_lsof env) (previous_average (rt_tuner th))
        (vLastIpFound th) (rt_tables th) of
      (nxt, tabs) \<Rightarrow>
        let th1 = th\<lparr>vLastIpFound := nxt, rt_tables := tabs,
                     tx_kbits_per_sec := 0, rx_kbits_per_sec := 0\<rparr>
        in (case measure_rates (re_rates env) of
          None \<Rightarrow> Inr (th1, False)
        | Some (stage, tx, rx) \<Rightarrow>
            let th2 = idle_check env (th1\<lparr>tx_kbits_per_sec := tx, rx_kbits_per_sec := rx\<rparr>)
            in (case averages (netDeviceSpeed (re_pace env)) tx rx of
                  None \<Rightarrow> Inr (note_traffic th2, stage)
                | Some (a, b) \<Rightarrow>
                    bindE (search_round env a
                        (reset_channels env (th2\<lparr>global_tx := a, global_rx := b\<rparr>)))
                      (\<lambda>th3. Inr (th3, stage)))))"

section \<open>Lemmas: measuring\<close>

definition counter_line :: "u64 \<times> u64 \<Rightarrow> string" where
  "counter_line c = show_nat (unat (fst c)) @ '' '' @ show_nat (unat (snd c))"

lemma scan_counters_line: "scan_counters (counter_line c @ [newline]) old = c"
  using scan_lu_show [of "[]" "CHR '' '' # show_nat (unat (snd c)) @ [newline]" "fst c"]
    scan_lu_show [of "[CHR '' '']" "[newline]" "snd c"]
  by (simp add: scan_counters_def counter_line_def)

lemma line_ok_counter: "line_ok 128 (counter_line c)"
  using length_show_u64 [of "fst c"] length_show_u64 [of "snd c"]
  by (simp add: line_ok_def counter_line_def)

lemma last_counters_lines:
  "cs \<noteq> [] \<Longrightarrow> fst (last cs) \<noteq> 0 \<Longrightarrow>
     last_counters (map (\<lambda>c. counter_line c @ [newline]) cs) prev = last cs"
proof (induction cs arbitrary: prev)
  case (Cons c cs)
  then show ?case by (cases "cs = []") (simp_all add: scan_counters_line Let_def)
qed simp

text \<open>A report: a line that is not looked at, then one line of counters per event.\<close>

definition report :: "string \<Rightarrow> u64 \<times> u64 \<Rightarrow> (u64 \<times> u64) list \<Rightarrow> string" where
  "report header c0 cs = unlines (header # counter_line c0 # map counter_line cs)"

lemma measure_report:
  assumes "line_ok 128 header" "cs \<noteq> []" "fst (last cs) \<noteq> 0"
  shows "measure_rates (Some (report header c0 cs)) =
    Some (True, kbits (fst (last cs)) (fst c0), kbits (snd (last cs)) (snd c0))"
proof -
  have "read_lines 128 (unlines (map counter_line cs)) = map (\<lambda>c. counter_line c @ [newline]) cs"
    by (subst read_lines_unlines) (auto simp: line_ok_counter)
  with assms show ?thesis
    by (simp add: measure_rates_def report_def fgets_line line_ok_counter scan_counters_line
        last_counters_lines Let_def split_beta)
qed

lemma unat_kbits:
  assumes "before \<le> now" "8 * (unat now - unat before) < 2 ^ 64"
  shows "unat (kbits now before) = 8 * (unat now - unat before) div 1000"
proof -
  have d: "unat (now - before) = unat now - unat before" using assms(1) by (rule unat_sub)
  have m: "unat (8 * e) = 8 * unat e" if "8 * unat e < 2 ^ 64" for e :: u64
    using that by (simp add: unat_word_ariths)
  show ?thesis using m [of "now - before"] assms(2) by (simp only: kbits_def unat_div d) simp
qed

lemma Gbits_0_iff: "Gbits k = 0 \<longleftrightarrow> k = 0"
proof -
  have "Gbits k = 0 \<longleftrightarrow> (of_int (uint k) :: rat) = 0"
    unfolding Gbits_def ddiv_def dint_def by (simp only: rnd_eq_0_iff divide_eq_0_iff) simp
  also have "\<dots> \<longleftrightarrow> k = 0" by (simp only: of_int_eq_0_iff uint_0_iff)
  finally show ?thesis .
qed

lemma Gbits_nonneg: "0 \<le> Gbits k"
proof -
  have "(0 :: rat) \<le> of_int (uint k)" by (simp only: of_int_0_le_iff uint_ge_0)
  then show ?thesis unfolding Gbits_def ddiv_def dint_def by (intro rnd_nonneg divide_nonneg_nonneg) simp_all
qed

section \<open>Lemmas: the search\<close>

text \<open>What \<open>sysctl net.ipv4.tcp_wmem\<close> prints.\<close>

definition tab :: char where "tab = CHR 0x09"

definition sysctl_line :: "wmem \<Rightarrow> string" where
  "sysctl_line k = ''net.ipv4.tcp_wmem = '' @ show_nat (unat (kminimum k)) @ [tab]
     @ show_int (kdefault k) @ [tab] @ show_nat (unat (kmaximum k))"

definition default_ok :: "wmem \<Rightarrow> bool" where
  "default_ok k \<longleftrightarrow> - (2 ^ 31) \<le> kdefault k \<and> kdefault k < 2 ^ 31"

lemma scan_wmem_line: "default_ok k \<Longrightarrow> scan_wmem (sysctl_line k @ [newline]) = Inr (Some k)"
proof -
  assume k: "default_ok k"
  let ?r3 = "[tab] @ show_nat (unat (kmaximum k)) @ [newline]"
  let ?r2 = "[tab] @ show_int (kdefault k) @ ?r3"
  let ?r1 = "'' '' @ show_nat (unat (kminimum k)) @ ?r2"
  have s: "scan_s (sysctl_line k @ [newline]) = Some (''net.ipv4.tcp_wmem'', '' ='' @ ?r1)"
    by (simp add: scan_s_def sysctl_line_def Let_def isspace_def char_code_def)
  have c: "scan_c ('' ='' @ ?r1) = Some (CHR ''='', ?r1)"
    by (simp add: scan_c_def isspace_def char_code_def)
  have u: "scan_u ?r1 = Some (kminimum k, ?r2)"
    by (rule scan_u_show) (simp_all add: tab_def)
  have d: "scan_d ?r2 = Some (kdefault k, ?r3)"
    using k by (intro scan_d_show) (simp_all add: tab_def default_ok_def)
  have v: "scan_u ?r3 = Some (kmaximum k, [newline])"
    by (rule scan_u_show) (simp_all add: tab_def)
  have n: "\<not> 128 \<le> length ''net.ipv4.tcp_wmem''" by simp
  show ?thesis
    by (simp only: scan_wmem_def s c u d v n option.case prod.case if_False) simp
qed

lemma length_show_default: "default_ok k \<Longrightarrow> length (show_int (kdefault k)) \<le> 11"
proof -
  assume "default_ok k"
  then have "nat \<bar>kdefault k\<bar> < 10 ^ Suc 9" by (auto simp: default_ok_def nat_less_iff)
  then have "length (show_nat (nat \<bar>kdefault k\<bar>)) \<le> 10" using length_show_nat_le [of _ 9] by simp
  then show ?thesis by (cases "kdefault k < 0") (simp_all add: show_int_def)
qed

lemma fgets_sysctl:
  "default_ok k \<Longrightarrow> fgets 256 (sysctl_line k @ [newline]) = Some (sysctl_line k @ [newline], [], False)"
proof -
  assume k: "default_ok k"
  have "newline \<notin> set (show_int i)" for i by (simp add: show_int_def)
  then have "line_ok 256 (sysctl_line k)"
    using length_show_u32 [of "kminimum k"] length_show_u32 [of "kmaximum k"] length_show_default [OF k]
    by (simp add: line_ok_def sysctl_line_def tab_def)
  from fgets_line [OF this, of "[]"] show ?thesis by simp
qed

lemma check_reads:
  "default_ok k \<Longrightarrow> check_if_bitrate_too_low env average (Some (sysctl_line k @ [newline])) t l =
    (if \<not> average < vGoodBitrateValue env \<or> my_tune_max env = 0 then Inr (t, None, l)
     else if gTuningMode (te_pace env) then tune_wmem env k t l else Inr (suggest_wmem env k t, None, l))"
  by (simp add: check_if_bitrate_too_low_def fgets_sysctl scan_wmem_line)

text \<open>Rounds of the search against a kernel that takes the values of the commands and prints them
  back: the settings and the average of each round.\<close>

fun search_run ::
  "(tuner_env \<times> double) list \<Rightarrow> tuner \<times> wmem \<times> activity_log \<Rightarrow> c_fault + (tuner \<times> wmem \<times> activity_log)" where
  "search_run [] s = Inr s"
| "search_run ((env, average) # rs) (t, k, l) =
    bindE (search_step env average (Some (sysctl_line k @ [newline])) t l)
      (\<lambda>(_, t1, c, l1). search_run rs (t1, case c of None \<Rightarrow> k | Some w \<Rightarrow> w, l1))"

text \<open>A value of \<open>tcp_wmem\<close> that differs from the first one in its maximum only, within bounds.\<close>

definition near :: "int \<Rightarrow> wmem \<Rightarrow> wmem \<Rightarrow> bool" where
  "near M k0 k \<longleftrightarrow> kminimum k = kminimum k0 \<and> kdefault k = kdefault k0
     \<and> min (unat (kmaximum k0)) 400001 \<le> unat (kmaximum k)
     \<and> unat (kmaximum k) \<le> max (unat (kmaximum k0)) (nat M + 199999)"

definition tuner_near :: "int \<Rightarrow> wmem \<Rightarrow> tuner \<Rightarrow> bool" where
  "tuner_near M k0 t \<longleftrightarrow> (\<forall>w. aApplyDefTunBest t = Some w \<or> best_wmem_val t = Some w \<longrightarrow> near M k0 w)"

lemma near_up:
  assumes "near M k0 k" "0 \<le> M" "M < 2 ^ 31" "\<not> word_of_int M \<le> kmaximum k"
  shows "near M k0 (k\<lparr>kmaximum := kmaximum k + KTUNING_DELTA\<rparr>)"
proof -
  have "unat (word_of_int M :: u32) = nat M" using assms(2,3) by (simp add: unat_eq_nat_uint uint_word_of_int)
  with assms(4) have lt: "unat (kmaximum k) < nat M" by (simp add: word_le_nat_alt)
  then have "unat (kmaximum k + KTUNING_DELTA) = unat (kmaximum k) + 200000"
    using assms(2,3) by (simp add: KTUNING_DELTA_def unat_word_ariths)
  with assms(1) lt show ?thesis by (simp add: near_def)
qed

lemma near_down:
  assumes "near M k0 k" "600000 < kmaximum k"
  shows "near M k0 (k\<lparr>kmaximum := kmaximum k - KTUNING_DELTA\<rparr>)"
proof -
  have g: "600000 < unat (kmaximum k)" using assms(2) by (simp add: word_less_nat_alt)
  then have "KTUNING_DELTA \<le> kmaximum k" by (simp add: KTUNING_DELTA_def word_le_nat_alt)
  from unat_sub [OF this] have "unat (kmaximum k - KTUNING_DELTA) = unat (kmaximum k) - 200000"
    by (simp add: KTUNING_DELTA_def)
  with assms(1) g show ?thesis by (auto simp: near_def)
qed

lemma apply_wmem_Inr:
  "apply_wmem env w t l = Inr (t', c, l') \<Longrightarrow>
     t' = t\<lparr>aApplyDefTunBest := Some w, applied := True\<rparr> \<and> c = Some w"
  by (auto simp: apply_wmem_def bindE_Inr_iff)

lemma tuner_near_simps [simp]:
  "tuner_near M k0 (t\<lparr>nothing_done := n\<rparr>) = tuner_near M k0 t"
  "tuner_near M k0 (t\<lparr>suggested := n\<rparr>) = tuner_near M k0 t"
  "tuner_near M k0 (t\<lparr>applied := b\<rparr>) = tuner_near M k0 t"
  "tuner_near M k0 (t\<lparr>tune := n\<rparr>) = tuner_near M k0 t"
  "tuner_near M k0 (t\<lparr>max_apply := n\<rparr>) = tuner_near M k0 t"
  "tuner_near M k0 (t\<lparr>highest_average := a\<rparr>) = tuner_near M k0 t"
  "tuner_near M k0 (t\<lparr>previous_average := a\<rparr>) = tuner_near M k0 t"
  "tuner_near M k0 initial_tuner"
  by (simp_all add: tuner_near_def initial_tuner_def)

lemma apply_wmem_near:
  "apply_wmem env w t l = Inr (t', c, l') \<Longrightarrow> near M k0 w \<Longrightarrow> tuner_near M k0 t \<Longrightarrow>
     tuner_near M k0 t' \<and> (\<forall>v. c = Some v \<longrightarrow> near M k0 v)"
  by (drule apply_wmem_Inr) (auto simp: tuner_near_def)

lemma tune_wmem_near:
  assumes "tune_wmem env k t l = Inr (t', c, l')" "near M k0 k" "tuner_near M k0 t"
    and "my_tune_max env = M" "0 \<le> M" "M < 2 ^ 31"
  shows "tuner_near M k0 t' \<and> (\<forall>v. c = Some v \<longrightarrow> near M k0 v)"
proof (cases "word_of_int (my_tune_max env) \<le> kmaximum k")
  case True
  with assms show ?thesis by (auto simp: tune_wmem_def)
next
  case False
  note ap = apply_wmem_near [OF _ _ assms(3)]
  consider "tune t = 1" | "tune t = 2" "600000 < kmaximum k" | "tune t = 2" "\<not> 600000 < kmaximum k"
    | "tune t = 3" | "tune t \<notin> {1, 2, 3}" by blast
  then show ?thesis
  proof cases
    case 1
    then have "apply_wmem env (k\<lparr>kmaximum := kmaximum k + KTUNING_DELTA\<rparr>) t l = Inr (t', c, l')"
      using assms(1) False by (simp add: tune_wmem_def)
    from ap [OF this near_up [OF assms(2,5,6)]] False assms(4) show ?thesis by simp
  next
    case 2
    then have "apply_wmem env (k\<lparr>kmaximum := kmaximum k - KTUNING_DELTA\<rparr>) t l = Inr (t', c, l')"
      using assms(1) False by (simp add: tune_wmem_def)
    from ap [OF this near_down [OF assms(2) 2(2)]] show ?thesis by simp
  next
    case 4
    then obtain w where w: "aApplyDefTunBest t = Some w" "apply_wmem env w t l = Inr (t', c, l')"
      using assms(1) False by (auto simp: tune_wmem_def split: option.splits)
    then have "near M k0 w" using assms(3) by (simp add: tuner_near_def)
    from ap [OF w(2) this] show ?thesis by simp
  next
    case 3
    then have "t' = t\<lparr>nothing_done := 1\<rparr> \<and> c = None" using assms(1) False by (auto simp: tune_wmem_def)
    with assms(3) show ?thesis by auto
  next
    case 5
    then have "t' = t\<lparr>nothing_done := 1\<rparr> \<and> c = None" using assms(1) False by (auto simp: tune_wmem_def)
    with assms(3) show ?thesis by auto
  qed
qed

lemma note_highest_near:
  "note_highest a t = Inr t' \<Longrightarrow> tuner_near M k0 t \<Longrightarrow> tuner_near M k0 t'"
  by (auto simp: note_highest_def Let_def tuner_near_def split: if_splits option.splits)

lemma settle_near: "settle t = Inr t' \<Longrightarrow> tuner_near M k0 t \<Longrightarrow> tuner_near M k0 t'"
  by (auto simp: settle_def tuner_near_def split: if_splits option.splits)

lemma judge_near: "judge a t = Inr t' \<Longrightarrow> tuner_near M k0 t \<Longrightarrow> tuner_near M k0 t'"
  by (auto simp: judge_def bindE_Inr_iff Let_def split: if_splits
      dest!: note_highest_near [of _ _ _ M k0] settle_near [of _ _ M k0])

lemma back_off_near: "back_off t = (b, t') \<Longrightarrow> tuner_near M k0 t \<Longrightarrow> tuner_near M k0 t'"
  by (auto simp: back_off_def split: if_splits)

lemma suggest_wmem_near: "tuner_near M k0 (suggest_wmem env k t) = tuner_near M k0 t"
  by (simp add: suggest_wmem_def)

lemma near_default: "near M k0 k \<Longrightarrow> default_ok k = default_ok k0"
  by (simp add: near_def default_ok_def)

lemma check_near:
  assumes "check_if_bitrate_too_low env a (Some (sysctl_line k @ [newline])) t l = Inr (t', c, l')"
    and "near M k0 k" "tuner_near M k0 t" "default_ok k0" "my_tune_max env = M" "0 \<le> M" "M < 2 ^ 31"
  shows "tuner_near M k0 t' \<and> (\<forall>v. c = Some v \<longrightarrow> near M k0 v)"
  using assms tune_wmem_near [of env k t l t' c l' M k0]
  by (auto simp: check_reads near_default suggest_wmem_near split: if_splits)

lemma search_step_near:
  assumes "search_step env a (Some (sysctl_line k @ [newline])) t l = Inr (b, t', c, l')"
    and "near M k0 k" "tuner_near M k0 t" "default_ok k0" "my_tune_max env = M" "0 \<le> M" "M < 2 ^ 31"
  shows "tuner_near M k0 t' \<and> (\<forall>v. c = Some v \<longrightarrow> near M k0 v)"
proof -
  obtain t1 where t1: "judge a t = Inr t1" using assms(1) by (auto simp: search_step_def bindE_Inr_iff)
  obtain skip t2 where t2: "back_off t1 = (skip, t2)" by (cases "back_off t1")
  have n: "tuner_near M k0 t2" using back_off_near [OF t2] judge_near [OF t1] assms(3) by blast
  show ?thesis
  proof (cases "skip \<or> \<not> 1 \<le> a")
    case True
    then show ?thesis using assms(1) n by (cases skip) (auto simp: search_step_def t1 t2 Let_def)
  next
    case False
    then have "check_if_bitrate_too_low env a (Some (sysctl_line k @ [newline])) (t2\<lparr>applied := False\<rparr>) l
        = Inr (t', c, l')"
      using assms(1) by (auto simp: search_step_def t1 t2 Let_def bindE_Inr_iff)
    from check_near [OF this assms(2) _ assms(4-7)] n show ?thesis by simp
  qed
qed

lemma search_run_near:
  "search_run rs (t, k, l) = Inr (t', k', l') \<Longrightarrow> near M k0 k \<Longrightarrow> tuner_near M k0 t \<Longrightarrow> default_ok k0 \<Longrightarrow>
     \<forall>(env, a) \<in> set rs. my_tune_max env = M \<Longrightarrow> 0 \<le> M \<Longrightarrow> M < 2 ^ 31 \<Longrightarrow> near M k0 k'"
proof (induction rs arbitrary: t k l)
  case (Cons r rs)
  obtain env a where r: "r = (env, a)" by (cases r)
  obtain b t1 c l1 where s: "search_step env a (Some (sysctl_line k @ [newline])) t l = Inr (b, t1, c, l1)"
    "search_run rs (t1, case c of None \<Rightarrow> k | Some w \<Rightarrow> w, l1) = Inr (t', k', l')"
    using Cons.prems(1) by (auto simp: r bindE_Inr_iff)
  have "my_tune_max env = M" using Cons.prems(5) by (simp add: r)
  from search_step_near [OF s(1) Cons.prems(2-4) this Cons.prems(6,7)]
  have n: "tuner_near M k0 t1" "near M k0 (case c of None \<Rightarrow> k | Some w \<Rightarrow> w)"
    using Cons.prems(2) by (auto split: option.splits)
  show ?case using Cons.IH [OF s(2) n(2,1)] Cons.prems by simp
qed simp

text \<open>A search that only gets worse after its first change: what ten such rounds lead to.\<close>

definition tunes :: "int \<Rightarrow> double \<Rightarrow> tuner_env \<Rightarrow> bool" where
  \<comment> \<open>tuning mode, and a good rate would be above \<open>a\<close>\<close>
  "tunes M a env \<longleftrightarrow> gTuningMode (te_pace env) \<and> a < vGoodBitrateValue env \<and> my_tune_max env = M
     \<and> length (te_stamp env) \<le> 100"

definition losing :: "double \<Rightarrow> nat \<Rightarrow> tuner \<Rightarrow> bool" where
  "losing a n t \<longleftrightarrow> suggested t = 0 \<and> applied t \<and> max_apply t = n \<and> tune t \<noteq> 3
     \<and> highest_average t = a \<and> best_wmem_val t = None"

lemma length_wmem_cmd: "default_ok w \<Longrightarrow> length (wmem_cmd w) \<le> 80"
  using length_show_u32 [of "kminimum w"] length_show_u32 [of "kmaximum w"] length_show_default [of w]
  by (simp add: wmem_cmd_def wmem_text_def)

lemma apply_wmem_ok:
  assumes "log_ok l" "default_ok w" "length (te_stamp env) \<le> 100"
  shows "\<exists>l'. apply_wmem env w t l = Inr (t\<lparr>aApplyDefTunBest := Some w, applied := True\<rparr>, Some w, l')
    \<and> log_ok l'"
proof -
  let ?a = "te_stamp env @ '': ***ACTIVITY=APPLIED TUNING***: '' @ wmem_cmd w"
  have "length (?a @ activity_tag l) < MAX_SIZE_TUNING_STRING"
    using length_wmem_cmd [OF assms(2)] length_activity_tag [OF assms(1)] assms(3)
    by (simp add: MAX_SIZE_TUNING_STRING_def)
  then obtain l' where "record_activity ?a l = Inr l'"
    by (simp only: record_activity_def Let_def) (simp add: not_le)
  with record_activity_Inr(1) [OF assms(1) this] show ?thesis by (simp add: apply_wmem_def)
qed

lemma below_max:
  assumes "0 \<le> M" "M < 2 ^ 31" "unat (kmaximum k) < nat M"
  shows "\<not> word_of_int M \<le> kmaximum k"
proof -
  have "unat (word_of_int M :: u32) = nat M"
    using assms(1,2) by (simp add: unat_eq_nat_uint uint_word_of_int)
  with assms(3) show ?thesis by (simp only: word_le_nat_alt not_le)
qed

lemma judge_losing:
  assumes "losing a n t" "n < 9" "b < a"
  shows "judge b t = Inr (t\<lparr>tune := if previous_average t < a then 1 else 2, max_apply := n + 1,
    previous_average := b\<rparr>)"
  using assms by (simp add: judge_def note_highest_def settle_def losing_def MAX_TUNING_APPLY_def Let_def)

lemma judge_lost:
  "losing a 9 t \<Longrightarrow> b < a \<Longrightarrow> judge b t = Inl (Uninitialised ''best_wmem_val'')"
  by (simp add: judge_def note_highest_def settle_def losing_def MAX_TUNING_APPLY_def Let_def)

lemma losing_step:
  assumes "losing a n t" "n < 9" "1 \<le> b" "b < a" "tunes M a env" "0 < M" "M < 2 ^ 31"
    and "log_ok l" "default_ok k" "unat (kmaximum k) < nat M"
    and "\<not> previous_average t < a \<longrightarrow> 600000 < kmaximum k"
  shows "\<exists>t' l'. search_step env b (Some (sysctl_line k @ [newline])) t l =
      Inr (False, t', Some (k\<lparr>kmaximum := if previous_average t < a then kmaximum k + KTUNING_DELTA
                               else kmaximum k - KTUNING_DELTA\<rparr>), l')
    \<and> losing a (n + 1) t' \<and> previous_average t' = b \<and> log_ok l'"
proof -
  let ?up = "previous_average t < a"
  let ?k = "k\<lparr>kmaximum := if ?up then kmaximum k + KTUNING_DELTA else kmaximum k - KTUNING_DELTA\<rparr>"
  let ?t = "t\<lparr>tune := if ?up then 1 else 2, max_apply := n + 1, previous_average := b, applied := False\<rparr>"
  have s: "length (te_stamp env) \<le> 100" "my_tune_max env = M" "gTuningMode (te_pace env)"
    "b < vGoodBitrateValue env"
    using assms(4,5) by (auto simp: tunes_def)
  have "default_ok ?k" using assms(9) by (simp add: default_ok_def)
  from apply_wmem_ok [OF assms(8) this s(1), of ?t] obtain l' where
    l': "apply_wmem env ?k ?t l = Inr (?t\<lparr>aApplyDefTunBest := Some ?k, applied := True\<rparr>, Some ?k, l')" "log_ok l'"
    by blast
  have "tune_wmem env k ?t l = apply_wmem env ?k ?t l"
    using below_max [OF _ assms(7,10)] assms(6,11) by (simp add: tune_wmem_def s)
  then have "check_if_bitrate_too_low env b (Some (sysctl_line k @ [newline])) ?t l = apply_wmem env ?k ?t l"
    using assms(6) s by (simp add: check_reads [OF assms(9)])
  moreover have "back_off (t\<lparr>tune := if ?up then 1 else 2, max_apply := n + 1, previous_average := b\<rparr>) = (False, ?t)"
    using assms(1) by (simp add: back_off_def losing_def)
  ultimately have "search_step env b (Some (sysctl_line k @ [newline])) t l =
      Inr (False, ?t\<lparr>aApplyDefTunBest := Some ?k, applied := True\<rparr>, Some ?k, l')"
    using assms(3) l'(1) by (simp add: search_step_def judge_losing [OF assms(1,2,4)] Let_def)
  moreover have "losing a (n + 1) (?t\<lparr>aApplyDefTunBest := Some ?k, applied := True\<rparr>)"
    using assms(1) by (simp add: losing_def)
  moreover have "previous_average (?t\<lparr>aApplyDefTunBest := Some ?k, applied := True\<rparr>) = b" by simp
  ultimately show ?thesis using l'(2) by blast
qed

lemma raised_maximum:
  "0 < M \<Longrightarrow> M < 2 ^ 31 \<Longrightarrow> unat (kmaximum k) < nat M \<Longrightarrow>
     unat (kmaximum k + KTUNING_DELTA) = unat (kmaximum k) + 200000"
proof -
  assume "0 < M" "M < 2 ^ 31" "unat (kmaximum k) < nat M"
  then have "unat (kmaximum k) < 2 ^ 31" by (simp add: nat_less_iff)
  then show ?thesis by (simp add: KTUNING_DELTA_def unat_word_ariths)
qed

lemma losing_run:
  "losing a n t \<Longrightarrow> n + length rs = 10 \<Longrightarrow> rs \<noteq> [] \<Longrightarrow> previous_average t < a \<Longrightarrow>
   \<forall>(env, b) \<in> set rs. tunes M a env \<and> 1 \<le> b \<and> b < a \<Longrightarrow> 0 < M \<Longrightarrow> M < 2 ^ 31 \<Longrightarrow> log_ok l \<Longrightarrow>
   default_ok k \<Longrightarrow> unat (kmaximum k) + 200000 * (8 - n) < nat M \<Longrightarrow>
     search_run rs (t, k, l) = Inl (Uninitialised ''best_wmem_val'')"
proof (induction rs arbitrary: n t k l)
  case (Cons r rs)
  obtain env b where r: "r = (env, b)" by (cases r)
  have e: "tunes M a env" "1 \<le> b" "b < a" using Cons.prems(5) by (auto simp: r)
  show ?case
  proof (cases "rs = []")
    case True
    then have "n = 9" using Cons.prems(2) by simp
    with judge_lost [OF _ e(3)] Cons.prems(1) show ?thesis by (simp add: r search_step_def)
  next
    case False
    then have n: "n < 9" using Cons.prems(2) by (cases rs) auto
    let ?k = "k\<lparr>kmaximum := kmaximum k + KTUNING_DELTA\<rparr>"
    have km: "unat (kmaximum k) < nat M" using Cons.prems(10) by simp
    obtain t' l' where s: "search_step env b (Some (sysctl_line k @ [newline])) t l = Inr (False, t', Some ?k, l')"
      "losing a (n + 1) t'" "previous_average t' = b" "log_ok l'"
      using losing_step [OF Cons.prems(1) n e(2,3,1) Cons.prems(6-9) km] Cons.prems(4) by auto
    have u: "unat (kmaximum ?k) = unat (kmaximum k) + 200000"
      using raised_maximum [OF Cons.prems(6,7) km] by simp
    have d: "default_ok ?k" using Cons.prems(9) by (simp add: default_ok_def)
    show ?thesis
    proof (cases "n = 8")
      case True
      then obtain env' b' where r': "rs = [(env', b')]"
        using Cons.prems(2) by (cases rs) auto
      then have "judge b' t' = Inl (Uninitialised ''best_wmem_val'')"
        using Cons.prems(5) s(2) True by (intro judge_lost) auto
      then show ?thesis by (simp add: r r' s(1) search_step_def [of env'])
    next
      case False
      then have "unat (kmaximum ?k) + 200000 * (8 - (n + 1)) < nat M"
        using Cons.prems(10) n u by (simp add: algebra_simps)
      from Cons.IH [OF s(2) _ \<open>rs \<noteq> []\<close> _ _ Cons.prems(6,7) s(4) d this]
      have "search_run rs (t', ?k, l') = Inl (Uninitialised ''best_wmem_val'')"
        using Cons.prems(2,5) s(3) e(3) by simp
      then show ?thesis by (simp add: r s(1))
    qed
  qed
qed simp

text \<open>The first round after the start, at a low rate, raises the maximum.\<close>

definition after_first :: "double \<Rightarrow> wmem \<Rightarrow> tuner" where
  "after_first a w = initial_tuner\<lparr>highest_average := a, previous_average := a,
     aApplyDefTunBest := Some w, applied := True\<rparr>"

lemma first_step:
  assumes "tunes M a env" "1 \<le> a" "0 < M" "M < 2 ^ 31" "unat (kmaximum k) < nat M"
    and "default_ok k" "log_ok l"
  shows "\<exists>l1. search_step env a (Some (sysctl_line k @ [newline])) initial_tuner l =
      Inr (False, after_first a (k\<lparr>kmaximum := kmaximum k + KTUNING_DELTA\<rparr>),
        Some (k\<lparr>kmaximum := kmaximum k + KTUNING_DELTA\<rparr>), l1) \<and> log_ok l1"
proof -
  let ?k = "k\<lparr>kmaximum := kmaximum k + KTUNING_DELTA\<rparr>"
  let ?start = "initial_tuner\<lparr>highest_average := a, previous_average := a\<rparr>"
  have e: "length (te_stamp env) \<le> 100" "my_tune_max env = M" "gTuningMode (te_pace env)" "a < vGoodBitrateValue env"
    using assms(1) by (auto simp: tunes_def)
  have "default_ok ?k" using assms(6) by (simp add: default_ok_def)
  from apply_wmem_ok [OF assms(7) this e(1), of ?start] obtain l1 where
    l1: "apply_wmem env ?k ?start l = Inr (after_first a ?k, Some ?k, l1)" "log_ok l1"
    by (auto simp: after_first_def)
  have "judge a initial_tuner = Inr ?start"
    using assms(2) by (simp add: judge_def initial_tuner_def note_highest_def settle_def MAX_TUNING_APPLY_def Let_def)
  moreover have "back_off ?start = (False, ?start)" "?start\<lparr>applied := False\<rparr> = ?start"
    by (simp_all add: back_off_def initial_tuner_def)
  moreover have "tune_wmem env k ?start l = apply_wmem env ?k ?start l"
    using below_max [of M k] assms(3-5) by (simp add: tune_wmem_def e initial_tuner_def)
  then have "check_if_bitrate_too_low env a (Some (sysctl_line k @ [newline])) ?start l
      = Inr (after_first a ?k, Some ?k, l1)"
    using assms(3) e l1(1) by (simp add: check_reads [OF assms(6)])
  ultimately have "search_step env a (Some (sysctl_line k @ [newline])) initial_tuner l
      = Inr (False, after_first a ?k, Some ?k, l1)"
    using assms(2) by (simp only: search_step_def bindE_simps prod.case bool.case Let_def if_True)
  with l1(2) show ?thesis by blast
qed

text \<open>Without traffic and with nothing pending the search does nothing.\<close>

definition quiet :: "tuner \<Rightarrow> bool" where
  "quiet t \<longleftrightarrow> \<not> applied t \<and> suggested t = 0 \<and> nothing_done t = 0"

lemma quiet_step: "quiet t \<Longrightarrow> \<exists>t'. search_step env 0 sysctl t l = Inr (False, t', None, l) \<and> quiet t'"
  by (simp add: search_step_def judge_def note_highest_def settle_def back_off_def quiet_def
      MAX_TUNING_APPLY_def Let_def)

section \<open>Lemmas: a round\<close>

lemma search_round_keeps:
  assumes "search_round env a th = Inr th'"
  shows "rt_timers th' = rt_timers th" "rt_pacer th' = rt_pacer th" "rt_waits th' = rt_waits th"
    "vTwiceInaRow th' = vTwiceInaRow th"
  using assms
  by (auto simp: search_round_def bindE_Inr_iff note_traffic_def Let_def split: prod.splits if_splits)

lemma reset_channels_keeps [simp]:
  "rt_timers (reset_channels env th) = rt_timers th" "rt_pacer (reset_channels env th) = rt_pacer th"
  "rt_waits (reset_channels env th) = rt_waits th" "vTwiceInaRow (reset_channels env th) = vTwiceInaRow th"
  by (simp_all add: reset_channels_def)

lemma averages_idle: "averages speed 0 0 = Some (0, 0)"
  by (simp add: averages_def Gbits_0_iff Let_def)

lemma idle_round:
  assumes "threshold_round env th = Inr (th', b)" "measure_rates (re_rates env) = Some (b, 0, 0)"
  shows "rt_timers th' = fst (idle_link (vTwiceInaRow th) (rt_timers th))"
    "rt_waits th' = rt_waits th @ snd (idle_link (vTwiceInaRow th) (rt_timers th))"
    "rt_pacer th' = idle_reset_pacing (re_pace env) (rt_pacer th)" "vTwiceInaRow th'"
proof -
  obtain nxt tabs where w: "watch_apps (re_clk env) (re_probe env) (re_lsof env)
      (previous_average (rt_tuner th)) (vLastIpFound th) (rt_tables th) = (nxt, tabs)" by fastforce
  let ?th1 = "th\<lparr>vLastIpFound := nxt, rt_tables := tabs, tx_kbits_per_sec := 0, rx_kbits_per_sec := 0\<rparr>"
  let ?th2 = "(idle_check env ?th1)\<lparr>global_tx := 0, global_rx := 0\<rparr>"
  have "search_round env 0 (reset_channels env ?th2) = Inr th'"
    using assms by (auto simp: threshold_round_def w averages_idle Let_def bindE_Inr_iff)
  note k = search_round_keeps [OF this]
  show "rt_timers th' = fst (idle_link (vTwiceInaRow th) (rt_timers th))"
    "rt_waits th' = rt_waits th @ snd (idle_link (vTwiceInaRow th) (rt_timers th))"
    "rt_pacer th' = idle_reset_pacing (re_pace env) (rt_pacer th)" "vTwiceInaRow th'"
    by (simp_all add: k idle_check_def split_beta)
qed

lemma quiet_search:
  assumes "quiet (rt_tuner th)"
  shows "\<exists>th'. search_round env 0 th = Inr th' \<and> quiet (rt_tuner th')"
proof -
  obtain t' where "search_step (re_tuner env) 0 (re_sysctl env) (rt_tuner th) (rt_log th)
      = Inr (False, t', None, rt_log th)" "quiet t'"
    using quiet_step [OF assms] by blast
  then show ?thesis by (simp add: search_round_def note_traffic_def Let_def split: prod.split)
qed

lemma quiet_round:
  assumes "measure_rates (re_rates env) = Some (b, 0, 0)" "quiet (rt_tuner th)"
  shows "\<exists>th'. threshold_round env th = Inr (th', b) \<and> quiet (rt_tuner th')"
proof -
  obtain nxt tabs where w: "watch_apps (re_clk env) (re_probe env) (re_lsof env)
      (previous_average (rt_tuner th)) (vLastIpFound th) (rt_tables th) = (nxt, tabs)" by fastforce
  let ?th = "reset_channels env ((idle_check env
      (th\<lparr>vLastIpFound := nxt, rt_tables := tabs, tx_kbits_per_sec := 0, rx_kbits_per_sec := 0\<rparr>))
        \<lparr>global_tx := 0, global_rx := 0\<rparr>)"
  have "quiet (rt_tuner ?th)"
    using assms(2) by (simp add: reset_channels_def idle_check_def split_beta)
  from quiet_search [OF this] show ?thesis using assms(1)
    by (auto simp: threshold_round_def w averages_idle Let_def bindE_Inr_iff)
qed

lemma idle_reset_clears:
  assumes "gTuningMode env" "pe_attach env 0" "pe_attach env 1"
  shows "rp_set (shm (idle_reset_pacing env p)) = 0"
  using assms
  by (cases "rp_set (shm p) = 0") (simp_all add: idle_reset_pacing_def pacing_set_def shm_read_def record_pacing_def shm_write_def run_cmds_def)

section \<open>Properties\<close>

text \<open>C14: The measured rates are the true ones.  From a report of a header line and lines of transmit
  and receive counters that do not run backwards, whose last line has a transmit counter that is
  not 0, the thread computes exactly eight times the bytes between the first and the last line,
  in units of 1000 bits, for both directions.\<close>

theorem rate_measured:
  assumes "line_ok 128 header" "cs \<noteq> []" "fst (last cs) \<noteq> 0"
    and "fst c0 \<le> fst (last cs)" "8 * (unat (fst (last cs)) - unat (fst c0)) < 2 ^ 64"
    and "snd c0 \<le> snd (last cs)" "8 * (unat (snd (last cs)) - unat (snd c0)) < 2 ^ 64"
  shows "\<exists>tx rx. measure_rates (Some (report header c0 cs)) = Some (True, tx, rx)
    \<and> unat tx = 8 * (unat (fst (last cs)) - unat (fst c0)) div 1000
    \<and> unat rx = 8 * (unat (snd (last cs)) - unat (snd c0)) div 1000"
  using measure_report [OF assms(1-3)] unat_kbits [OF assms(4,5)] unat_kbits [OF assms(6,7)] by simp

theorem rate_measured_witness:
  "\<exists>tx rx. measure_rates (Some (report ''Attaching 4 probes...'' (1000, 500) [(5000, 900), (251000, 1500)]))
     = Some (True, tx, rx) \<and> unat tx = 2000 \<and> unat rx = 8"
  using rate_measured [of "''Attaching 4 probes...''" "[(5000, 900), (251000, 1500)]" "(1000, 500)"]
  by (simp add: line_ok_def word_le_nat_alt)

lemma fast_rate_skipped: "averages 2500 2400000 rx = None"
proof -
  have "Gbits 2400000 = rnd (12 / 5)" by (simp add: Gbits_def ddiv_def dint_exact rnd_numeral)
  moreover have "2 < rnd (12 / 5)" by code_simp
  moreover have "(2500 :: int) sdiv 1000 = 2" by (simp add: signed_divide_int_def)
  ultimately show ?thesis by (simp add: averages_def Let_def)
qed

text \<open>C15: Both measurements publish the same rate, within the speed of the NIC.  For any report the
  transmit average \<open>fGetTxBitRate\<close> leaves is the one the thresholds thread publishes; a published
  average is 0 exactly when nothing was sent, and otherwise at most the NIC's speed in whole Gb/s
  plus the jitter of 0.30.  It is skipped exactly when it is above those whole Gb/s, so 2.4 Gb/s sent
  on a NIC of 2.5 Gb/s are never published.\<close>

theorem published_rates:
  assumes "measure_rates out = Some (stage, tx, rx)"
  shows "fGetTxBitRate speed out g = (case averages speed tx rx of None \<Rightarrow> g | Some (a, b) \<Rightarrow> a)
    \<and> (case averages speed tx rx of None \<Rightarrow> tx \<noteq> 0
       | Some (a, b) \<Rightarrow> (a = 0 \<longleftrightarrow> tx = 0) \<and> 0 \<le> a
          \<and> a \<le> dadd (max 0 (of_int (speed sdiv 1000))) (dlit (30 / 100)))
    \<and> (0 \<le> speed \<longrightarrow> (averages speed tx rx = None \<longleftrightarrow> of_int (speed sdiv 1000) < Gbits tx))
    \<and> averages 2500 2400000 rx = None"
proof -
  have j: "0 < dlit (30 / 100)"
    using rnd_nonneg [of "30 / 100"] rnd_eq_0_iff [of "30 / 100"] by (simp add: dlit_def order_less_le)
  then have s: "0 < dadd (Gbits tx) (dlit (30 / 100))"
    using rnd_nonneg [of "Gbits tx + dlit (30 / 100)"] Gbits_nonneg [of tx]
      rnd_eq_0_iff [of "Gbits tx + dlit (30 / 100)"]
    by (simp add: dadd_def order_less_le)
  have le: "dadd (Gbits tx) (dlit (30 / 100)) \<le> dadd (max 0 (of_int (speed sdiv 1000))) (dlit (30 / 100))"
    if "\<not> of_int (speed sdiv 1000) < Gbits tx"
    using that by (intro dadd_mono) auto
  have z: "0 \<le> dadd (max 0 (of_int (speed sdiv 1000))) (dlit (30 / 100))"
    using j by (simp add: dadd_def rnd_nonneg)
  have ge: "0 < Gbits tx" if "0 \<le> speed" "of_int (speed sdiv 1000) < Gbits tx"
  proof -
    have "0 \<le> speed sdiv 1000" using that(1) by (simp add: signed_divide_int_def sgn_if)
    then have "(0 :: rat) \<le> of_int (speed sdiv 1000)" by simp
    with that(2) show ?thesis by linarith
  qed
  have fast: "averages 2500 2400000 rx = None" by (rule fast_rate_skipped)
  show ?thesis
    using assms s le z ge fast Gbits_0_iff [of tx]
    by (auto simp: fGetTxBitRate_def averages_def tx_average_def Let_def)
qed

theorem published_rates_witness:
  "fGetTxBitRate 2500 (Some (report ''x'' (1000, 500) [(300001000, 1500)])) 8 = 8"
proof -
  have "measure_rates (Some (report ''x'' (1000, 500) [(300001000, 1500)])) = Some (True, 2400000, 8)"
    using measure_report [of "''x''" "[(300001000, 1500)]" "(1000, 500)"] by (simp add: line_ok_def kbits_def)
  from published_rates [OF this, of 2500 8] show ?thesis by simp
qed


definition low_rate_env :: tuner_env where
  "low_rate_env = \<lparr>te_pace = tuning_env, vGoodBitrateValue = 15, my_tune_max = 1147483647,
     te_stamp = ''12:00:00 TUNING''\<rparr>"

definition default_wmem :: wmem where
  "default_wmem = \<lparr>kminimum = 4096, kdefault = 16384, kmaximum = 4194304\<rparr>"

lemma low_rate_tunes: "a < 15 \<Longrightarrow> tunes 1147483647 a low_rate_env"
  by (simp add: tunes_def low_rate_env_def tuning_env_def)

lemma default_wmem_ok: "default_ok default_wmem"
  by (simp add: default_ok_def default_wmem_def)


text \<open>C16: The search can run an uninitialised command.  If the first rate after the start is low but at
  least 1 Gb/s and each of the ten rates after it lower still, while the maximum of \<open>tcp_wmem\<close> has
  room both ways, then the eleventh round copies \<open>best_wmem_val\<close>, which nothing was ever stored to,
  into the command the thread would run next.\<close>

theorem search_runs_unset_best:
  assumes "tunes M a env" "1 \<le> a" "length rs = 10"
    and "\<forall>r \<in> set rs. tunes M a (fst r) \<and> 1 \<le> snd r \<and> snd r < a"
    and "400000 < unat (kmaximum k)" "unat (kmaximum k) + 1600000 < nat M" "0 < M" "M < 2 ^ 31"
    and "default_ok k" "log_ok l"
  shows "search_run ((env, a) # rs) (initial_tuner, k, l) = Inl (Uninitialised ''best_wmem_val'')"
proof -
  let ?k = "k\<lparr>kmaximum := kmaximum k + KTUNING_DELTA\<rparr>"
  have d: "default_ok ?k" using assms(9) by (simp add: default_ok_def)
  have k: "unat (kmaximum k) < nat M" using assms(6) by simp
  obtain l1 where l1: "search_step env a (Some (sysctl_line k @ [newline])) initial_tuner l
      = Inr (False, after_first a ?k, Some ?k, l1)" "log_ok l1"
    using first_step [OF assms(1,2,7,8) k assms(9,10)] by blast
  have "losing a 0 (after_first a ?k)" by (simp add: losing_def after_first_def initial_tuner_def)
  obtain r rs' where r: "rs = r # rs'" "length rs' = 9" using assms(3) by (cases rs) auto
  have u: "unat (kmaximum ?k) = unat (kmaximum k) + 200000"
    using raised_maximum [OF assms(7,8) k] by simp
  have r1: "tunes M a (fst r)" "1 \<le> snd r" "snd r < a" using assms(4) r by auto
  have p: "\<not> previous_average (after_first a ?k) < a" by (simp add: after_first_def)
  have big: "600000 < kmaximum ?k" using u assms(5) by (simp add: word_less_nat_alt)
  have km: "unat (kmaximum ?k) < nat M" using u assms(6) by linarith
  obtain t2 l2 where s2: "search_step (fst r) (snd r) (Some (sysctl_line ?k @ [newline])) (after_first a ?k) l1 =
      Inr (False, t2, Some (?k\<lparr>kmaximum := kmaximum ?k - KTUNING_DELTA\<rparr>), l2)"
    "losing a 1 t2" "previous_average t2 = snd r" "log_ok l2"
    using losing_step [OF \<open>losing a 0 _\<close> _ r1(2,3,1) assms(7,8) l1(2) d km] big p by auto
  have "?k\<lparr>kmaximum := kmaximum ?k - KTUNING_DELTA\<rparr> = k" by simp
  with s2 have "search_run rs (after_first a ?k, ?k, l1) = search_run rs' (t2, k, l2)"
    by (cases r) (simp add: r)
  also have "\<dots> = Inl (Uninitialised ''best_wmem_val'')"
    using losing_run [OF s2(2) _ _ _ _ assms(7,8) s2(4) assms(9)] r assms(4,6) s2(3) r1(3) by fastforce
  finally show ?thesis by (simp add: l1(1))
qed

theorem search_runs_unset_best_witness:
  "search_run ((low_rate_env, 8) # replicate 10 (low_rate_env, 7)) (initial_tuner, default_wmem, empty_log)
     = Inl (Uninitialised ''best_wmem_val'')"
  by (rule search_runs_unset_best [OF low_rate_tunes])
    (simp_all add: low_rate_tunes default_wmem_ok, simp_all add: default_wmem_def)


definition idle_env :: round_env where
  "idle_env = \<lparr>re_tuner = low_rate_env, re_clk = (\<lambda>_. 0), re_probe = (\<lambda>_ _. None), re_lsof = None,
     re_rates = Some (report ''x'' (1000, 500) [(1000, 500)]), re_sysctl = None, netDevice = ''eth0'',
     netDevice_only_combined_channel_cfg = True, netDevice_rx_channel_cfg_curr_val = 0,
     netDevice_tx_channel_cfg_curr_val = 0, netDevice_combined_channel_cfg_curr_val = 8\<rparr>"

definition alarmed_thread :: rate_thread where
  "alarmed_thread = \<lparr>rt_tuner = initial_tuner, vLastIpFound = 0, vTwiceInaRow = False,
     vDidSetChannel = False, tx_kbits_per_sec = 0, rx_kbits_per_sec = 0, global_tx = 0, global_rx = 0,
     rt_timers = initial_timers\<lparr>vq_TimerIsSet := True, hop_armed := True,
       vCanStartEvaluationTimer := False, eval_armed := True, vSentPacingOver := True\<rparr>,
     rt_pacer = no_pacing, rt_tables = no_peers, rt_log = empty_log, rt_waits = [], rt_commands = []\<rparr>"


end
