(* ===== verification/User_Config.thy ===== *)
theory User_Config
  imports C_Stdio "HOL-Library.Signed_Division"
begin

text \<open>
  The user's configuration (\<open>src/userspace/user_assess.c\<close>): \<open>fDoGetUserCfgValues\<close> reads
  \<open>user_config.txt\<close> into \<open>userValues\<close> and sets the globals, \<open>fCheck_log_limit\<close> looks at the number of
  log backups; the client \<open>src/cli/tuncli.c\<close> reads the same file for the port; \<open>makeTimer\<close> and the
  start of \<open>main\<close> (\<open>src/userspace/user_dtn.c\<close>) use what was read.

  A line is read into a buffer of \<open>getline\<close>; what lies past its terminating NUL is left from an
  earlier line or was never written, so a loop that runs past it ends in a fault.
\<close>

section \<open>Reading the file\<close>

text \<open>The names and default values of \<open>userValues\<close>; the configured values start as ``-1''.\<close>

definition known_settings :: "(string \<times> string) list" where
  "known_settings = [(''evaluation_timer'', ''500000''), (''learning_mode_only'', ''y''),
     (''API_listen_port'', ''5523''), (''apply_default_system_tuning'', ''n''),
     (''apply_bios_tuning'', ''n''), (''apply_nic_tuning'', ''n''),
     (''make_default_system_tuning_perm'', ''n''), (''maxnum_tuning_logs'', ''10''),
     (''source_dtn_port'', ''5524''), (''nic_to_use'', ''na''), (''nic_attach_type'', ''xdpoffload''),
     (''source_hpnssh_qfactor_port'', ''5525''), (''use_apache_kafka'', ''n''),
     (''apache_kafka_topic'', ''none'')]"

definition names :: "string list" where "names = map fst known_settings"

type_synonym cfg_values = "string \<Rightarrow> string"

definition unset :: cfg_values where "unset = (\<lambda>_. ''-1'')"

definition file_lines :: "string \<Rightarrow> string list" where
  "file_lines s = read_lines (length s + 2) s"

text \<open>The key of a line, up to the first blank, in \<open>setting[256]\<close>, and the rest of the line.\<close>

definition line_key :: "string \<Rightarrow> c_fault + (string \<times> string)" where
  "line_key p =
    (let key = takeWhile (\<lambda>c. \<not> isblank c) p; rest = dropWhile (\<lambda>c. \<not> isblank c) p
     in if 256 \<le> length key then Inl (Buffer_Overflow ''setting'' (length key + 1))
        else if rest = [] then Inl (Unterminated ''line'')
        else Inr (key, rest))"

text \<open>The value: the first character after the blanks, whatever it is, and the letters and digits that
  follow; for two keys also what follows up to white space.\<close>

definition line_value :: "string \<Rightarrow> string \<Rightarrow> c_fault + string" where
  "line_value key rest =
    (case dropWhile isblank rest of [] \<Rightarrow> Inl (Unterminated ''line'')
     | c # r \<Rightarrow>
       (let a = takeWhile isalnum r; r1 = dropWhile isalnum r;
            more = (key = ''nic_to_use'' \<or> key = ''apache_kafka_topic'');
            b = (if more then takeWhile (\<lambda>x. \<not> isspace x) r1 else []);
            r2 = dropWhile (\<lambda>x. \<not> isspace x) r1;
            v = c # a @ b
        in if 256 \<le> length v then Inl (Buffer_Overflow ''setting'' (length v + 1))
           else if more \<and> r2 = [] then Inl (Unterminated ''line'')
           else Inr v))"

definition read_cfg_line :: "string \<Rightarrow> cfg_values \<Rightarrow> c_fault + cfg_values" where
  "read_cfg_line p cfg =
    bindE (line_key p) (\<lambda>(key, rest).
      if key \<in> set names then bindE (line_value key rest) (\<lambda>v. Inr (cfg(key := take 31 v)))
      else Inr cfg)"

fun read_cfg_lines :: "string list \<Rightarrow> cfg_values \<Rightarrow> c_fault + cfg_values" where
  "read_cfg_lines [] cfg = Inr cfg"
| "read_cfg_lines (p # ps) cfg = bindE (read_cfg_line p cfg) (read_cfg_lines ps)"

section \<open>The globals\<close>

record user_settings =
  gInterval :: int
  vUseEvalutaionTimerDefaultValue :: bool
  cfg_tuning_mode :: bool   \<comment> \<open>\<open>gTuningMode\<close>\<close>
  gAPI_listen_port :: int
  gApplyDefSysTuning :: char
  gApplyBiosTuning :: char
  gApplyNicTuning :: char
  gMakeTuningPermanent :: char
  gMaxnum_tuning_logs :: int
  gSource_Dtn_Port :: int
  gSource_HpnsshQfactor_Port :: int
  gNic_to_use :: "string option"
  gNic_attach_type :: "string option"
  gUseApacheKafka :: bool
  gKafkaTopic :: "string option"

definition initial_settings :: user_settings where
  "initial_settings = \<lparr>gInterval = 500000, vUseEvalutaionTimerDefaultValue = False,
     cfg_tuning_mode = False, gAPI_listen_port = 5523, gApplyDefSysTuning = CHR ''n'',
     gApplyBiosTuning = CHR ''n'', gApplyNicTuning = CHR ''n'', gMakeTuningPermanent = CHR ''n'',
     gMaxnum_tuning_logs = 10, gSource_Dtn_Port = 5524, gSource_HpnsshQfactor_Port = 5525,
     gNic_to_use = None, gNic_attach_type = None, gUseApacheKafka = False, gKafkaTopic = None\<rparr>"

definition first_char :: "string \<Rightarrow> char" where
  "first_char v = (case v of [] \<Rightarrow> CHR 0x00 | c # _ \<Rightarrow> c)"

text \<open>The body of the loop over \<open>userValues\<close>: a name, its default and its configured value.\<close>

definition use_value :: "string \<Rightarrow> string \<Rightarrow> string \<Rightarrow> user_settings \<Rightarrow> user_settings" where
  "use_value name dflt v s =
    (if name = ''evaluation_timer''
     then (let cfg_val = atoi v in
           if cfg_val = 0 then s\<lparr>gInterval := atoi dflt\<rparr>
           else if 999 < cfg_val then s\<lparr>gInterval := cfg_val\<rparr>
           else s\<lparr>vUseEvalutaionTimerDefaultValue := True\<rparr>)
     else if name = ''learning_mode_only''
     then (if first_char v = CHR ''n'' then s\<lparr>cfg_tuning_mode := True\<rparr> else s)
     else if name = ''apply_default_system_tuning''
     then (if first_char v = CHR ''y'' then s\<lparr>gApplyDefSysTuning := CHR ''y''\<rparr> else s)
     else if name = ''apply_bios_tuning''
     then (if first_char v = CHR ''y'' then s\<lparr>gApplyBiosTuning := CHR ''y''\<rparr> else s)
     else if name = ''apply_nic_tuning''
     then (if first_char v = CHR ''y'' then s\<lparr>gApplyNicTuning := CHR ''y''\<rparr> else s)
     else if name = ''make_default_system_tuning_perm''
     then (if first_char v = CHR ''y'' then s\<lparr>gMakeTuningPermanent := CHR ''y''\<rparr> else s)
     else if name = ''API_listen_port''
     then s\<lparr>gAPI_listen_port := (if atoi v = 0 then atoi dflt else atoi v)\<rparr>
     else if name = ''maxnum_tuning_logs''
     then s\<lparr>gMaxnum_tuning_logs := (if atoi v = - 1 then atoi dflt else atoi v)\<rparr>
     else if name = ''source_dtn_port''
     then s\<lparr>gSource_Dtn_Port := (if atoi v = - 1 then atoi dflt else atoi v)\<rparr>
     else if name = ''nic_to_use''
     then (if v = ''-1'' then s else s\<lparr>gNic_to_use := Some v\<rparr>)
     else if name = ''nic_attach_type''
     then s\<lparr>gNic_attach_type := Some (if v = ''-1'' then dflt else v)\<rparr>
     else if name = ''source_hpnssh_qfactor_port''
     then s\<lparr>gSource_HpnsshQfactor_Port := (if atoi v = - 1 then atoi dflt else atoi v)\<rparr>
     else if name = ''use_apache_kafka''
     then (if first_char v = CHR ''y'' then s\<lparr>gUseApacheKafka := True\<rparr> else s)
     else if name = ''apache_kafka_topic''
     then s\<lparr>gKafkaTopic := Some (if v = ''-1'' then dflt else v)\<rparr>
     else s)"

definition use_values :: "cfg_values \<Rightarrow> user_settings \<Rightarrow> user_settings" where
  "use_values cfg s = fold (\<lambda>(name, dflt). use_value name dflt (cfg name)) known_settings s"

text \<open>\<open>None\<close>: the file could not be opened.\<close>

definition fDoGetUserCfgValues :: "string option \<Rightarrow> user_settings \<Rightarrow> c_fault + user_settings" where
  "fDoGetUserCfgValues file s =
    (case file of None \<Rightarrow> Inr s
     | Some t \<Rightarrow> bindE (read_cfg_lines (file_lines t) unset) (\<lambda>cfg. Inr (use_values cfg s)))"

section \<open>The log limit, the client's port, and timers\<close>

text \<open>The number of backups in \<open>/tmp/tuningLog.count\<close>, and the command that starts over.\<close>

definition fCheck_log_limit :: "user_settings \<Rightarrow> string option \<Rightarrow> c_fault + string option" where
  "fCheck_log_limit s file =
    (case file of None \<Rightarrow> Inr None
     | Some t \<Rightarrow> (case file_lines t of [] \<Rightarrow> Inr None
       | p # _ \<Rightarrow>
         (let ds = takeWhile isdigit p in
          if 256 \<le> length ds then Inl (Buffer_Overflow ''setting'' (length ds + 1))
          else Inr (if gMaxnum_tuning_logs s \<le> atoi ds
                    then Some ''echo 0 > /tmp/tuningLog.count'' else None))))"

text \<open>\<open>tuncli\<close> stops at the first line with the port; \<open>aListenPort\<close> has 32 bytes.\<close>

fun tuncli_port_lines :: "string list \<Rightarrow> c_fault + string option" where
  "tuncli_port_lines [] = Inr None"
| "tuncli_port_lines (p # ps) =
    bindE (line_key p) (\<lambda>(key, rest).
      if key = ''API_listen_port''
      then bindE (line_value key rest) (\<lambda>v.
        if 32 \<le> length v then Inl (Buffer_Overflow ''aListenPort'' (length v + 1)) else Inr (Some v))
      else tuncli_port_lines ps)"

text \<open>\<open>None\<close>: the file cannot be opened and \<open>tuncli\<close> exits.\<close>

definition tuncli_port :: "string option \<Rightarrow> c_fault + string option" where
  "tuncli_port file =
    (case file of None \<Rightarrow> Inr None
     | Some t \<Rightarrow> bindE (tuncli_port_lines (file_lines t))
         (\<lambda>r. Inr (Some (case r of None \<Rightarrow> ''5523'' | Some v \<Rightarrow> v))))"

text \<open>The seconds and nanoseconds \<open>makeTimer\<close> stores for an \<open>int\<close> of microseconds, and whether the
  kernel accepts them as a time to expire in.\<close>

definition timer_value :: "int \<Rightarrow> int \<times> int" where
  "timer_value usecs = ((usecs * 1000) sdiv 1000000000, (usecs * 1000) smod 1000000000)"

definition expires_later :: "int \<times> int \<Rightarrow> bool" where
  "expires_later v \<longleftrightarrow> 0 \<le> fst v \<and> 0 \<le> snd v \<and> snd v < 1000000000 \<and> v \<noteq> (0, 0)"

text \<open>The alarm timers are made with \<open>gInterval\<close>, the evaluation timer with \<open>gInterval*10\<close>, an \<open>int\<close>
  whose overflow is undefined.\<close>

definition alarm_timer :: "user_settings \<Rightarrow> int \<times> int" where
  "alarm_timer s = timer_value (gInterval s)"

definition evaluation_timer :: "user_settings \<Rightarrow> (int \<times> int) option" where
  "evaluation_timer s = (if gInterval s * 10 < 2 ^ 31 then Some (timer_value (gInterval s * 10)) else None)"

section \<open>Choosing the device\<close>

text \<open>The value of the file with the NIC's speed; 0 stays when it is empty or not a number.\<close>

definition fDoGetDeviceCap :: "string option \<Rightarrow> int \<Rightarrow> c_fault + int" where
  "fDoGetDeviceCap file speed =
    (case file of None \<Rightarrow> Inr speed
     | Some t \<Rightarrow> (case file_lines t of [] \<Rightarrow> Inr speed
       | p # _ \<Rightarrow>
         if 256 \<le> length p then Inl (Buffer_Overflow ''sValue'' (length p + 1))
         else let v = (if last p = newline then butlast p else p)
              in Inr (if atoi v = 0 then speed else atoi v)))"

text \<open>The exit value, or the device the module goes on with and its speed; \<open>exists\<close> is whether the
  device is there, \<open>speed_of\<close> the content of its speed file.\<close>

definition main_device ::
  "string list \<Rightarrow> user_settings \<Rightarrow> (string \<Rightarrow> bool) \<Rightarrow> (string \<Rightarrow> string option) \<Rightarrow>
   c_fault + (int + (string \<times> int))" where
  "main_device argv s exists speed_of =
    (let found = (\<lambda>dev down missing.
        if 128 \<le> length dev then Inl (Buffer_Overflow ''netDevice'' (length dev + 1))
        else if exists dev
        then bindE (fDoGetDeviceCap (speed_of dev) 0) (\<lambda>speed.
          if speed sdiv 1000 = 0 then Inr (Inl down) else Inr (Inr (dev, speed)))
        else Inr (Inl missing))
     in if length argv = 3 then found (argv ! 2) (- 3) (- 1)
        else (case gNic_to_use s of Some dev \<Rightarrow> found dev (- 4) (- 5) | None \<Rightarrow> Inr (Inl (- 3))))"

definition good_bitrate :: "int \<Rightarrow> double" where
  "good_bitrate speed = ddiv (dmul (ddiv 97 100) (dint speed)) 1000"

section \<open>Lemmas: files made of well-formed lines\<close>

text \<open>A line with a key, blanks and a value, and which ones the code reads as they are meant.\<close>

definition entry_line :: "string \<times> string \<times> string \<Rightarrow> string" where
  "entry_line e = (case e of (k, ws, v) \<Rightarrow> k @ ws @ v)"

definition long_value :: "string \<Rightarrow> bool" where
  "long_value k \<longleftrightarrow> k = ''nic_to_use'' \<or> k = ''apache_kafka_topic''"

definition value_ok :: "string \<Rightarrow> string \<Rightarrow> bool" where
  "value_ok k v \<longleftrightarrow> v \<noteq> [] \<and> length v \<le> 31 \<and> \<not> isspace (hd v)
     \<and> (if long_value k then \<forall>c \<in> set v. \<not> isspace c else \<forall>c \<in> set (tl v). isalnum c)"

definition entry_ok :: "string \<times> string \<times> string \<Rightarrow> bool" where
  "entry_ok e = (case e of (k, ws, v) \<Rightarrow>
     (\<forall>c \<in> set k. \<not> isblank c) \<and> newline \<notin> set k \<and> length k < 256
     \<and> ws \<noteq> [] \<and> (\<forall>c \<in> set ws. isblank c) \<and> newline \<notin> set v
     \<and> (k \<in> set names \<longrightarrow> value_ok k v))"

definition config_file :: "(string \<times> string \<times> string) list \<Rightarrow> string" where
  "config_file es = unlines (map entry_line es)"

definition meant :: "(string \<times> string \<times> string) list \<Rightarrow> cfg_values \<Rightarrow> cfg_values" where
  "meant es cfg = foldl (\<lambda>cfg (k, ws, v). if k \<in> set names then cfg(k := v) else cfg) cfg es"

lemma blank_class [simp]: "isblank c \<Longrightarrow> isspace c" "\<not> isblank newline" "\<not> isalnum newline"
  by (auto simp: isblank_def isspace_def isalnum_def isdigit_def isalpha_def char_code_def)

lemma blank_no_newline: "\<forall>c \<in> set ws. isblank c \<Longrightarrow> newline \<notin> set ws"
  by auto

lemma length_le_unlines: "l \<in> set ls \<Longrightarrow> length l \<le> length (unlines ls)"
  by (induction ls) auto

lemma file_lines_unlines:
  "\<forall>l \<in> set ls. newline \<notin> set l \<Longrightarrow> file_lines (unlines ls) = map (\<lambda>l. l @ [newline]) ls"
  unfolding file_lines_def by (rule read_lines_unlines) (simp add: line_ok_def length_le_unlines)

lemma file_lines_config:
  "\<forall>e \<in> set es. entry_ok e \<Longrightarrow> file_lines (config_file es) = map (\<lambda>e. entry_line e @ [newline]) es"
proof -
  assume "\<forall>e \<in> set es. entry_ok e"
  then have "\<forall>l \<in> set (map entry_line es). newline \<notin> set l"
    by (auto simp: entry_ok_def entry_line_def dest!: blank_no_newline)
  from file_lines_unlines [OF this] show ?thesis by (simp add: config_file_def comp_def)
qed

lemma line_key_entry:
  assumes "\<forall>c \<in> set k. \<not> isblank c" "length k < 256" "ws \<noteq> []" "\<forall>c \<in> set ws. isblank c"
  shows "line_key (k @ ws @ v) = Inr (k, ws @ v)"
proof -
  obtain b bs where b: "ws = b # bs" "isblank b" using assms(3,4) by (cases ws) auto
  have "takeWhile (\<lambda>c. \<not> isblank c) (k @ ws @ v) = k" "dropWhile (\<lambda>c. \<not> isblank c) (k @ ws @ v) = ws @ v"
    using assms(1) b by simp_all
  then show ?thesis using assms(2,3) by (simp add: line_key_def)
qed

lemma span_append:
  "\<forall>c \<in> set xs. Q c \<Longrightarrow> \<not> Q y \<Longrightarrow> \<not> P y \<Longrightarrow>
     takeWhile P (xs @ y # ys) @ takeWhile Q (dropWhile P (xs @ y # ys)) = xs
     \<and> dropWhile Q (dropWhile P (xs @ y # ys)) = y # ys"
  by (induction xs) auto

lemma line_value_entry:
  assumes "value_ok k v" "\<forall>c \<in> set ws. isblank c"
  shows "line_value k (ws @ v @ [newline]) = Inr v"
proof -
  obtain c r where v: "v = c # r" "\<not> isspace c" using assms(1) by (cases v) (auto simp: value_ok_def)
  then have "\<not> isblank c" by auto
  with v assms(2) have d: "dropWhile isblank (ws @ v @ [newline]) = c # r @ [newline]"
    by (simp add: dropWhile_append3)
  have len: "length r \<le> 30" using assms(1) v by (simp add: value_ok_def)
  show ?thesis
  proof (cases "long_value k")
    case True
    then have "\<forall>c \<in> set r. \<not> isspace c" using assms(1) v by (simp add: value_ok_def)
    from span_append [OF this, of newline isalnum "[]"]
    have "takeWhile isalnum (r @ [newline]) @ takeWhile (\<lambda>x. \<not> isspace x) (dropWhile isalnum (r @ [newline])) = r"
      "dropWhile (\<lambda>x. \<not> isspace x) (dropWhile isalnum (r @ [newline])) = [newline]" by simp_all
    moreover from this have "length (takeWhile isalnum (r @ [newline]))
        + length (takeWhile (\<lambda>x. \<not> isspace x) (dropWhile isalnum (r @ [newline]))) = length r"
      by (metis length_append)
    ultimately show ?thesis using True d v(1) len by (simp add: line_value_def long_value_def Let_def)
  next
    case False
    then have "takeWhile isalnum (r @ [newline]) = r"
      using assms(1) v by (simp add: value_ok_def)
    with False d v(1) len show ?thesis by (simp add: line_value_def long_value_def Let_def)
  qed
qed

lemma read_cfg_line_entry:
  assumes "entry_ok (k, ws, v)"
  shows "read_cfg_line (entry_line (k, ws, v) @ [newline]) cfg =
    Inr (if k \<in> set names then cfg(k := v) else cfg)"
proof -
  have e: "\<forall>c \<in> set k. \<not> isblank c" "length k < 256" "ws \<noteq> []" "\<forall>c \<in> set ws. isblank c"
    using assms by (simp_all add: entry_ok_def)
  have "line_key (entry_line (k, ws, v) @ [newline]) = Inr (k, ws @ v @ [newline])"
    using line_key_entry [OF e, of "v @ [newline]"] by (simp add: entry_line_def)
  moreover have "k \<in> set names \<Longrightarrow> line_value k (ws @ v @ [newline]) = Inr v \<and> take 31 v = v"
    using assms line_value_entry [OF _ e(4)] by (simp add: entry_ok_def value_ok_def)
  ultimately show ?thesis by (simp add: read_cfg_line_def)
qed

lemma read_cfg_lines_entries:
  "\<forall>e \<in> set es. entry_ok e \<Longrightarrow>
     read_cfg_lines (map (\<lambda>e. entry_line e @ [newline]) es) cfg = Inr (meant es cfg)"
proof (induction es arbitrary: cfg)
  case (Cons e es)
  obtain k ws v where e: "e = (k, ws, v)" by (cases e)
  with Cons read_cfg_line_entry [of k ws v cfg] show ?case by (simp add: meant_def)
qed (simp add: meant_def)

text \<open>The values given for a key, in order; the last one counts.\<close>

definition given :: "string \<Rightarrow> (string \<times> string \<times> string) list \<Rightarrow> string list" where
  "given key es = map (\<lambda>(k, ws, v). v) (filter (\<lambda>(k, ws, v). k = key) es)"

lemma meant_given:
  "key \<in> set names \<Longrightarrow> meant es cfg key = (if given key es = [] then cfg key else last (given key es))"
proof (induction es arbitrary: cfg)
  case (Cons e es)
  obtain k ws v where e: "e = (k, ws, v)" by (cases e)
  with Cons show ?case by (cases "k = key") (simp_all add: meant_def given_def)
qed (simp add: meant_def given_def)

lemma tuncli_port_entries:
  "\<forall>e \<in> set es. entry_ok e \<Longrightarrow>
     tuncli_port_lines (map (\<lambda>e. entry_line e @ [newline]) es) =
       Inr (case given ''API_listen_port'' es of [] \<Rightarrow> None | v # _ \<Rightarrow> Some v)"
proof (induction es)
  case (Cons e es)
  obtain k ws v where e: "e = (k, ws, v)" by (cases e)
  with Cons.prems have ok: "entry_ok (k, ws, v)" by simp
  then have en: "\<forall>c \<in> set k. \<not> isblank c" "length k < 256" "ws \<noteq> []" "\<forall>c \<in> set ws. isblank c"
    by (simp_all add: entry_ok_def)
  have lk: "line_key (entry_line (k, ws, v) @ [newline]) = Inr (k, ws @ v @ [newline])"
    using line_key_entry [OF en, of "v @ [newline]"] by (simp add: entry_line_def)
  show ?case
  proof (cases "k = ''API_listen_port''")
    case True
    then have "value_ok k v" using ok by (simp add: entry_ok_def names_def known_settings_def)
    from line_value_entry [OF this en(4)] this True lk show ?thesis
      by (simp add: e given_def value_ok_def)
  next
    case False
    with Cons lk show ?thesis by (simp add: e given_def)
  qed
qed (simp add: given_def)

text \<open>What the globals that matter here come to.\<close>

lemma use_value_fields:
  "gAPI_listen_port (use_value n d v s) =
     (if n = ''API_listen_port'' then if atoi v = 0 then atoi d else atoi v else gAPI_listen_port s)"
  "gInterval (use_value n d v s) =
     (if n = ''evaluation_timer''
      then if atoi v = 0 then atoi d else if 999 < atoi v then atoi v else gInterval s
      else gInterval s)"
  by (simp_all add: use_value_def Let_def)

lemma use_values_fields:
  "gAPI_listen_port (use_values cfg s) =
     (if atoi (cfg ''API_listen_port'') = 0 then atoi ''5523'' else atoi (cfg ''API_listen_port''))"
  "gInterval (use_values cfg s) =
     (if atoi (cfg ''evaluation_timer'') = 0 then atoi ''500000''
      else if 999 < atoi (cfg ''evaluation_timer'') then atoi (cfg ''evaluation_timer'') else gInterval s)"
  by (simp_all add: use_values_def known_settings_def use_value_fields)

lemma atoi_constants [simp]: "atoi ''5523'' = 5523" "atoi ''5524'' = 5524" "atoi ''500000'' = 500000"
    "atoi ''-1'' = - 1"
  by (simp_all add: atoi_def strtol_def c_int_def digits_val_def isdigit_def isspace_def digit_val_def
      char_code_def Let_def)

lemma atoi_range: "- (2 ^ 31) \<le> atoi v \<and> atoi v < 2 ^ 31"
  unfolding atoi_def by (rule c_int_range)

lemma timer_value_ok:
  assumes "1000 \<le> u" shows "expires_later (timer_value u)"
proof -
  have "(u * 1000) sdiv 1000000000 = u * 1000 div 1000000000"
    "(u * 1000) smod 1000000000 = u * 1000 mod 1000000000"
    using assms by (simp_all add: signed_divide_int_def signed_modulo_int_def sgn_if)
  moreover have "u * 1000 div 1000000000 \<noteq> 0 \<or> u * 1000 mod 1000000000 \<noteq> 0"
    using assms div_mult_mod_eq [of "u * 1000" 1000000000] by auto
  ultimately show ?thesis using assms by (auto simp: expires_later_def timer_value_def)
qed

section \<open>Properties\<close>

text \<open>C24: The configuration is read back.  A file of lines with a key, blanks and a value, known keys with
  well-formed values of at most 31 characters and other keys with anything, sets exactly what its
  lines say: for each known key the value of its last line, and ``-1'' without one.\<close>

theorem config_round_trip:
  assumes "\<forall>e \<in> set es. entry_ok e"
  shows "\<exists>cfg. read_cfg_lines (file_lines (config_file es)) unset = Inr cfg
    \<and> fDoGetUserCfgValues (Some (config_file es)) s = Inr (use_values cfg s)
    \<and> (\<forall>key. key \<in> set names \<longrightarrow>
         cfg key = (if given key es = [] then ''-1'' else last (given key es)))"
proof -
  have "read_cfg_lines (file_lines (config_file es)) unset = Inr (meant es unset)"
    by (simp add: file_lines_config [OF assms] read_cfg_lines_entries [OF assms])
  then show ?thesis
    by (intro exI [of _ "meant es unset"]) (simp add: fDoGetUserCfgValues_def meant_given unset_def)
qed

definition two_ports :: "(string \<times> string \<times> string) list" where
  "two_ports = [(''evaluation_timer'', '' '', ''2000''), (''API_listen_port'', '' '', ''6000''),
     (''#'', '' '', ''comment, with anything''), (''API_listen_port'', '' '', ''7000'')]"

lemma two_ports_ok: "\<forall>e \<in> set two_ports. entry_ok e"
  by (simp add: two_ports_def entry_ok_def value_ok_def long_value_def isblank_def isspace_def
      isalnum_def isdigit_def isalpha_def char_code_def names_def known_settings_def)

theorem config_round_trip_witness:
  "\<exists>cfg. read_cfg_lines (file_lines (config_file two_ports)) unset = Inr cfg
     \<and> cfg ''evaluation_timer'' = ''2000'' \<and> cfg ''nic_to_use'' = ''-1''"
proof -
  obtain cfg where cfg: "read_cfg_lines (file_lines (config_file two_ports)) unset = Inr cfg"
    "\<forall>key. key \<in> set names \<longrightarrow>
       cfg key = (if given key two_ports = [] then ''-1'' else last (given key two_ports))"
    using config_round_trip [OF two_ports_ok, of initial_settings] by blast
  have "given ''evaluation_timer'' two_ports = [''2000'']" "given ''nic_to_use'' two_ports = []"
    by (simp_all add: given_def two_ports_def)
  moreover have "''evaluation_timer'' \<in> set names" "''nic_to_use'' \<in> set names"
    by (simp_all add: names_def known_settings_def)
  ultimately have "cfg ''evaluation_timer'' = ''2000''" "cfg ''nic_to_use'' = ''-1''"
    using cfg(2) by (metis last.simps list.distinct(1))+
  with cfg(1) show ?thesis by blast
qed

text \<open>Which port the daemon listens on and which one the client calls.  For such a file the client uses
  the first port given, the daemon the last one; without one the client uses 5523, but the daemon
  -1, the mark of a value that is not configured, since its test for that mark is one for 0.\<close>

theorem listen_port_disagreement:
  assumes "\<forall>e \<in> set es. entry_ok e" "ports = given ''API_listen_port'' es"
  shows "tuncli_port (Some (config_file es)) = Inr (Some (if ports = [] then ''5523'' else hd ports))
    \<and> (\<exists>s'. fDoGetUserCfgValues (Some (config_file es)) s = Inr s'
        \<and> gAPI_listen_port s' = (if ports = [] then - 1
             else if atoi (last ports) = 0 then 5523 else atoi (last ports)))"
proof -
  have "read_cfg_lines (file_lines (config_file es)) unset = Inr (meant es unset)"
    by (simp add: file_lines_config [OF assms(1)] read_cfg_lines_entries [OF assms(1)])
  moreover have "''API_listen_port'' \<in> set names" by (simp add: names_def known_settings_def)
  ultimately show ?thesis
    using tuncli_port_entries [OF assms(1)]
    by (auto simp: tuncli_port_def file_lines_config [OF assms(1)] assms(2) fDoGetUserCfgValues_def
        use_values_fields(1) meant_given unset_def split: list.splits)
qed

theorem listen_port_disagreement_witness:
  "tuncli_port (Some (config_file two_ports)) = Inr (Some ''6000'')
    \<and> (\<exists>s'. fDoGetUserCfgValues (Some (config_file two_ports)) initial_settings = Inr s'
        \<and> gAPI_listen_port s' = atoi ''7000'')"
proof -
  have "given ''API_listen_port'' two_ports = [''6000'', ''7000'']"
    by (simp add: given_def two_ports_def)
  moreover have "atoi ''7000'' \<noteq> 0"
    by (simp add: atoi_def strtol_def c_int_def digits_val_def isdigit_def isspace_def digit_val_def
        char_code_def Let_def)
  ultimately show ?thesis
    using listen_port_disagreement [OF two_ports_ok refl, of initial_settings] by simp
qed

text \<open>C25: The interval and the timers it makes.  Whatever the file holds, when it is read without a fault
  the interval is between 1000 microseconds and the largest \<open>int\<close>, and the alarm timers get a valid
  time that is not zero; the evaluation timer does too exactly up to 214 seconds, and above that
  the \<open>int\<close> it is computed in overflows.\<close>

theorem interval_makes_timers:
  assumes "fDoGetUserCfgValues file initial_settings = Inr s"
  shows "1000 \<le> gInterval s \<and> gInterval s < 2 ^ 31 \<and> expires_later (alarm_timer s)
    \<and> (case evaluation_timer s of Some v \<Rightarrow> gInterval s \<le> 214748364 \<and> expires_later v
       | None \<Rightarrow> 214748364 < gInterval s)"
proof -
  have "s = initial_settings \<or> (\<exists>cfg. s = use_values cfg initial_settings)"
    using assms by (auto simp: fDoGetUserCfgValues_def bindE_Inr_iff split: option.splits)
  moreover have "1000 \<le> gInterval (use_values cfg initial_settings)
      \<and> gInterval (use_values cfg initial_settings) < 2 ^ 31" for cfg
    using atoi_range [of "cfg ''evaluation_timer''"]
    by (simp add: use_values_fields initial_settings_def)
  moreover have "1000 \<le> gInterval initial_settings \<and> gInterval initial_settings < 2 ^ 31"
    by (simp add: initial_settings_def)
  ultimately have i: "1000 \<le> gInterval s \<and> gInterval s < 2 ^ 31" by blast
  have a: "expires_later (alarm_timer s)"
    unfolding alarm_timer_def using i by (intro timer_value_ok) simp
  have e: "expires_later (timer_value (gInterval s * 10))"
    using i by (intro timer_value_ok) simp
  have "gInterval s * 10 < 2 ^ 31 \<longleftrightarrow> gInterval s \<le> 214748364" by (simp, linarith)
  with i a e show ?thesis by (simp add: evaluation_timer_def)
qed

theorem interval_makes_timers_witness:
  "\<exists>s. fDoGetUserCfgValues (Some (config_file two_ports)) initial_settings = Inr s \<and> 1000 \<le> gInterval s"
proof -
  have "read_cfg_lines (file_lines (config_file two_ports)) unset = Inr (meant two_ports unset)"
    by (simp add: file_lines_config [OF two_ports_ok] read_cfg_lines_entries [OF two_ports_ok])
  then obtain s where "fDoGetUserCfgValues (Some (config_file two_ports)) initial_settings = Inr s"
    by (simp add: fDoGetUserCfgValues_def)
  with interval_makes_timers [OF this] show ?thesis by blast
qed

end
