(* ===== verification/System_Assess.thy ===== *)
theory System_Assess
  imports User_Config
begin

text \<open>
  The assessment of the system's settings (\<open>src/userspace/user_assess.c\<close>): \<open>fDoSystemTuning\<close> compares
  what \<open>gdv.sh\<close> wrote to \<open>/tmp/current_config.orig\<close> with tables of recommended values, and
  \<open>fDoBiosTuning\<close> looks at the CPU governor and \<open>irqbalance\<close>.  A setting that falls short is changed by
  a command, or, when the operator did not ask for that, the command is saved for the menu.

  What \<open>system\<close> is given is recorded in order; what the commands leave in their files is an argument.
\<close>

section \<open>Recommended values\<close>

record host_tuning_vals =
  rec_setting :: string
  rec_minimum :: u32
  rec_xDefault :: int    \<comment> \<open>-1: there is only one value\<close>
  rec_maximum :: u32

definition entry :: "string \<Rightarrow> u32 \<Rightarrow> int \<Rightarrow> u32 \<Rightarrow> host_tuning_vals" where
  "entry n mi d ma = \<lparr>rec_setting = n, rec_minimum = mi, rec_xDefault = d, rec_maximum = ma\<rparr>"

definition aStringval :: "string list" where
  "aStringval = [''bbr'', ''fq'', ''htcp'', ''reno'', ''cubic'', ''getvalue'']"

definition aTuningNumsToUse10GandUnder :: "host_tuning_vals list" where
  "aTuningNumsToUse10GandUnder =
    [entry ''net.core.rmem_max'' 1147483647 (- 1) 0, entry ''net.core.wmem_max'' 1147483647 (- 1) 0,
     entry ''net.ipv4.tcp_mtu_probing'' 1 (- 1) 0,
     entry ''net.ipv4.tcp_available_congestion_control'' 5 (- 1) 0,
     entry ''net.ipv4.tcp_congestion_control'' 2 (- 1) 0, entry ''net.core.default_qdisc'' 1 (- 1) 0,
     entry ''net.ipv4.tcp_rmem'' 4096 87380 1147483647, entry ''net.ipv4.tcp_wmem'' 4096 65536 1147483647,
     entry ''MTU'' 0 84 0]"

definition aTuningNumsToUse_Over10GtoUnder100G :: "host_tuning_vals list" where
  "aTuningNumsToUse_Over10GtoUnder100G =
    [entry ''net.core.rmem_max'' 1147483647 (- 1) 0, entry ''net.core.wmem_max'' 1147483647 (- 1) 0,
     entry ''net.ipv4.tcp_mtu_probing'' 1 (- 1) 0,
     entry ''net.ipv4.tcp_available_congestion_control'' 5 (- 1) 0,
     entry ''net.ipv4.tcp_congestion_control'' 2 (- 1) 0, entry ''net.core.default_qdisc'' 1 (- 1) 0,
     entry ''net.ipv4.tcp_rmem'' 4096 87380 1147483647, entry ''net.ipv4.tcp_wmem'' 4096 65536 1147483647,
     entry ''MTU'' 0 84 0]"

definition aTuningNumsToUse100Gb :: "host_tuning_vals list" where
  "aTuningNumsToUse100Gb =
    [entry ''net.core.rmem_max'' 1147483647 (- 1) 0, entry ''net.core.wmem_max'' 1147483647 (- 1) 0,
     entry ''net.ipv4.tcp_mtu_probing'' 1 (- 1) 0,
     entry ''net.ipv4.tcp_available_congestion_control'' 5 (- 1) 0,
     entry ''net.ipv4.tcp_congestion_control'' 2 (- 1) 0, entry ''net.core.default_qdisc'' 1 (- 1) 0,
     entry ''net.ipv4.tcp_rmem'' 4096 87380 1147483647, entry ''net.ipv4.tcp_wmem'' 4096 65536 1147483647,
     entry ''net.core.netdev_max_backlog'' 250000 (- 1) 0, entry ''net.ipv4.tcp_no_metrics_save'' 1 (- 1) 0,
     entry ''MTU'' 0 84 0]"

text \<open>The table for the speed of the NIC in Mb/s, and the script that lists the current settings.\<close>

definition tuning_table :: "int \<Rightarrow> host_tuning_vals list \<times> string" where
  "tuning_table speed =
    (if speed \<le> 10000 then (aTuningNumsToUse10GandUnder, ''sh ./gdv.sh'')
     else if speed < 100000 then (aTuningNumsToUse_Over10GtoUnder100G, ''sh ./gdv.sh'')
     else (aTuningNumsToUse100Gb, ''sh ./gdv_100.sh''))"

abbreviation available_cc :: string where
  "available_cc \<equiv> ''net.ipv4.tcp_available_congestion_control''"

abbreviation chosen_cc :: string where
  "chosen_cc \<equiv> ''net.ipv4.tcp_congestion_control''"

section \<open>Running and saving commands\<close>

record assessment =
  ran :: "string list"                \<comment> \<open>what \<open>system\<close> was given, in order\<close>
  vModifySysctlFile :: bool
  aApplyKernelDefTun :: "string list"  \<comment> \<open>the rows of \<open>aApplyKernelDefTun2DArray\<close> up to its count\<close>
  aApplyNicDefTun :: "string list"
  aApplyBiosDefTun :: "string list"
  as_tune_max :: int                   \<comment> \<open>\<open>my_tune_max\<close>\<close>

definition initial_assessment :: assessment where
  "initial_assessment = \<lparr>ran = [], vModifySysctlFile = False, aApplyKernelDefTun = [],
     aApplyNicDefTun = [], aApplyBiosDefTun = [], as_tune_max = 0\<rparr>"

definition run_system :: "string \<Rightarrow> assessment \<Rightarrow> assessment" where
  "run_system c a = a\<lparr>ran := ran a @ [c]\<rparr>"

definition NUM_SYSTEM_SETTINGS :: nat where "NUM_SYSTEM_SETTINGS = 100"

definition save_kernel :: "string \<Rightarrow> assessment \<Rightarrow> c_fault + assessment" where
  "save_kernel c a =
    (if length (aApplyKernelDefTun a) < NUM_SYSTEM_SETTINGS
     then Inr (a\<lparr>aApplyKernelDefTun := aApplyKernelDefTun a @ [c]\<rparr>)
     else Inl (Out_Of_Bounds ''aApplyKernelDefTun2DArray'' (int (length (aApplyKernelDefTun a)))))"

definition sysctl_cmd :: "string \<Rightarrow> string \<Rightarrow> string" where
  "sysctl_cmd name v = ''sysctl -w '' @ name @ ''='' @ v"

abbreviation to_conf :: "string \<Rightarrow> string" where
  "to_conf c \<equiv> c @ '' >> /etc/sysctl.conf''"

abbreviation start_mark :: string where
  "start_mark \<equiv> ''echo \"#Start of tuningMod modifications\" >> /etc/sysctl.conf''"

abbreviation end_mark :: string where
  "end_mark \<equiv> ''echo \"#End of tuningMod modifications\" >> /etc/sysctl.conf''"

text \<open>What the code does with a setting that falls short, at three places in the same way.\<close>

definition tune_setting ::
  "user_settings \<Rightarrow> string \<Rightarrow> string \<Rightarrow> assessment \<Rightarrow> c_fault + assessment" where
  "tune_setting s name v a =
    (if gApplyDefSysTuning s = CHR ''y''
     then (let a1 = run_system (sysctl_cmd name v) a in
       if gMakeTuningPermanent s = CHR ''y''
       then (let a2 = (if vModifySysctlFile a1 then a1
                       else (run_system start_mark a1)\<lparr>vModifySysctlFile := True\<rparr>)
             in Inr (run_system (to_conf (sysctl_cmd name v)) a2))
       else Inr a1)
     else save_kernel (sysctl_cmd name v) a)"

section \<open>A line of the current settings\<close>

text \<open>The name, up to the first blank, in \<open>setting[256]\<close>; the value, from behind the second blank to the
  newline, in \<open>value[256]\<close>.\<close>

definition read_setting :: "string \<Rightarrow> c_fault + (string \<times> string)" where
  "read_setting line =
    (case strchr line (CHR '' '') of None \<Rightarrow> Inl (Null_Pointer ''q'')
     | Some q \<Rightarrow>
       (let name = take (length line - length q) line in
        if 256 \<le> length name then Inl (Buffer_Overflow ''setting'' (length name + 1))
        else Inr (name, q)))"

definition read_value :: "string \<Rightarrow> c_fault + string" where
  "read_value q =
    (case strchr (tl q) (CHR '' '') of None \<Rightarrow> Inl (Null_Pointer ''q'')
     | Some q1 \<Rightarrow> (case strchr (tl q1) newline of None \<Rightarrow> Inl (Null_Pointer ''r'')
     | Some r \<Rightarrow>
       (let v = take (length (tl q1) - length r) (tl q1) in
        if 256 \<le> length v then Inl (Buffer_Overflow ''value'' (length v + 1)) else Inr v)))"

text \<open>The three numbers of a value; looking for a digit runs past the end of \<open>value\<close> when there is none.\<close>

definition parse_triple :: "string \<Rightarrow> c_fault + (string \<times> string \<times> string)" where
  "parse_triple v =
    (let r1 = dropWhile (\<lambda>c. \<not> isdigit c) (dropWhile isdigit v);
         r2 = dropWhile (\<lambda>c. \<not> isdigit c) (dropWhile isdigit r1)
     in if r1 = [] \<or> r2 = [] then Inl (Unterminated ''value'')
        else Inr (takeWhile isdigit v, takeWhile isdigit r1, takeWhile isdigit r2))"

definition rec_triple :: "host_tuning_vals \<Rightarrow> string" where
  "rec_triple e = show_int (sint (rec_minimum e)) @ '' '' @ show_int (rec_xDefault e) @ '' ''
     @ show_int (sint (rec_maximum e))"

definition note_tune_max :: "host_tuning_vals \<Rightarrow> string \<Rightarrow> assessment \<Rightarrow> assessment" where
  "note_tune_max e name a =
    (if name = ''net.ipv4.tcp_wmem''
     then a\<lparr>as_tune_max := atoi (show_int (sint (rec_maximum e)))\<rparr> else a)"

text \<open>A value that starts with a digit; the comparisons are of unsigned integers.\<close>

definition assess_number ::
  "user_settings \<Rightarrow> host_tuning_vals \<Rightarrow> string \<Rightarrow> string \<Rightarrow> assessment \<Rightarrow> c_fault + assessment" where
  "assess_number s e name v a =
    (let intvalue = (word_of_int (atoi v) :: u32) in
     if intvalue \<le> rec_minimum e
     then (if rec_xDefault e = - 1
           then (if intvalue = rec_minimum e then Inr a
                 else tune_setting s name (show_int (sint (rec_minimum e))) a)
           else bindE (parse_triple v) (\<lambda>(mn, df, mx).
             let a1 = note_tune_max e name a; currmax = (word_of_int (atoi mx) :: u32) in
             if currmax < rec_maximum e then tune_setting s name (''\"'' @ rec_triple e @ ''\"'') a1
             else Inr a1))
     else (if rec_xDefault e = - 1 then Inr a
           else bindE (parse_triple v) (\<lambda>_. Inr (note_tune_max e name a))))"

text \<open>Any other value, with whether \<open>htcp\<close> was seen to be available and what \<open>modprobe\<close> printed
  (\<open>None\<close>: its file cannot be opened).\<close>

definition assess_string ::
  "user_settings \<Rightarrow> string option \<Rightarrow> host_tuning_vals \<Rightarrow> string \<Rightarrow> string \<Rightarrow> bool \<times> assessment
   \<Rightarrow> c_fault + (bool \<times> assessment)" where
  "assess_string s modprobe e name v st =
    (let (avail, a) = st; i = unat (rec_minimum e) in
     if length aStringval \<le> i then Inl (Out_Of_Bounds ''aStringval'' (int i))
     else if v = aStringval ! i then Inr (avail, a)
     else if name = available_cc
     then Inr (avail \<or> has_substr v ''htcp'', a)
     else
       let tune = (\<lambda>a. bindE (tune_setting s name (aStringval ! i) a) (\<lambda>a1. Inr (avail, a1)))
       in if name = chosen_cc \<and> \<not> avail
          then (let a1 = run_system ''modprobe tcp_htcp > /tmp/modprobe_result 2>&1'' a in
                case modprobe of None \<Rightarrow> Inr (avail, a1)
                | Some t \<Rightarrow>
                  (let a2 = run_system ''rm -f /tmp/modprobe_result'' a1 in
                   if file_lines t \<noteq> [] then Inr (avail, a2) else tune a2))
          else tune a)"

definition assess_line ::
  "user_settings \<Rightarrow> string option \<Rightarrow> host_tuning_vals list \<Rightarrow> string \<Rightarrow> bool \<times> assessment
   \<Rightarrow> c_fault + (bool \<times> assessment)" where
  "assess_line s modprobe tab line st =
    bindE (read_setting line) (\<lambda>(name, q).
      case find (\<lambda>e. rec_setting e = name) tab of None \<Rightarrow> Inr st
      | Some e \<Rightarrow> bindE (read_value q) (\<lambda>v.
          if v \<noteq> [] \<and> isdigit (hd v)
          then bindE (assess_number s e name v (snd st)) (\<lambda>a. Inr (fst st, a))
          else assess_string s modprobe e name v st))"

fun assess_lines ::
  "user_settings \<Rightarrow> string option \<Rightarrow> host_tuning_vals list \<Rightarrow> string list \<Rightarrow> bool \<times> assessment
   \<Rightarrow> c_fault + (bool \<times> assessment)" where
  "assess_lines s modprobe tab [] st = Inr st"
| "assess_lines s modprobe tab (l # ls) st =
    bindE (assess_line s modprobe tab l st) (assess_lines s modprobe tab ls)"

text \<open>\<open>None\<close>: the list of settings cannot be opened and the program exits.\<close>

definition fDoSystemTuning ::
  "int \<Rightarrow> user_settings \<Rightarrow> string option \<Rightarrow> string option \<Rightarrow> assessment \<Rightarrow> c_fault + assessment option" where
  "fDoSystemTuning speed s current modprobe a =
    (let (tab, script) = tuning_table speed; a1 = run_system script a in
     case current of None \<Rightarrow> Inr None
     | Some t \<Rightarrow> bindE (assess_lines s modprobe tab (file_lines t) (False, a1)) (\<lambda>(_, a2).
         let a3 = run_system ''rm -f /tmp/current_config.orig'' a2 in
         Inr (Some (if vModifySysctlFile a3
                    then (run_system end_mark a3)\<lparr>vModifySysctlFile := False\<rparr> else a3))))"

section \<open>Settings that need a change once\<close>

text \<open>An assessment asks for a value when the current one falls short; the law is that the value asked for
  does not fall short itself.\<close>

locale advised =
  fixes wants :: "'k \<Rightarrow> 'v \<Rightarrow> 'w option" and display :: "'w \<Rightarrow> 'v"
  assumes settled: "wants k v = Some w \<Longrightarrow> wants k (display w) = None"
begin

definition advised_value :: "('k \<Rightarrow> bool) \<Rightarrow> 'k \<Rightarrow> 'v \<Rightarrow> 'v" where
  "advised_value applied k v =
    (case wants k v of Some w \<Rightarrow> if applied k then display w else v | None \<Rightarrow> v)"

lemma advised_value_settled: "applied k \<Longrightarrow> wants k (advised_value applied k v) = None"
  by (auto simp: advised_value_def settled split: option.splits)

lemma advised_value_same: "\<not> applied k \<Longrightarrow> advised_value applied k v = v"
  by (auto simp: advised_value_def split: option.splits)

lemma advised_value_idem:
  "advised_value applied k (advised_value applied k v) = advised_value applied k v"
  by (cases "applied k") (auto simp: advised_value_def settled split: option.splits)

end

text \<open>The value \<open>fDoSystemTuning\<close> writes for a setting with a value the code can read.\<close>

definition wanted :: "host_tuning_vals list \<Rightarrow> string \<Rightarrow> string \<Rightarrow> string option" where
  "wanted tab name v =
    (case find (\<lambda>e. rec_setting e = name) tab of None \<Rightarrow> None
     | Some e \<Rightarrow>
       if v \<noteq> [] \<and> isdigit (hd v)
       then (if rec_minimum e < word_of_int (atoi v) then None
             else if rec_xDefault e = - 1
             then (if word_of_int (atoi v) = rec_minimum e then None
                   else Some (show_int (sint (rec_minimum e))))
             else (case parse_triple v of
                 Inr (_, _, mx) \<Rightarrow> if word_of_int (atoi mx) < rec_maximum e
                                   then Some (''\"'' @ rec_triple e @ ''\"'') else None
               | Inl _ \<Rightarrow> None))
       else if name = available_cc
         \<or> length aStringval \<le> unat (rec_minimum e) \<or> v = aStringval ! unat (rec_minimum e) then None
       else Some (aStringval ! unat (rec_minimum e)))"

text \<open>How the system shows a value that was written: without the quotes of the shell, with \<open>sep\<close> between
  numbers.\<close>

definition shown :: "char \<Rightarrow> string \<Rightarrow> string" where
  "shown sep w = map (\<lambda>c. if c = CHR '' '' then sep else c) (filter (\<lambda>c. c \<noteq> CHR 0x22) w)"

text \<open>The tables have no surprises: numbers fit an \<open>int\<close>.\<close>

definition entry_sane :: "host_tuning_vals \<Rightarrow> bool" where
  "entry_sane e \<longleftrightarrow> unat (rec_minimum e) < 2 ^ 31 \<and> unat (rec_maximum e) < 2 ^ 31
     \<and> - 1 \<le> rec_xDefault e"

lemma tables_sane: "\<forall>e \<in> set (fst (tuning_table speed)). entry_sane e"
  by (simp add: tuning_table_def aTuningNumsToUse10GandUnder_def
      aTuningNumsToUse_Over10GtoUnder100G_def aTuningNumsToUse100Gb_def entry_def entry_sane_def)

lemma signed_small: "k < 2 ^ 31 \<Longrightarrow> signed_take_bit 31 (int k) = int k"
  by (rule signed_take_bit_int_eq_self) auto

lemma sint_small: "unat (w :: u32) < 2 ^ 31 \<Longrightarrow> sint w = int (unat w)"
  using signed_small [of "unat w"] by (simp add: sint_uint)

lemma show_int_of_nat: "show_int (int n) = show_nat n"
  by (simp add: show_int_def)

lemma show_int_sint: "unat (w :: u32) < 2 ^ 31 \<Longrightarrow> show_int (sint w) = show_nat (unat w)"
  by (simp only: sint_small show_int_of_nat)

lemma atoi_prefix:
  assumes "\<forall>c \<in> set ds. isdigit c" "ds \<noteq> []" "r = [] \<or> \<not> isdigit (hd r)"
  shows "atoi (ds @ r) = atoi ds"
proof -
  obtain c cs where ds: "ds = c # cs" "isdigit c" using assms by (cases ds) auto
  have w: "takeWhile isdigit (cs @ r) = cs" "takeWhile isdigit cs = cs"
    using assms ds(1) by (cases r, auto simp: takeWhile_append)+
  show ?thesis
    using ds isdigit_not_space isdigit_not_sign by (simp add: atoi_def strtol_def Let_def w)
qed

lemma digit_chars: "isdigit c \<Longrightarrow> c \<noteq> CHR '' '' \<and> c \<noteq> CHR 0x22 \<and> c \<noteq> newline"
  by (auto simp: isdigit_def char_code_def)

lemma shown_digits: "\<forall>c \<in> set w. isdigit c \<Longrightarrow> shown sep w = w"
  by (induction w) (auto simp: shown_def dest: digit_chars)

lemma shown_show_nat [simp]: "shown sep (show_nat n) = show_nat n"
  by (simp add: shown_digits show_nat_digits)

lemma shown_simps [simp]:
  "shown sep [] = []"
  "shown sep (c # w) = (if c = CHR 0x22 then shown sep w
     else (if c = CHR '' '' then sep else c) # shown sep w)"
  by (simp_all add: shown_def)

lemma shown_append: "shown sep (v @ w) = shown sep v @ shown sep w"
  by (simp add: shown_def)

lemma parse_triple_digits:
  assumes "\<forall>c \<in> set a. isdigit c" "\<forall>c \<in> set b. isdigit c" "\<forall>c \<in> set d. isdigit c"
    "b \<noteq> []" "d \<noteq> []" "\<not> isdigit x" "\<not> isdigit y"
  shows "parse_triple (a @ x # b @ y # d) = Inr (a, b, d)"
proof -
  have b: "dropWhile (\<lambda>c. \<not> isdigit c) (b @ y # d) = b @ y # d" using assms by (cases b) auto
  have d: "dropWhile (\<lambda>c. \<not> isdigit c) d = d" using assms by (cases d) auto
  show ?thesis using assms b d by (simp add: parse_triple_def Let_def dropWhile_append3 takeWhile_append)
qed

lemma atoi_unat: "unat (w :: u32) < 2 ^ 31 \<Longrightarrow> word_of_int (atoi (show_nat (unat w))) = w"
  by simp

lemma aStringval_shown: "i < length aStringval \<Longrightarrow> shown sep (aStringval ! i) = aStringval ! i
    \<and> aStringval ! i \<noteq> [] \<and> \<not> isdigit (hd (aStringval ! i))"
  by (auto simp: aStringval_def shown_def isdigit_def char_code_def less_Suc_eq numeral_eq_Suc)

lemma hd_show_nat: "isdigit (hd (show_nat n))"
  using show_nat_digits [of n] by (metis hd_in_set show_nat_nonempty)

lemma shown_triple:
  assumes "entry_sane e" "rec_xDefault e \<noteq> - 1" "\<not> isdigit sep"
  shows "shown sep (''\"'' @ rec_triple e @ ''\"'') =
      show_nat (unat (rec_minimum e)) @ sep # show_nat (nat (rec_xDefault e)) @ sep # show_nat (unat (rec_maximum e))"
proof -
  have "show_int (rec_xDefault e) = show_nat (nat (rec_xDefault e))"
    using assms(1,2) by (simp add: entry_sane_def show_int_def)
  then show ?thesis
    using assms(1) by (simp add: rec_triple_def show_int_sint entry_sane_def shown_append)
qed

lemma wanted_cases:
  assumes "\<forall>e \<in> set tab. entry_sane e" "wanted tab name v = Some w"
  obtains (single) e where "find (\<lambda>e. rec_setting e = name) tab = Some e" "entry_sane e" "v \<noteq> []" "isdigit (hd v)"
      "rec_xDefault e = - 1" "w = show_nat (unat (rec_minimum e))"
  | (triple) e where "find (\<lambda>e. rec_setting e = name) tab = Some e" "entry_sane e" "v \<noteq> []" "isdigit (hd v)"
      "rec_xDefault e \<noteq> - 1" "w = ''\"'' @ rec_triple e @ ''\"''"
  | (other) e where "find (\<lambda>e. rec_setting e = name) tab = Some e" "name \<noteq> available_cc"
      "unat (rec_minimum e) < length aStringval" "w = aStringval ! unat (rec_minimum e)"
proof -
  obtain e where e: "find (\<lambda>e. rec_setting e = name) tab = Some e"
    using assms(2) by (cases "find (\<lambda>e. rec_setting e = name) tab") (simp_all add: wanted_def)
  then have sane: "entry_sane e" using assms(1) by (auto simp: find_Some_iff)
  have m: "show_int (sint (rec_minimum e)) = show_nat (unat (rec_minimum e))"
    using sane by (simp add: entry_sane_def show_int_sint)
  show thesis
    using assms(2) single [OF e sane] triple [OF e sane] other [OF e]
    by (auto simp: wanted_def e m split: if_splits sum.splits)
qed

lemma wanted_settled:
  assumes "\<forall>e \<in> set tab. entry_sane e" "\<not> isdigit sep" "wanted tab name v = Some w"
  shows "wanted tab name (shown sep w) = None"
  using assms(1,3)
proof (cases rule: wanted_cases)
  case (single e)
  have "word_of_int (atoi w) = rec_minimum e"
    using single(2) unfolding single(6) by (intro atoi_unat) (simp add: entry_sane_def)
  then show ?thesis using single hd_show_nat by (simp add: wanted_def)
next
  case (triple e)
  let ?r = "sep # show_nat (nat (rec_xDefault e)) @ sep # show_nat (unat (rec_maximum e))"
  let ?v = "show_nat (unat (rec_minimum e)) @ ?r"
  have v: "shown sep w = ?v" unfolding triple(6) by (rule shown_triple [OF triple(2,5) assms(2)])
  have "atoi ?v = atoi (show_nat (unat (rec_minimum e)))"
    using assms(2) by (intro atoi_prefix) (simp_all add: show_nat_digits)
  moreover have "parse_triple ?v = Inr (show_nat (unat (rec_minimum e)),
      show_nat (nat (rec_xDefault e)), show_nat (unat (rec_maximum e)))"
    using assms(2) by (intro parse_triple_digits) (simp_all add: show_nat_digits)
  moreover have "isdigit (hd ?v)" using hd_show_nat by (simp add: hd_append)
  ultimately show ?thesis using triple(1,2,5) by (simp add: v wanted_def entry_sane_def atoi_unat)
next
  case (other e)
  then show ?thesis using aStringval_shown [OF other(3), of sep] by (simp add: wanted_def)
qed

interpretation kernel: advised "wanted (fst (tuning_table speed))" "shown (CHR 0x09)" for speed :: int
  by unfold_locales
    (erule wanted_settled [OF tables_sane, rotated], simp add: isdigit_def char_code_def)

section \<open>The run over a list of settings\<close>

definition setting_line :: "string \<times> string \<Rightarrow> string" where
  "setting_line e = (case e of (n, v) \<Rightarrow> n @ '' = '' @ v)"

definition listing :: "(string \<times> string) list \<Rightarrow> string" where
  "listing es = unlines (map setting_line es)"

text \<open>Lines the code can read without a fault.\<close>

definition plausible :: "host_tuning_vals list \<Rightarrow> string \<Rightarrow> string \<Rightarrow> bool" where
  "plausible tab n v \<longleftrightarrow> CHR '' '' \<notin> set n \<and> newline \<notin> set n \<and> newline \<notin> set v
     \<and> length n < 256 \<and> length v < 256
     \<and> (case find (\<lambda>e. rec_setting e = n) tab of None \<Rightarrow> True
        | Some e \<Rightarrow> if v \<noteq> [] \<and> isdigit (hd v)
                   then n \<noteq> chosen_cc \<and> n \<noteq> available_cc
                     \<and> (rec_xDefault e \<noteq> - 1 \<longrightarrow> is_ok (parse_triple v))
                   else unat (rec_minimum e) < length aStringval)"

lemma strchr_split: "c \<notin> set p \<Longrightarrow> strchr (p @ c # r) c = Some (c # r)"
  by (simp add: strchr_def dropWhile_append3 Let_def) (induction p; auto)

lemma read_setting_line:
  assumes "CHR '' '' \<notin> set n" "length n < 256"
  shows "read_setting (setting_line (n, v) @ [newline]) = Inr (n, '' = '' @ v @ [newline])"
  using strchr_split [OF assms(1), of "''= '' @ v @ [newline]"] assms(2)
  by (simp add: read_setting_def setting_line_def)

lemma read_value_line:
  assumes "newline \<notin> set v" "length v < 256"
  shows "read_value ('' = '' @ v @ [newline]) = Inr v"
proof -
  have "strchr (''= '' @ v @ [newline]) (CHR '' '') = Some ('' '' @ v @ [newline])"
    using strchr_split [of "CHR '' ''" "''=''" "v @ [newline]"] by simp
  moreover have "strchr (v @ [newline]) newline = Some [newline]"
    using strchr_split [OF assms(1), of "[]"] by simp
  ultimately show ?thesis using assms(2) by (simp add: read_value_def)
qed

definition avail_after :: "host_tuning_vals list \<Rightarrow> string \<Rightarrow> string \<Rightarrow> bool \<Rightarrow> bool" where
  "avail_after tab n v avail = (avail \<or> n = available_cc \<and> has_substr v ''htcp''
     \<and> (case find (\<lambda>e. rec_setting e = n) tab of None \<Rightarrow> False
        | Some e \<Rightarrow> v \<noteq> aStringval ! unat (rec_minimum e)))"

definition modprobe_fails :: "string option \<Rightarrow> bool" where
  "modprobe_fails mp = (case mp of None \<Rightarrow> True | Some t \<Rightarrow> file_lines t \<noteq> [])"

definition modprobe_cmds :: "string \<Rightarrow> bool \<Rightarrow> string option \<Rightarrow> string list" where
  "modprobe_cmds n avail mp =
    (if n = chosen_cc \<and> \<not> avail
     then ''modprobe tcp_htcp > /tmp/modprobe_result 2>&1'' #
       (case mp of None \<Rightarrow> [] | Some t \<Rightarrow> [''rm -f /tmp/modprobe_result'']) else [])"

definition blocked :: "string \<Rightarrow> bool \<Rightarrow> string option \<Rightarrow> bool" where
  "blocked n avail mp \<longleftrightarrow> n = chosen_cc \<and> \<not> avail \<and> modprobe_fails mp"

definition noted :: "host_tuning_vals list \<Rightarrow> string \<Rightarrow> string \<Rightarrow> assessment \<Rightarrow> assessment" where
  "noted tab n v a =
    (case find (\<lambda>e. rec_setting e = n) tab of None \<Rightarrow> a
     | Some e \<Rightarrow> if v \<noteq> [] \<and> isdigit (hd v) \<and> rec_xDefault e \<noteq> - 1 then note_tune_max e n a else a)"

lemma noted_ran [simp]: "ran (noted tab n v a) = ran a" "vModifySysctlFile (noted tab n v a) = vModifySysctlFile a"
    "aApplyKernelDefTun (noted tab n v a) = aApplyKernelDefTun a"
  by (simp_all add: noted_def note_tune_max_def split: option.split)

lemma note_tune_max_same [simp]: "(note_tune_max e n a)\<lparr>ran := ran a\<rparr> = note_tune_max e n a"
  by (simp add: note_tune_max_def)

lemma noted_same [simp]: "(noted tab n v a)\<lparr>ran := ran a\<rparr> = noted tab n v a"
  by (simp add: noted_def note_tune_max_def split: option.split)

lemma assess_line_entry:
  assumes "plausible tab n v"
  shows "assess_line s mp tab (setting_line (n, v) @ [newline]) (avail, a) =
    (case wanted tab n v of None \<Rightarrow> Inr (avail_after tab n v avail, noted tab n v a)
     | Some w \<Rightarrow>
       (let a1 = (noted tab n v a)\<lparr>ran := ran a @ modprobe_cmds n avail mp\<rparr>
        in if blocked n avail mp then Inr (avail, a1)
           else bindE (tune_setting s n w a1) (\<lambda>a2. Inr (avail, a2))))"
proof -
  have line: "assess_line s mp tab (setting_line (n, v) @ [newline]) (avail, a) =
    (case find (\<lambda>e. rec_setting e = n) tab of None \<Rightarrow> Inr (avail, a)
      | Some e \<Rightarrow> if v \<noteq> [] \<and> isdigit (hd v)
          then bindE (assess_number s e n v a) (\<lambda>a. Inr (avail, a))
          else assess_string s mp e n v (avail, a))"
    using read_setting_line [of n v] read_value_line [of v] assms
    by (simp add: assess_line_def plausible_def split: option.split)
  show ?thesis
  proof (cases "find (\<lambda>e. rec_setting e = n) tab")
    case None
    then show ?thesis by (simp add: line wanted_def avail_after_def noted_def)
  next
    case (Some e)
    show ?thesis
    proof (cases "v \<noteq> [] \<and> isdigit (hd v)")
      case True
      then have n: "n \<noteq> chosen_cc" "n \<noteq> available_cc" "rec_xDefault e \<noteq> - 1 \<longrightarrow> is_ok (parse_triple v)"
        using assms Some by (simp_all add: plausible_def)
      then have same: "avail_after tab n v avail = avail" "\<not> blocked n avail mp" "modprobe_cmds n avail mp = []"
        by (simp_all add: avail_after_def blocked_def modprobe_cmds_def)
      with True n(3) show ?thesis
        by (cases "parse_triple v") (auto simp: line Some wanted_def assess_number_def noted_def
            not_less Let_def same split: prod.splits)
    next
      case False
      then have i: "unat (rec_minimum e) < length aStringval"
        using assms Some by (simp add: plausible_def split: if_splits)
      have no: "noted tab n v a = a" using False by (auto simp: noted_def Some)
      have l: "assess_line s mp tab (setting_line (n, v) @ [newline]) (avail, a)
          = assess_string s mp e n v (avail, a)"
        using line Some False by auto
      have w: "wanted tab n v = (if n = available_cc \<or> v = aStringval ! unat (rec_minimum e) then None
          else Some (aStringval ! unat (rec_minimum e)))"
        using False i by (auto simp: wanted_def Some)
      have av: "avail_after tab n v avail = (avail \<or> n = available_cc \<and> has_substr v ''htcp''
          \<and> v \<noteq> aStringval ! unat (rec_minimum e))"
        by (simp add: avail_after_def Some)
      show ?thesis
        using i unfolding l w av no assess_string_def blocked_def modprobe_cmds_def modprobe_fails_def
        by (cases mp) (auto simp: Let_def run_system_def not_le)
    qed
  qed
qed

text \<open>The changes a run makes, in order.\<close>

fun kernel_changes ::
  "host_tuning_vals list \<Rightarrow> string option \<Rightarrow> bool \<Rightarrow> (string \<times> string) list \<Rightarrow> (string \<times> string) list" where
  "kernel_changes tab mp avail [] = []"
| "kernel_changes tab mp avail ((n, v) # es) =
    (case wanted tab n v of None \<Rightarrow> [] | Some w \<Rightarrow> if blocked n avail mp then [] else [(n, w)])
    @ kernel_changes tab mp (avail_after tab n v avail) es"

definition is_sysctl :: "string \<Rightarrow> bool" where
  "is_sysctl c \<longleftrightarrow> starts_with ''sysctl'' c"

lemma is_sysctl_simps [simp]:
  "is_sysctl (sysctl_cmd n v)" "is_sysctl (to_conf (sysctl_cmd n v))" "\<not> is_sysctl start_mark"
  "\<not> is_sysctl end_mark" "\<not> is_sysctl ''rm -f /tmp/current_config.orig''"
  "\<not> is_sysctl ''sh ./gdv.sh''" "\<not> is_sysctl ''sh ./gdv_100.sh''"
  by (simp_all add: is_sysctl_def sysctl_cmd_def)

lemma modprobe_cmds_no_sysctl: "c \<in> set (modprobe_cmds n avail mp) \<Longrightarrow> \<not> is_sysctl c"
  by (auto simp: modprobe_cmds_def is_sysctl_def split: if_splits option.splits)

text \<open>The commands carry out the changes, and write nothing else.\<close>

definition carries_out :: "string list \<Rightarrow> (string \<times> string) list \<Rightarrow> bool" where
  "carries_out cs ch \<longleftrightarrow> (\<forall>(n, w) \<in> set ch. sysctl_cmd n w \<in> set cs)
     \<and> (\<forall>c \<in> set cs. is_sysctl c \<longrightarrow> (\<exists>(n, w) \<in> set ch. c = sysctl_cmd n w \<or> c = to_conf (sysctl_cmd n w)))"

lemma carries_out_append: "carries_out cs ch \<Longrightarrow> carries_out ds dh \<Longrightarrow> carries_out (cs @ ds) (ch @ dh)"
  unfolding carries_out_def by fastforce

lemma carries_out_nothing: "\<forall>c \<in> set cs. \<not> is_sysctl c \<Longrightarrow> carries_out cs []"
  by (simp add: carries_out_def)

lemma tune_setting_apply:
  assumes "gApplyDefSysTuning s = CHR ''y''"
  obtains a1 cs where "tune_setting s n w a = Inr a1" "ran a1 = ran a @ cs" "carries_out cs [(n, w)]"
  using assms by (cases "gMakeTuningPermanent s = CHR ''y''"; cases "vModifySysctlFile a")
    (auto simp: tune_setting_def run_system_def carries_out_def)

lemma wanted_not_available:
  "plausible tab n v \<Longrightarrow> wanted tab n v = Some w \<Longrightarrow> n \<noteq> available_cc"
  by (auto simp: wanted_def plausible_def split: option.splits if_splits)

lemma avail_after_wanted:
  "plausible tab n v \<Longrightarrow> wanted tab n v = Some w \<Longrightarrow> avail_after tab n v' avail = avail"
  by (simp add: avail_after_def wanted_not_available)

lemma assess_line_apply:
  assumes "gApplyDefSysTuning s = CHR ''y''" and p: "plausible tab n v"
  shows "\<exists>a1 cs. assess_line s mp tab (setting_line (n, v) @ [newline]) (avail, a)
      = Inr (avail_after tab n v avail, a1)
      \<and> ran a1 = ran a @ cs \<and> carries_out cs (kernel_changes tab mp avail [(n, v)])"
proof (cases "wanted tab n v")
  case None
  then show ?thesis by (simp add: assess_line_entry [OF p] carries_out_def)
next
  case (Some w)
  let ?a = "(noted tab n v a)\<lparr>ran := ran a @ modprobe_cmds n avail mp\<rparr>"
  have no: "carries_out (modprobe_cmds n avail mp) []"
    using modprobe_cmds_no_sysctl carries_out_nothing by blast
  show ?thesis
  proof (cases "blocked n avail mp")
    case True
    then show ?thesis
      using Some no by (simp add: assess_line_entry [OF p] avail_after_wanted [OF p] Let_def)
  next
    case False
    obtain a1 cs where a1: "tune_setting s n w ?a = Inr a1" "ran a1 = ran ?a @ cs" "carries_out cs [(n, w)]"
      by (rule tune_setting_apply [OF assms(1), of n w ?a])
    with Some False carries_out_append [OF no a1(3)] show ?thesis
      by (intro exI [of _ a1] exI [of _ "modprobe_cmds n avail mp @ cs"])
        (simp add: assess_line_entry [OF p] avail_after_wanted [OF p] Let_def)
  qed
qed

lemma assess_lines_apply:
  assumes "gApplyDefSysTuning s = CHR ''y''" "\<forall>(n, v) \<in> set es. plausible tab n v"
  shows "\<exists>av a' cs. assess_lines s mp tab (map (\<lambda>e. setting_line e @ [newline]) es) (avail, a) = Inr (av, a')
    \<and> ran a' = ran a @ cs \<and> carries_out cs (kernel_changes tab mp avail es)"
  using assms(2)
proof (induction es arbitrary: avail a)
  case Nil
  then show ?case by (simp add: carries_out_def)
next
  case (Cons x es)
  obtain n v where x: "x = (n, v)" by (cases x)
  let ?av = "avail_after tab n v avail"
  obtain a1 cs where s: "assess_line s mp tab (setting_line x @ [newline]) (avail, a) = Inr (?av, a1)"
    "ran a1 = ran a @ cs" "carries_out cs (kernel_changes tab mp avail [(n, v)])"
    using assess_line_apply [OF assms(1), of tab n v mp avail a] Cons.prems by (auto simp: x)
  obtain av a' cs' where "assess_lines s mp tab (map (\<lambda>e. setting_line e @ [newline]) es) (?av, a1) = Inr (av, a')"
    "ran a' = ran a1 @ cs'" "carries_out cs' (kernel_changes tab mp ?av es)"
    using Cons.IH [of ?av a1] Cons.prems by auto
  with s carries_out_append [OF s(3) this(3)] show ?case
    by (intro exI [of _ av] exI [of _ a'] exI [of _ "cs @ cs'"]) (simp add: x)
qed

lemma file_lines_listing:
  assumes "\<forall>(n, v) \<in> set es. plausible tab n v"
  shows "file_lines (listing es) = map (\<lambda>e. setting_line e @ [newline]) es"
proof -
  have "\<forall>l \<in> set (map setting_line es). newline \<notin> set l"
    using assms by (auto simp: setting_line_def plausible_def)
  from file_lines_unlines [OF this] show ?thesis by (simp add: listing_def comp_def)
qed

lemma system_tuning_apply:
  assumes "gApplyDefSysTuning s = CHR ''y''" "\<forall>(n, v) \<in> set es. plausible (fst (tuning_table speed)) n v"
  obtains a1 cs where "fDoSystemTuning speed s (Some (listing es)) mp a = Inr (Some a1)" "ran a1 = ran a @ cs"
    "carries_out cs (kernel_changes (fst (tuning_table speed)) mp False es)"
proof -
  obtain tab script where t: "tuning_table speed = (tab, script)" by (cases "tuning_table speed")
  have ns: "\<not> is_sysctl script" using t by (auto simp: tuning_table_def split: if_splits)
  obtain av a' cs where "assess_lines s mp tab (map (\<lambda>e. setting_line e @ [newline]) es) (False, run_system script a)
      = Inr (av, a')" "ran a' = ran (run_system script a) @ cs" "carries_out cs (kernel_changes tab mp False es)"
    using assess_lines_apply [OF assms(1)] assms(2) t by (metis fst_conv)
  then have "fDoSystemTuning speed s (Some (listing es)) mp a =
      Inr (Some (if vModifySysctlFile a' then (run_system end_mark (run_system ''rm -f /tmp/current_config.orig'' a'))
        \<lparr>vModifySysctlFile := False\<rparr> else run_system ''rm -f /tmp/current_config.orig'' a'))"
    "ran a' = ran a @ script # cs"
    using file_lines_listing [OF assms(2)] by (simp_all add: fDoSystemTuning_def t run_system_def)
  moreover have "carries_out ((script # cs) @ [''rm -f /tmp/current_config.orig'']
      @ (if vModifySysctlFile a' then [end_mark] else [])) (([] @ kernel_changes tab mp False es) @ [] @ [])"
    using carries_out_append [OF carries_out_nothing [of "[script]"] \<open>carries_out cs _\<close>] ns
    by (intro carries_out_append) (auto intro!: carries_out_nothing)
  ultimately show thesis
    using t by (intro that) (auto simp: run_system_def)
qed

lemma changes_settled:
  assumes "\<forall>(n, w) \<in> set (kernel_changes (fst (tuning_table speed)) mp avail es). applied n"
    and "\<forall>(n, v) \<in> set es. plausible (fst (tuning_table speed)) n v"
  shows "kernel_changes (fst (tuning_table speed)) mp avail
      (map (\<lambda>(n, v). (n, kernel.advised_value speed applied n v)) es) = []"
  using assms
proof (induction es arbitrary: avail)
  case (Cons x es)
  obtain n v where x: "x = (n, v)" by (cases x)
  let ?tab = "fst (tuning_table speed)" and ?v = "kernel.advised_value speed applied n v"
  have p: "plausible ?tab n v" using Cons.prems x by auto
  have av: "avail_after ?tab n ?v avail = avail_after ?tab n v avail"
    using avail_after_wanted [OF p] by (cases "wanted ?tab n v") (simp_all add: kernel.advised_value_def)
  have "wanted ?tab n ?v = None \<or> blocked n avail mp"
  proof (cases "wanted ?tab n v")
    case (Some w)
    then show ?thesis using Cons.prems(1) kernel.advised_value_settled [of applied n] by (auto simp: x)
  qed (simp add: kernel.advised_value_def)
  with av Cons show ?case by (auto simp: x split: option.splits)
qed simp

text \<open>The listing after the commands \<open>cs\<close>: a setting they wrote shows what was written.\<close>

definition written :: "string list \<Rightarrow> string \<Rightarrow> bool" where
  "written cs n \<longleftrightarrow> list_ex (starts_with (''sysctl -w '' @ n @ ''='')) cs"

definition updated :: "int \<Rightarrow> string list \<Rightarrow> (string \<times> string) list \<Rightarrow> (string \<times> string) list" where
  "updated speed cs es = map (\<lambda>(n, v). (n,
     case wanted (fst (tuning_table speed)) n v of None \<Rightarrow> v
     | Some w \<Rightarrow> if written cs n then shown (CHR 0x09) w else v)) es"

text \<open>A value as good as the recommended one.\<close>

definition adequate :: "host_tuning_vals list \<Rightarrow> string \<Rightarrow> string \<Rightarrow> bool" where
  "adequate tab n v =
    (case find (\<lambda>e. rec_setting e = n) tab of None \<Rightarrow> True
     | Some e \<Rightarrow>
       if v \<noteq> [] \<and> isdigit (hd v)
       then (if rec_xDefault e = - 1 then rec_minimum e \<le> word_of_int (atoi v)
             else rec_minimum e < word_of_int (atoi v)
               \<or> (case parse_triple v of Inl _ \<Rightarrow> False | Inr (_, _, mx) \<Rightarrow> rec_maximum e \<le> word_of_int (atoi mx)))
       else n = available_cc \<or> v = aStringval ! unat (rec_minimum e))"

lemma not_wanted_adequate: "plausible tab n v \<Longrightarrow> wanted tab n v = None \<Longrightarrow> adequate tab n v"
  by (cases "find (\<lambda>e. rec_setting e = n) tab"; cases "parse_triple v")
    (auto simp: wanted_def adequate_def plausible_def not_less is_ok_def split: if_splits)

lemma updated_advised:
  "updated speed cs es = map (\<lambda>(n, v). (n, kernel.advised_value speed (written cs) n v)) es"
  by (auto simp: updated_def kernel.advised_value_def split: option.split)

lemma written_changes: "carries_out cs ch \<Longrightarrow> (n, w) \<in> set ch \<Longrightarrow> written cs n"
proof -
  assume "carries_out cs ch" "(n, w) \<in> set ch"
  then have "sysctl_cmd n w \<in> set cs" by (auto simp: carries_out_def)
  moreover have "starts_with (''sysctl -w '' @ n @ ''='') (sysctl_cmd n w)"
    using starts_with_append [of "''sysctl -w '' @ n @ ''=''" w] by (simp add: sysctl_cmd_def)
  ultimately show ?thesis by (auto simp: written_def list_ex_iff)
qed

lemma no_changes_adequate:
  "kernel_changes tab mp avail es = [] \<Longrightarrow> \<forall>(n, v) \<in> set es. plausible tab n v \<Longrightarrow>
     \<forall>(n, v) \<in> set es. adequate tab n v \<or> n = chosen_cc \<and> modprobe_fails mp"
proof (induction es arbitrary: avail)
  case (Cons x es)
  obtain n v where x: "x = (n, v)" by (cases x)
  with Cons.prems have "wanted tab n v = None \<or> blocked n avail mp"
    by (auto split: option.splits if_splits)
  then show ?case
    using Cons not_wanted_adequate [of tab n v] by (auto simp: x blocked_def)
qed simp

lemma length_shown: "length (shown sep w) \<le> length w"
  by (simp add: shown_def)

lemma wanted_plausible:
  assumes "plausible tab n v" "wanted tab n v = Some w" "\<forall>e \<in> set tab. entry_sane e"
    "\<forall>e \<in> set tab. rec_xDefault e < 10 ^ 10"
  shows "plausible tab n (shown (CHR 0x09) w)"
  using assms(3,2)
proof (cases rule: wanted_cases)
  case (single e)
  then show ?thesis
    using assms(1) length_show_u32 [of "rec_minimum e"] hd_show_nat by (simp add: plausible_def)
next
  case (triple e)
  let ?r = "CHR 0x09 # show_nat (nat (rec_xDefault e)) @ CHR 0x09 # show_nat (unat (rec_maximum e))"
  have nd: "\<not> isdigit (CHR 0x09)" by (simp add: isdigit_def char_code_def)
  have "e \<in> set tab" using triple(1) by (auto simp: find_Some_iff)
  then have "rec_xDefault e < 10 ^ 10" using assms(4) by blast
  then have "nat (rec_xDefault e) < 10 ^ Suc 9" by simp
  from length_show_nat_le [OF this] have "length (show_nat (nat (rec_xDefault e))) \<le> 10" by simp
  moreover have "shown (CHR 0x09) w = show_nat (unat (rec_minimum e)) @ ?r"
    unfolding triple(6) by (rule shown_triple [OF triple(2,5) nd])
  moreover have "is_ok (parse_triple (show_nat (unat (rec_minimum e)) @ ?r))"
    using nd by (subst parse_triple_digits) (simp_all add: show_nat_digits)
  moreover have "isdigit (hd (show_nat (unat (rec_minimum e)) @ ?r))" using hd_show_nat by (simp add: hd_append)
  ultimately show ?thesis
    using assms(1) triple(1,3,4,5) length_show_u32 [of "rec_minimum e"] length_show_u32 [of "rec_maximum e"]
    by (simp add: plausible_def)
next
  case (other e)
  have "\<forall>s \<in> set aStringval. newline \<notin> set s \<and> length s < 256" by (simp add: aStringval_def)
  with other(3) have "newline \<notin> set w \<and> length w < 256" unfolding other(4) by (meson nth_mem)
  then show ?thesis
    using assms(1) other aStringval_shown [OF other(3), of "CHR 0x09"] by (simp add: plausible_def)
qed

lemma updated_plausible:
  assumes "\<forall>(n, v) \<in> set es. plausible (fst (tuning_table speed)) n v"
  shows "\<forall>(n, v) \<in> set (updated speed cs es). plausible (fst (tuning_table speed)) n v"
proof -
  have "\<forall>e \<in> set (fst (tuning_table speed)). rec_xDefault e < 10 ^ 10"
    by (simp add: tuning_table_def aTuningNumsToUse10GandUnder_def
        aTuningNumsToUse_Over10GtoUnder100G_def aTuningNumsToUse100Gb_def entry_def)
  then show ?thesis
    using assms wanted_plausible [OF _ _ tables_sane]
    by (fastforce simp: updated_def split: option.splits)
qed

section \<open>Applying or saving\<close>

text \<open>A run that saves, beside the same run that applies: the commands saved are the \<open>sysctl\<close> commands
  the other one ran, and the rest is the same.\<close>

definition mirrors :: "assessment \<Rightarrow> assessment \<Rightarrow> assessment \<Rightarrow> bool" where
  "mirrors a0 b a \<longleftrightarrow> (\<exists>cs. ran b = ran a0 @ cs
     \<and> aApplyKernelDefTun a = aApplyKernelDefTun a0 @ filter is_sysctl cs
     \<and> ran a = ran a0 @ filter (\<lambda>c. \<not> is_sysctl c) cs
     \<and> vModifySysctlFile b = vModifySysctlFile a \<and> as_tune_max b = as_tune_max a)"

lemma mirrors_self: "mirrors a a a"
  by (auto simp: mirrors_def)

lemma mirrors_system: "mirrors a0 b a \<Longrightarrow> \<not> is_sysctl c \<Longrightarrow> mirrors a0 (run_system c b) (run_system c a)"
  unfolding mirrors_def run_system_def by (elim exE conjE, rule_tac x = "cs @ [c]" in exI) simp

lemma mirrors_note: "mirrors a0 b a \<Longrightarrow> mirrors a0 (note_tune_max e n b) (note_tune_max e n a)"
  by (auto simp: mirrors_def note_tune_max_def)

lemma mirrors_flag: "mirrors a0 b a \<Longrightarrow> mirrors a0 (b\<lparr>vModifySysctlFile := x\<rparr>) (a\<lparr>vModifySysctlFile := x\<rparr>)"
  by (auto simp: mirrors_def)

lemma mirrors_tune:
  assumes "gApplyDefSysTuning s = CHR ''y''" "gMakeTuningPermanent s \<noteq> CHR ''y''"
    "gApplyDefSysTuning s' \<noteq> CHR ''y''"
    and "mirrors a0 b a" "tune_setting s' n w a = Inr a1"
  shows "\<exists>b1. tune_setting s n w b = Inr b1 \<and> mirrors a0 b1 a1"
proof -
  obtain cs where cs: "ran b = ran a0 @ cs" "aApplyKernelDefTun a = aApplyKernelDefTun a0 @ filter is_sysctl cs"
    "ran a = ran a0 @ filter (\<lambda>c. \<not> is_sysctl c) cs" "vModifySysctlFile b = vModifySysctlFile a"
    "as_tune_max b = as_tune_max a"
    using assms(4) by (auto simp: mirrors_def)
  have "a1 = a\<lparr>aApplyKernelDefTun := aApplyKernelDefTun a @ [sysctl_cmd n w]\<rparr>"
    using assms(3,5) by (auto simp: tune_setting_def save_kernel_def split: if_splits)
  with assms(1,2) cs show ?thesis
    by (auto simp: tune_setting_def mirrors_def run_system_def intro!: exI [of _ "cs @ [sysctl_cmd n w]"])
qed

lemma mirrors_line:
  assumes "gApplyDefSysTuning s = CHR ''y''" "gMakeTuningPermanent s \<noteq> CHR ''y''"
    "gApplyDefSysTuning s' \<noteq> CHR ''y''"
    and "mirrors a0 b a" "assess_line s' mp tab l (av, a) = Inr (av1, a1)"
  shows "\<exists>b1. assess_line s mp tab l (av, b) = Inr (av1, b1) \<and> mirrors a0 b1 a1"
proof -
  note tune = mirrors_tune [OF assms(1-3)]
  have number: "\<exists>b1. assess_number s e n v b = Inr b1 \<and> mirrors a0 b1 a1"
    if "assess_number s' e n v a = Inr a1" for e n v a1
    using that assms(4) mirrors_note [OF assms(4), of e n]
    by (cases "parse_triple v")
      (auto simp: assess_number_def Let_def split: if_splits prod.splits
        intro: tune [OF assms(4)] tune [OF mirrors_note [OF assms(4)]])
  have string: "\<exists>b1. assess_string s mp e n v (av, b) = Inr (av1, b1) \<and> mirrors a0 b1 a1"
    if "assess_string s' mp e n v (av, a) = Inr (av1, a1)" for e n v av1 a1
  proof -
    let ?m = "run_system ''modprobe tcp_htcp > /tmp/modprobe_result 2>&1''"
      and ?r = "run_system ''rm -f /tmp/modprobe_result''"
    have m: "mirrors a0 (?m b) (?m a)" and r: "mirrors a0 (?r (?m b)) (?r (?m a))"
      using assms(4) by (auto intro!: mirrors_system simp: is_sysctl_def)
    have t: "\<exists>b1. bindE (tune_setting s n w b') (\<lambda>b1. Inr (av, b1)) = Inr (av1, b1) \<and> mirrors a0 b1 a1"
      if "bindE (tune_setting s' n w a') (\<lambda>a1. Inr (av, a1)) = Inr (av1, a1)" "mirrors a0 b' a'" for w a' b'
      using tune [OF that(2)] that(1) by (fastforce simp: bindE_Inr_iff)
    let ?i = "unat (rec_minimum e)"
    show ?thesis
    proof (cases "length aStringval \<le> ?i \<or> v = aStringval ! ?i \<or> n = available_cc")
      case True
      with that have "a1 = a \<and> assess_string s mp e n v (av, b) = Inr (av1, b)"
        by (simp add: assess_string_def Let_def split: if_splits)
      with assms(4) show ?thesis by blast
    next
      case False
      note tuned = t [of "aStringval ! ?i"]
      show ?thesis
      proof (cases "n = chosen_cc \<and> \<not> av")
        case True
        with False that m show ?thesis
          using tuned [OF _ r] by (cases mp) (auto simp: assess_string_def Let_def r split: if_splits)
      next
        case other: False
        with False that show ?thesis using tuned [OF _ assms(4)] by (auto simp: assess_string_def Let_def)
      qed
    qed
  qed
  obtain name q where l: "read_setting l = Inr (name, q)"
    using assms(5) by (auto simp: assess_line_def bindE_Inr_iff)
  show ?thesis
  proof (cases "find (\<lambda>e. rec_setting e = name) tab")
    case None
    with l assms(4,5) show ?thesis by (simp add: assess_line_def)
  next
    case (Some e)
    with l assms(5) obtain v where v: "read_value q = Inr v" by (auto simp: assess_line_def bindE_Inr_iff)
    show ?thesis
    proof (cases "v \<noteq> [] \<and> isdigit (hd v)")
      case True
      with l Some v assms(5) have "assess_number s' e name v a = Inr a1" "av1 = av"
        by (auto simp: assess_line_def bindE_Inr_iff)
      with number [OF this(1)] l Some v True show ?thesis by (auto simp: assess_line_def)
    next
      case False
      with l Some v assms(5) have "assess_string s' mp e name v (av, a) = Inr (av1, a1)"
        by (auto simp: assess_line_def)
      with string [OF this] l Some v False show ?thesis by (auto simp: assess_line_def)
    qed
  qed
qed

lemma mirrors_lines:
  assumes "gApplyDefSysTuning s = CHR ''y''" "gMakeTuningPermanent s \<noteq> CHR ''y''"
    "gApplyDefSysTuning s' \<noteq> CHR ''y''"
  shows "mirrors a0 b a \<Longrightarrow> assess_lines s' mp tab ls (av, a) = Inr (av1, a1) \<Longrightarrow>
    \<exists>b1. assess_lines s mp tab ls (av, b) = Inr (av1, b1) \<and> mirrors a0 b1 a1"
proof (induction ls arbitrary: av a b)
  case (Cons l ls)
  obtain av2 a2 where l: "assess_line s' mp tab l (av, a) = Inr (av2, a2)"
    "assess_lines s' mp tab ls (av2, a2) = Inr (av1, a1)"
    using Cons.prems(2) by (auto simp: bindE_Inr_iff)
  obtain b2 where "assess_line s mp tab l (av, b) = Inr (av2, b2)" "mirrors a0 b2 a2"
    using mirrors_line [OF assms Cons.prems(1) l(1)] by blast
  with Cons.IH [OF _ l(2)] show ?case by auto
qed simp

section \<open>The lines added to sysctl.conf\<close>

definition conf_line :: "string \<Rightarrow> bool" where
  "conf_line c \<longleftrightarrow> starts_with (rev '' >> /etc/sysctl.conf'') (rev c)"

lemma conf_line_to_conf [simp]: "conf_line (to_conf c)"
  by (simp add: conf_line_def)

lemma conf_line_marks [simp]: "conf_line start_mark" "conf_line end_mark"
    "\<not> conf_line ''rm -f /tmp/current_config.orig''" "\<not> conf_line ''rm -f /tmp/modprobe_result''"
    "\<not> conf_line ''modprobe tcp_htcp > /tmp/modprobe_result 2>&1''"
    "\<not> conf_line ''sh ./gdv.sh''" "\<not> conf_line ''sh ./gdv_100.sh''"
  by (simp_all add: conf_line_def)

text \<open>What a setting is set to is not empty and does not end in the last character of a file name there.\<close>

definition value_end :: "string \<Rightarrow> bool" where
  "value_end w \<longleftrightarrow> w \<noteq> [] \<and> last w \<noteq> CHR ''f''"

lemma plain_not_conf: "value_end w \<Longrightarrow> \<not> conf_line (sysctl_cmd n w)"
  by (cases w rule: rev_cases) (auto simp: conf_line_def sysctl_cmd_def value_end_def)

lemma value_end_show_nat [simp]: "value_end (show_nat n)"
proof -
  have "isdigit (last (show_nat n))" using show_nat_digits [of n] by simp
  then show ?thesis by (auto simp: value_end_def isdigit_def char_code_def)
qed

lemma value_end_show_int [simp]: "value_end (show_int i)"
  using value_end_show_nat by (auto simp: show_int_def value_end_def)

lemma value_end_triple [simp]: "value_end (CHR 0x22 # rec_triple e @ [CHR 0x22])"
  by (simp add: value_end_def)

lemma value_end_string: "i < length aStringval \<Longrightarrow> value_end (aStringval ! i)"
proof -
  have "\<forall>v \<in> set aStringval. value_end v" by (simp add: aStringval_def value_end_def)
  then show "i < length aStringval \<Longrightarrow> value_end (aStringval ! i)" by simp
qed

text \<open>Between the first change and the end the added lines are the start mark and settings, and the flag
  says so.\<close>

definition conf_open :: "assessment \<Rightarrow> assessment \<Rightarrow> bool" where
  "conf_open a0 a \<longleftrightarrow> (\<exists>cs. ran a = ran a0 @ cs \<and>
     (if vModifySysctlFile a
      then \<exists>ls. ls \<noteq> [] \<and> filter conf_line cs = start_mark # ls \<and> (\<forall>l \<in> set ls. is_sysctl l)
      else filter conf_line cs = []))"

lemma conf_open_system: "conf_open a0 a \<Longrightarrow> \<not> conf_line c \<Longrightarrow> conf_open a0 (run_system c a)"
  unfolding conf_open_def run_system_def by (elim exE, rule_tac x = "cs @ [c]" in exI) simp

lemma conf_open_note: "conf_open a0 a \<Longrightarrow> conf_open a0 (note_tune_max e n a)"
  by (simp add: conf_open_def note_tune_max_def)

lemma conf_open_tune:
  assumes "conf_open a0 a" "tune_setting s n w a = Inr a1" "value_end w"
  shows "conf_open a0 a1"
proof (cases "gApplyDefSysTuning s = CHR ''y''")
  case False
  then have "ran a1 = ran a" "vModifySysctlFile a1 = vModifySysctlFile a"
    using assms(2) by (auto simp: tune_setting_def save_kernel_def split: if_splits)
  with assms(1) show ?thesis by (simp add: conf_open_def)
next
  case True
  obtain cs where cs: "ran a = ran a0 @ cs" and c: "if vModifySysctlFile a
      then \<exists>ls. ls \<noteq> [] \<and> filter conf_line cs = start_mark # ls \<and> (\<forall>l \<in> set ls. is_sysctl l)
      else filter conf_line cs = []"
    using assms(1) by (auto simp: conf_open_def)
  let ?c = "sysctl_cmd n w"
  show ?thesis
  proof (cases "gMakeTuningPermanent s = CHR ''y''")
    case False
    with True assms(2) have "a1 = run_system ?c a" by (simp add: tune_setting_def)
    then show ?thesis using conf_open_system [OF assms(1)] plain_not_conf [OF assms(3)] by simp
  next
    case perm: True
    let ?m = "if vModifySysctlFile a then [] else [start_mark]"
    have a1: "ran a1 = ran a0 @ cs @ [?c] @ ?m @ [to_conf ?c]" "vModifySysctlFile a1"
      using assms(2) True perm cs by (auto simp: tune_setting_def run_system_def Let_def)
    have "filter conf_line (cs @ [?c] @ ?m @ [to_conf ?c]) = filter conf_line cs @ ?m @ [to_conf ?c]"
      using plain_not_conf [OF assms(3)] by simp
    moreover have "\<exists>ls. ls \<noteq> [] \<and> filter conf_line cs @ ?m @ [to_conf ?c] = start_mark # ls
        \<and> (\<forall>l \<in> set ls. is_sysctl l)"
      using c by (cases "vModifySysctlFile a") auto
    ultimately show ?thesis using a1 by (auto simp: conf_open_def)
  qed
qed

lemma conf_open_line:
  assumes "conf_open a0 a" "assess_line s mp tab l (av, a) = Inr (av1, a1)"
  shows "conf_open a0 a1"
proof -
  have number: "conf_open a0 a1" if "assess_number s e n v a = Inr a1" for e n v a1
    using that assms(1) conf_open_note [OF assms(1), of e n]
    by (cases "parse_triple v")
      (auto simp: assess_number_def Let_def split: if_splits prod.splits
        intro: conf_open_tune [OF assms(1)] conf_open_tune [OF conf_open_note [OF assms(1)]])
  have string: "conf_open a0 a1" if "assess_string s mp e n v (av, a) = Inr (av1, a1)" for e n v av1 a1
  proof -
    let ?m = "run_system ''modprobe tcp_htcp > /tmp/modprobe_result 2>&1''"
      and ?r = "run_system ''rm -f /tmp/modprobe_result''"
    have m: "conf_open a0 (?m a)" "conf_open a0 (?r (?m a))"
      using assms(1) by (auto intro!: conf_open_system)
    show ?thesis
      using that assms(1) m value_end_string
      by (auto simp: assess_string_def Let_def bindE_Inr_iff not_le split: if_splits option.splits
          elim: conf_open_tune)
  qed
  show ?thesis
    using assms number string
    by (fastforce simp: assess_line_def bindE_Inr_iff split: option.splits if_splits prod.splits)
qed

lemma conf_open_lines:
  "conf_open a0 a \<Longrightarrow> assess_lines s mp tab ls (av, a) = Inr (av1, a1) \<Longrightarrow> conf_open a0 a1"
proof (induction ls arbitrary: av a)
  case (Cons l ls)
  then obtain av2 a2 where "assess_line s mp tab l (av, a) = Inr (av2, a2)"
    "assess_lines s mp tab ls (av2, a2) = Inr (av1, a1)"
    by (auto simp: bindE_Inr_iff)
  with Cons conf_open_line show ?case by blast
qed simp

section \<open>Properties\<close>


definition apply_settings :: user_settings where
  "apply_settings = initial_settings\<lparr>gApplyDefSysTuning := CHR ''y''\<rparr>"

definition default_host :: "(string \<times> string) list" where
  "default_host = [(''net.core.rmem_max'', ''212992''), (available_cc, ''reno cubic''), (chosen_cc, ''cubic''),
     (''net.core.default_qdisc'', ''fq_codel''), (''net.ipv4.tcp_wmem'', ''4096 16384 4194304'')]"

lemma default_host_plausible:
  "\<forall>(n, v) \<in> set default_host. plausible (fst (tuning_table 40000)) n v"
proof -
  have "parse_triple ''4096 16384 4194304'' = Inr (''4096'', ''16384'', ''4194304'')"
    by (simp add: parse_triple_def isdigit_def char_code_def)
  then show ?thesis
    by (simp add: default_host_def plausible_def tuning_table_def aTuningNumsToUse_Over10GtoUnder100G_def
        entry_def isdigit_def char_code_def aStringval_def)
qed



text \<open>A host with one setting that falls short.\<close>

definition short_host :: "(string \<times> string) list" where
  "short_host = [(''net.core.rmem_max'', ''212992'')]"

lemma short_host_run:
  "fDoSystemTuning 40000 s (Some (listing short_host)) None initial_assessment =
     bindE (tune_setting s ''net.core.rmem_max'' (show_nat 1147483647) (run_system ''sh ./gdv.sh'' initial_assessment))
       (\<lambda>a. let a3 = run_system ''rm -f /tmp/current_config.orig'' a in
         Inr (Some (if vModifySysctlFile a3
                    then (run_system end_mark a3)\<lparr>vModifySysctlFile := False\<rparr> else a3)))"
proof -
  let ?tab = "aTuningNumsToUse_Over10GtoUnder100G"
  have t: "tuning_table 40000 = (?tab, ''sh ./gdv.sh'')" by (simp add: tuning_table_def)
  have f: "find (\<lambda>e. rec_setting e = ''net.core.rmem_max'') ?tab = Some (entry ''net.core.rmem_max'' 1147483647 (- 1) 0)"
    by (simp add: aTuningNumsToUse_Over10GtoUnder100G_def entry_def)
  have p: "plausible ?tab ''net.core.rmem_max'' ''212992''"
    by (simp add: plausible_def f entry_def isdigit_def char_code_def)
  have "atoi ''212992'' = 212992"
    by (simp add: atoi_def strtol_def c_int_def digits_val_def isdigit_def isspace_def digit_val_def
        char_code_def Let_def)
  then have w: "wanted ?tab ''net.core.rmem_max'' ''212992'' = Some (show_nat 1147483647)"
    using show_int_sint [of 1147483647] by (simp add: wanted_def f entry_def isdigit_def char_code_def)
  have n: "noted ?tab ''net.core.rmem_max'' ''212992'' a = a" for a
    by (simp add: noted_def f entry_def)
  have "file_lines (listing short_host) = [setting_line (''net.core.rmem_max'', ''212992'') @ [newline]]"
    using file_lines_listing [of short_host ?tab] p by (simp add: short_host_def)
  then show ?thesis
    by (simp add: fDoSystemTuning_def t assess_line_entry [OF p] w n modprobe_cmds_def blocked_def bindE_def
        split: sum.split)
qed

definition short_host_saved :: assessment where
  "short_host_saved = \<lparr>ran = [''sh ./gdv.sh'', ''rm -f /tmp/current_config.orig''], vModifySysctlFile = False,
    aApplyKernelDefTun = [sysctl_cmd ''net.core.rmem_max'' (show_nat 1147483647)], aApplyNicDefTun = [],
    aApplyBiosDefTun = [], as_tune_max = 0\<rparr>"

lemma short_host_saves:
  "fDoSystemTuning 40000 initial_settings (Some (listing short_host)) None initial_assessment
     = Inr (Some short_host_saved)"
  unfolding short_host_run
  by (simp add: tune_setting_def save_kernel_def initial_settings_def initial_assessment_def run_system_def
      NUM_SYSTEM_SETTINGS_def short_host_saved_def)


text \<open>C28: What is added to \<open>/etc/sysctl.conf\<close> is bracketed.  Whatever the settings and the list, an
  assessment adds nothing, or the start mark, then one or more settings, then the end mark, and it
  leaves the flag for an open bracket clear.\<close>

theorem sysctl_conf_bracketed:
  assumes "fDoSystemTuning speed s current mp a = Inr (Some a1)" "\<not> vModifySysctlFile a"
  shows "\<exists>cs. ran a1 = ran a @ cs \<and> \<not> vModifySysctlFile a1
    \<and> (filter conf_line cs = []
       \<or> (\<exists>ls. ls \<noteq> [] \<and> filter conf_line cs = start_mark # ls @ [end_mark] \<and> (\<forall>l \<in> set ls. is_sysctl l)))"
proof -
  obtain tab script where t: "tuning_table speed = (tab, script)" by (cases "tuning_table speed")
  have nc: "\<not> conf_line script" using t by (auto simp: tuning_table_def split: if_splits)
  obtain f where f: "current = Some f" using assms(1) by (cases current) (auto simp: fDoSystemTuning_def t)
  let ?rm = "run_system ''rm -f /tmp/current_config.orig''"
  obtain av a2 where a2: "assess_lines s mp tab (file_lines f) (False, run_system script a) = Inr (av, a2)"
    and a1: "a1 = (if vModifySysctlFile (?rm a2) then (run_system end_mark (?rm a2))\<lparr>vModifySysctlFile := False\<rparr>
      else ?rm a2)"
    using assms(1) by (auto simp: fDoSystemTuning_def t f bindE_Inr_iff Let_def)
  have "conf_open a a" using assms(2) by (simp add: conf_open_def)
  from conf_open_lines [OF conf_open_system [OF this nc] a2] have "conf_open a (?rm a2)"
    by (rule conf_open_system) simp
  then obtain cs where cs: "ran (?rm a2) = ran a @ cs" "if vModifySysctlFile (?rm a2)
      then \<exists>ls. ls \<noteq> [] \<and> filter conf_line cs = start_mark # ls \<and> (\<forall>l \<in> set ls. is_sysctl l)
      else filter conf_line cs = []"
    unfolding conf_open_def by blast
  show ?thesis
  proof (cases "vModifySysctlFile (?rm a2)")
    case True
    then have "ran a1 = ran a @ cs @ [end_mark]" "\<not> vModifySysctlFile a1"
      using cs(1) by (simp_all add: a1 run_system_def)
    with True cs(2) show ?thesis by (intro exI [of _ "cs @ [end_mark]"]) auto
  next
    case False
    then show ?thesis using cs by (auto simp: a1)
  qed
qed

theorem sysctl_conf_bracketed_witness:
  "\<exists>b1 ls. fDoSystemTuning 40000 (apply_settings\<lparr>gMakeTuningPermanent := CHR ''y''\<rparr>)
       (Some (listing short_host)) None initial_assessment = Inr (Some b1)
     \<and> filter conf_line (ran b1) = start_mark # ls @ [end_mark]"
proof -
  let ?s = "apply_settings\<lparr>gMakeTuningPermanent := CHR ''y''\<rparr>"
    and ?c = "sysctl_cmd ''net.core.rmem_max'' (show_nat 1147483647)"
  let ?cs = "[''sh ./gdv.sh'', ?c, start_mark, to_conf ?c, ''rm -f /tmp/current_config.orig'', end_mark]"
  obtain b1 where b1: "fDoSystemTuning 40000 ?s (Some (listing short_host)) None initial_assessment = Inr (Some b1)"
    "ran b1 = ?cs"
    unfolding short_host_run
    by (simp add: tune_setting_def apply_settings_def initial_settings_def initial_assessment_def run_system_def)
  have "filter conf_line (ran b1) \<noteq> []" unfolding b1(2) by simp
  with sysctl_conf_bracketed [OF b1(1)] b1 show ?thesis by (auto simp: initial_assessment_def)
qed

end
