(* ===== verification/Host_Assess.thy ===== *)
theory Host_Assess
  imports System_Assess
begin

text \<open>
  The rest of the assessment (\<open>src/userspace/user_assess.c\<close>): the CPU governor and \<open>irqbalance\<close>
  (\<open>fDoBiosTuning\<close>), the NIC (\<open>fDoNicTuning\<close> and the checks it has switched off), the facts about the
  host, and \<open>user_assess\<close> itself with the files it leaves for the menu (\<open>src/userspace/user_menu.sh\<close>).

  A command writes what it finds to a file that is read back; the text of the file is an argument,
  \<open>None\<close> when it cannot be opened, empty when the command is not supported.
\<close>

section \<open>Running and saving\<close>

definition apply_bios :: "user_settings \<Rightarrow> string \<Rightarrow> assessment \<Rightarrow> c_fault + assessment" where
  "apply_bios s c a =
    (if gApplyBiosTuning s = CHR ''y'' then Inr (run_system c a)
     else if length (aApplyBiosDefTun a) < NUM_SYSTEM_SETTINGS
     then Inr (a\<lparr>aApplyBiosDefTun := aApplyBiosDefTun a @ [c]\<rparr>)
     else Inl (Out_Of_Bounds ''aApplyBiosDefTun2DArray'' (int (length (aApplyBiosDefTun a)))))"

definition apply_nic :: "user_settings \<Rightarrow> string \<Rightarrow> assessment \<Rightarrow> c_fault + assessment" where
  "apply_nic s c a =
    (if gApplyNicTuning s = CHR ''y'' then Inr (run_system c a)
     else if length (aApplyNicDefTun a) < NUM_SYSTEM_SETTINGS
     then Inr (a\<lparr>aApplyNicDefTun := aApplyNicDefTun a @ [c]\<rparr>)
     else Inl (Out_Of_Bounds ''aApplyNicDefTun2DArray'' (int (length (aApplyNicDefTun a)))))"

section \<open>Reading what a command wrote\<close>

text \<open>Skipping to a letter or a digit runs past the end of a line without one; \<open>size\<close> is that of the buffer
  the letters or digits are copied to.\<close>

definition copy_class :: "(char \<Rightarrow> bool) \<Rightarrow> string \<Rightarrow> string \<Rightarrow> c_fault + string" where
  "copy_class P buf line =
    (let r = dropWhile (\<lambda>c. \<not> P c) line; v = takeWhile P r in
     if r = [] then Inl (Unterminated ''line'')
     else if 256 \<le> length v then Inl (Buffer_Overflow buf (length v + 1)) else Inr v)"

text \<open>A line copied to a buffer of 256 bytes, its newline removed.\<close>

definition chomp :: "string \<Rightarrow> string" where
  "chomp l = (if l \<noteq> [] \<and> last l = newline then butlast l else l)"

definition copy_line :: "string \<Rightarrow> string \<Rightarrow> c_fault + string" where
  "copy_line buf l = (if 256 \<le> length l then Inl (Buffer_Overflow buf (length l + 1)) else Inr (chomp l))"

text \<open>The first line with \<open>key\<close>: the word behind it, and the lines that follow.\<close>

fun find_word :: "string \<Rightarrow> string list \<Rightarrow> c_fault + (string \<times> string list) option" where
  "find_word key [] = Inr None"
| "find_word key (l # ls) =
    (case strstr l key of None \<Rightarrow> find_word key ls
     | Some y \<Rightarrow> bindE (copy_class isalpha ''aBiosValue'' (drop (length key) y)) (\<lambda>v. Inr (Some (v, ls))))"

section \<open>CPU governor and irqbalance\<close>

fun governor_lines :: "string list \<Rightarrow> string \<Rightarrow> c_fault + string" where
  "governor_lines [] v = Inr v"
| "governor_lines (l # ls) v = bindE (copy_line ''aBiosValue'' l) (governor_lines ls)"

abbreviation rm_bios :: string where "rm_bios \<equiv> ''rm -f /tmp/BIOS.cfgfile''"

text \<open>\<open>gov\<close>: the file of the first command, \<open>cpupower\<close> that of the second one.\<close>

definition fDoCpuPerformance ::
  "user_settings \<Rightarrow> string \<Rightarrow> string \<Rightarrow> bool \<Rightarrow> assessment \<Rightarrow> c_fault + assessment" where
  "fDoCpuPerformance s gov cpupower opens a =
    (let a1 = run_system ''cat /sys/devices/system/cpu/cpu*/cpufreq/scaling_governor > /tmp/BIOS.cfgfile 2>/dev/null'' a
     in bindE
       (if gov \<noteq> [] then Inr (a1, False, [], file_lines gov)
        else (let a2 = run_system ''sudo cpupower frequency-info | grep \"The governor\" > /tmp/BIOS.cfgfile'' a1 in
              if \<not> opens then Inl (Null_Pointer ''biosCfgFPtr'')
              else bindE (find_word ''The governor'' (file_lines cpupower)) (\<lambda>r.
                Inr (case r of Some (v, rest) \<Rightarrow> (a2, True, v, rest)
                     | None \<Rightarrow> (a2, False, [], file_lines cpupower)))))
       (\<lambda>(a2, other_way, v0, ls).
         if \<not> opens then Inr a2
         else bindE (governor_lines ls v0) (\<lambda>v.
           bindE (if v = ''performance'' then Inr a2
                  else apply_bios s (if other_way then ''sudo cpupower frequency-set -g performance''
                    else ''sh -c '' @ [CHR 0x27] @ ''echo performance | tee /sys/devices/system/cpu/cpu*/cpufreq/scaling_governor'' @ [CHR 0x27]) a2)
             (\<lambda>a3. Inr (run_system rm_bios a3)))))"

definition fDoIrqBalance :: "user_settings \<Rightarrow> string \<Rightarrow> bool \<Rightarrow> assessment \<Rightarrow> c_fault + assessment" where
  "fDoIrqBalance s out opens a =
    (let a1 = run_system ''systemctl status irqbalance > /tmp/BIOS.cfgfile 2>/dev/null'' a in
     if out = [] then Inr (run_system rm_bios a1)
     else if \<not> opens then Inr a1
     else bindE (find_word ''Active:'' (file_lines out)) (\<lambda>r.
       bindE (case r of None \<Rightarrow> Inr a1
              | Some (v, _) \<Rightarrow> if v = ''inactive'' then Inr a1 else apply_bios s ''systemctl stop irqbalance'' a1)
         (\<lambda>a2. Inr (run_system rm_bios a2))))"

definition fDoBiosTuning ::
  "user_settings \<Rightarrow> string \<Rightarrow> string \<Rightarrow> string \<Rightarrow> bool \<Rightarrow> assessment \<Rightarrow> c_fault + assessment" where
  "fDoBiosTuning s gov cpupower irq opens a =
    bindE (fDoCpuPerformance s gov cpupower opens a) (fDoIrqBalance s irq opens)"

section \<open>Facts about the host\<close>

definition fDoGetNuma :: "string option \<Rightarrow> c_fault + int" where
  "fDoGetNuma out =
    (case out of None \<Rightarrow> Inr (- 1)
     | Some t \<Rightarrow> (case file_lines t of [] \<Rightarrow> Inr (- 1)
       | l # _ \<Rightarrow> bindE (copy_line ''sValue'' l) (\<lambda>v. Inr (if atoi v = - 1 then 0 else atoi v))))"

definition fDoGetNproc :: "string option \<Rightarrow> int" where
  "fDoGetNproc out =
    (case out of None \<Rightarrow> 0
     | Some t \<Rightarrow> (case file_lines t of [] \<Rightarrow> 0 | l # _ \<Rightarrow> atoi l))"

definition fDoGetNumaNodeString :: "int \<Rightarrow> string option \<Rightarrow> string \<Rightarrow> c_fault + string" where
  "fDoGetNumaNodeString numaNode out numaString =
    (case out of None \<Rightarrow> Inr numaString
     | Some t \<Rightarrow>
       (case find (\<lambda>l. has_substr l (''node '' @ show_int numaNode @ '' cpus'')) (file_lines t) of
          None \<Rightarrow> Inr numaString
        | Some l \<Rightarrow> if 512 \<le> length l then Inl (Buffer_Overflow ''numaString'' (length l + 1)) else Inr l))"

section \<open>The NIC\<close>

abbreviation rm_nic :: string where "rm_nic \<equiv> ''rm -f /tmp/NIC.cfgfile''"

definition fDoMTU :: "user_settings \<Rightarrow> string \<Rightarrow> string option \<Rightarrow> assessment \<Rightarrow> c_fault + assessment" where
  "fDoMTU s dev out a =
    (let a1 = run_system (''cat /sys/class/net/'' @ dev @ ''/mtu  > /tmp/NIC.cfgfile'') a in
     case out of None \<Rightarrow> Inr a1
     | Some t \<Rightarrow>
       bindE (case file_lines t of [] \<Rightarrow> Inr a1
          | l # _ \<Rightarrow> bindE (copy_line ''sValue'' l) (\<lambda>v.
              if atoi v = 0 then Inr a1
              else if atoi v < 9200 then apply_nic s (''sudo ip link set dev '' @ dev @ '' mtu 9200'') a1
              else Inr a1))
         (\<lambda>a2. Inr (run_system rm_nic a2)))"

text \<open>The lines of \<open>ethtool --show-ring\<close>: the first \<open>RX:\<close> and \<open>TX:\<close> are the maxima, later ones the current
  values; \<open>None\<close> is a buffer nothing was stored in.\<close>

record ring_scan =
  sRXMAXValue :: "string option"
  sRXCURRValue :: "string option"
  sTXMAXValue :: "string option"

fun scan_ring :: "string list \<Rightarrow> ring_scan \<Rightarrow> c_fault + (ring_scan \<times> string option)" where
  "scan_ring [] st = Inr (st, None)"
| "scan_ring (l # ls) st =
    (if has_substr l ''RX:''
     then (if sRXMAXValue st = None
           then bindE (copy_class isdigit ''sRXMAXValue'' l) (\<lambda>v. scan_ring ls (st\<lparr>sRXMAXValue := Some v\<rparr>))
           else bindE (copy_class isdigit ''sRXCURRValue'' l) (\<lambda>v. scan_ring ls (st\<lparr>sRXCURRValue := Some v\<rparr>)))
     else if has_substr l ''TX:''
     then (if sTXMAXValue st = None
           then bindE (copy_class isdigit ''sTXMAXValue'' l) (\<lambda>v. scan_ring ls (st\<lparr>sTXMAXValue := Some v\<rparr>))
           else bindE (copy_class isdigit ''sTXCURRValue'' l) (\<lambda>v. Inr (st, Some v)))
     else scan_ring ls st)"

text \<open>The size asked for, from the largest and the current one.\<close>

definition ring_target :: "int \<Rightarrow> int \<Rightarrow> int \<Rightarrow> int option" where
  "ring_target speed cfg_max_val cfg_cur_val =
    (if cfg_cur_val < cfg_max_val
     then (if speed < 100000 then None
           else (let m1 = (if 8192 < cfg_max_val \<and> cfg_cur_val < 8192 then 8192 else cfg_max_val);
                     m2 = (if 8192 < m1 \<and> 8192 < cfg_cur_val then cfg_cur_val else m1)
                 in Some m2))
     else None)"

definition tune_ring ::
  "int \<Rightarrow> user_settings \<Rightarrow> string \<Rightarrow> string \<Rightarrow> string \<Rightarrow> string \<Rightarrow> assessment \<Rightarrow> c_fault + assessment" where
  "tune_ring speed s dev dir mx cur a =
    (case ring_target speed (atoi mx) (atoi cur) of None \<Rightarrow> Inr a
     | Some n \<Rightarrow> apply_nic s (''ethtool -G '' @ dev @ dir @ show_int n) a)"

definition fDoRingBufferSize ::
  "int \<Rightarrow> user_settings \<Rightarrow> string \<Rightarrow> string \<Rightarrow> bool \<Rightarrow> assessment \<Rightarrow> c_fault + assessment" where
  "fDoRingBufferSize speed s dev out opens a =
    (let a1 = run_system (''ethtool --show-ring '' @ dev @ '' > /tmp/NIC.cfgfile 2>/dev/null'') a in
     if out = [] then Inr (run_system rm_nic a1)
     else if \<not> opens then Inr a1
     else bindE (scan_ring (file_lines out) \<lparr>sRXMAXValue = None, sRXCURRValue = None, sTXMAXValue = None\<rparr>)
       (\<lambda>(st, txcur).
         bindE (case txcur of None \<Rightarrow> Inr a1
           | Some tc \<Rightarrow> (case (sRXMAXValue st, sRXCURRValue st, sTXMAXValue st) of
               (Some rm, Some rc, Some tm) \<Rightarrow>
                 bindE (tune_ring speed s dev '' rx '' rm rc a1) (tune_ring speed s dev '' tx '' tm tc)
             | _ \<Rightarrow> Inl (Uninitialised ''sRXMAXValue'')))
         (\<lambda>a2. Inr (run_system rm_nic a2))))"

text \<open>The channels of \<open>ethtool -l\<close>; the buffers are cleared at the start.\<close>

record channel_scan =
  rxcount :: nat
  txcount :: nat
  combinedcount :: nat
  chRXMAX :: string
  chRXCURR :: string
  chTXMAX :: string
  chTXCURR :: string
  chCOMBINEDMAX :: string

record nic_channels =
  cfg_rx_max :: int
  cfg_rx_curr :: int
  cfg_tx_max :: int
  cfg_tx_curr :: int
  cfg_combined_max :: int
  cfg_combined_curr :: int
  only_combined :: bool

definition set_channels :: "channel_scan \<Rightarrow> string \<Rightarrow> nic_channels \<Rightarrow> nic_channels" where
  "set_channels st cur ch =
    (let ch1 = ch\<lparr>cfg_combined_max := atoi (chCOMBINEDMAX st), cfg_combined_curr := atoi cur\<rparr> in
     if chTXCURR st = [] then ch1\<lparr>only_combined := True\<rparr>
     else ch1\<lparr>cfg_rx_max := atoi (chRXMAX st), cfg_rx_curr := atoi (chRXCURR st),
              cfg_tx_max := atoi (chTXMAX st), cfg_tx_curr := atoi (chTXCURR st)\<rparr>)"

fun scan_channels :: "string list \<Rightarrow> channel_scan \<Rightarrow> nic_channels \<Rightarrow> c_fault + nic_channels" where
  "scan_channels [] st ch = Inr ch"
| "scan_channels (l # ls) st ch =
    (let na = has_substr l ''n/a'' in
     if has_substr l ''RX:''
     then (if na then scan_channels ls st ch
           else if rxcount st = 0
           then bindE (copy_class isdigit ''sRXMAXValue'' l)
                  (\<lambda>v. scan_channels ls (st\<lparr>rxcount := 1, chRXMAX := v\<rparr>) ch)
           else bindE (copy_class isdigit ''sRXCURRValue'' l)
                  (\<lambda>v. scan_channels ls (st\<lparr>rxcount := rxcount st + 1, chRXCURR := v\<rparr>) ch))
     else if has_substr l ''TX:''
     then (if na then scan_channels ls st ch
           else if txcount st = 0
           then bindE (copy_class isdigit ''sTXMAXValue'' l)
                  (\<lambda>v. scan_channels ls (st\<lparr>txcount := 1, chTXMAX := v\<rparr>) ch)
           else bindE (copy_class isdigit ''sTXCURRValue'' l)
                  (\<lambda>v. scan_channels ls (st\<lparr>txcount := txcount st + 1, chTXCURR := v\<rparr>) ch))
     else if has_substr l ''Combined:''
     then (if na then scan_channels ls st ch
           else if combinedcount st = 0
           then bindE (copy_class isdigit ''sCOMBINEDMAXValue'' l)
                  (\<lambda>v. scan_channels ls (st\<lparr>combinedcount := 1, chCOMBINEDMAX := v\<rparr>) ch)
           else bindE (copy_class isdigit ''sCOMBINEDCURRValue'' l) (\<lambda>v. Inr (set_channels st v ch)))
     else scan_channels ls st ch)"

definition fDoShowChannels ::
  "string \<Rightarrow> string \<Rightarrow> bool \<Rightarrow> assessment \<times> nic_channels \<Rightarrow> c_fault + (assessment \<times> nic_channels)" where
  "fDoShowChannels dev out opens st =
    (let (a, ch) = st; a1 = run_system (''ethtool -l '' @ dev @ '' > /tmp/NIC.cfgfile 2>/dev/null'') a in
     if out = [] then Inr (run_system rm_nic a1, ch)
     else if \<not> opens then Inr (a1, ch)
     else bindE (scan_channels (file_lines out) \<lparr>rxcount = 0, txcount = 0, combinedcount = 0, chRXMAX = [],
         chRXCURR = [], chTXMAX = [], chTXCURR = [], chCOMBINEDMAX = []\<rparr> ch)
       (\<lambda>ch1. Inr (run_system rm_nic a1, ch1)))"

definition fDoNicTuning ::
  "int \<Rightarrow> user_settings \<Rightarrow> string \<Rightarrow> string \<Rightarrow> string option \<Rightarrow> string \<Rightarrow> bool
   \<Rightarrow> assessment \<times> nic_channels \<Rightarrow> c_fault + (assessment \<times> nic_channels)" where
  "fDoNicTuning speed s dev ring mtu chans opens st =
    bindE (fDoRingBufferSize speed s dev ring opens (fst st)) (\<lambda>a1.
      bindE (fDoMTU s dev mtu a1) (\<lambda>a2. fDoShowChannels dev chans opens (a2, snd st)))"

section \<open>Checks of the NIC that are switched off\<close>

definition fDoTxQueueLen ::
  "int \<Rightarrow> user_settings \<Rightarrow> string \<Rightarrow> string option \<Rightarrow> assessment \<Rightarrow> c_fault + assessment" where
  "fDoTxQueueLen speed s dev out a =
    (let a1 = run_system (''cat /sys/class/net/'' @ dev @ ''/tx_queue_len > /tmp/NIC.cfgfile'') a;
         recommended = (if speed \<le> 10000 then 1000 else 20000)
     in case out of None \<Rightarrow> Inr a1
        | Some t \<Rightarrow>
          bindE (case file_lines t of [] \<Rightarrow> Inr a1
             | l # _ \<Rightarrow> bindE (copy_line ''sValue'' l) (\<lambda>v.
                 if atoi v \<noteq> 0 \<and> atoi v < recommended
                 then apply_nic s (''ifconfig '' @ dev @ '' txqueuelen '' @ show_int recommended) a1
                 else Inr a1))
            (\<lambda>a2. Inr (run_system rm_nic a2)))"

text \<open>\<open>feature\<close>: the line of \<open>ethtool --show-features\<close>, \<open>fixed\<close>: the same when it is fixed; without the
  feature the file that was never opened is closed.\<close>

definition fDoLRO ::
  "user_settings \<Rightarrow> string \<Rightarrow> string \<Rightarrow> string \<Rightarrow> bool \<Rightarrow> assessment \<Rightarrow> c_fault + assessment" where
  "fDoLRO s dev feature fixed opens a =
    (let show_cmd = ''ethtool --show-features '' @ dev @ '' | grep large-receive-offload'';
         a1 = run_system (show_cmd @ '' > /tmp/NIC.cfgfile'') a
     in if feature = [] then Inl (Null_Pointer ''nicCfgFPtr'')
        else
          let a2 = run_system (show_cmd @ '' | grep fixed > /tmp/NIC.cfgfile'') a1;
              a3 = (if fixed = [] then run_system (show_cmd @ '' > /tmp/NIC.cfgfile'') a2 else a2)
          in if \<not> opens then Inr a3
             else bindE (case file_lines (if fixed = [] then feature else fixed) of [] \<Rightarrow> Inr a3
                | l # _ \<Rightarrow>
                  if length l < 21 then Inl (Unterminated ''line'')
                  else bindE (copy_line ''sLROValue'' (drop 21 l)) (\<lambda>_.
                    bindE (copy_class isalpha ''sLROValue'' (drop 21 l)) (\<lambda>v.
                      if v \<noteq> ''on'' \<and> fixed = [] then apply_nic s (''ethtool -K '' @ dev @ '' lro on'') a3
                      else Inr a3)))
               (\<lambda>a4. Inr (run_system rm_nic a4)))"

definition isgraph :: "char \<Rightarrow> bool" where
  "isgraph c \<longleftrightarrow> 33 \<le> char_code c \<and> char_code c \<le> 126"

fun find_qdisc :: "string list \<Rightarrow> c_fault + string option" where
  "find_qdisc [] = Inr None"
| "find_qdisc (l # ls) =
    (if 512 \<le> length l then Inl (Buffer_Overflow ''sValue'' (length l + 1))
     else (case strstr (chomp l) ''qdisc'' of None \<Rightarrow> find_qdisc ls
       | Some y \<Rightarrow> Inr (Some (takeWhile isgraph (dropWhile isblank (drop 5 y))))))"

definition fDoTcQdiscFq ::
  "user_settings \<Rightarrow> string \<Rightarrow> string \<Rightarrow> string \<Rightarrow> bool \<Rightarrow> assessment \<Rightarrow> c_fault + assessment" where
  "fDoTcQdiscFq s dev root_out out opens a =
    (let a1 = run_system (''tc qdisc show dev '' @ dev @ '' root > /tmp/NIC.cfgfile 2>/dev/null'') a;
         a2 = (if root_out = [] then run_system (''tc qdisc show dev '' @ dev @ ''  > /tmp/NIC.cfgfile'') a1 else a1)
     in if \<not> opens then Inr a2
        else bindE (find_qdisc (file_lines (if root_out = [] then out else root_out))) (\<lambda>r.
          bindE (case r of None \<Rightarrow> Inr a2
             | Some v \<Rightarrow>
               if v = ''fq'' then Inr a2
               else apply_nic s (''tc qdisc del dev '' @ dev @ '' root '' @ v @ '' 2>/dev/null; tc qdisc add dev ''
                      @ dev @ '' root fq'') a2)
            (\<lambda>a3. Inr (run_system rm_nic a3))))"

text \<open>The last \<open>RX:\<close> and \<open>TX:\<close> of \<open>ethtool -a\<close>.\<close>

fun scan_flow :: "string list \<Rightarrow> string option \<times> string option \<Rightarrow> c_fault + (string option \<times> string option)" where
  "scan_flow [] st = Inr st"
| "scan_flow (l # ls) st =
    (case strstr l ''RX:'' of
       Some y \<Rightarrow> bindE (copy_class isalpha ''sRXCURRValue'' (drop 3 y)) (\<lambda>v. scan_flow ls (Some v, snd st))
     | None \<Rightarrow> (case strstr l ''TX:'' of
         Some y \<Rightarrow> bindE (copy_class isalpha ''sTXCURRValue'' (drop 3 y)) (\<lambda>v. scan_flow ls (fst st, Some v))
       | None \<Rightarrow> scan_flow ls st))"

definition tune_flow :: "user_settings \<Rightarrow> string \<Rightarrow> string \<Rightarrow> string option \<Rightarrow> assessment \<Rightarrow> c_fault + assessment" where
  "tune_flow s dev dir v a =
    (case v of None \<Rightarrow> Inl (Uninitialised (''flow control'' @ dir))
     | Some w \<Rightarrow> if w = ''on'' then Inr a else apply_nic s (''ethtool -A '' @ dev @ dir @ ''on'') a)"

definition fDoFlowControl ::
  "user_settings \<Rightarrow> string \<Rightarrow> string \<Rightarrow> bool \<Rightarrow> assessment \<Rightarrow> c_fault + assessment" where
  "fDoFlowControl s dev out opens a =
    (let a1 = run_system (''ethtool -a '' @ dev @ '' > /tmp/NIC.cfgfile 2>/dev/null'') a in
     if out = [] then Inr (run_system rm_nic a1)
     else if \<not> opens then Inr a1
     else bindE (scan_flow (file_lines out) (None, None)) (\<lambda>(rx, tx).
       bindE (tune_flow s dev '' rx '' rx a1) (\<lambda>a2.
         bindE (tune_flow s dev '' tx '' tx a2) (\<lambda>a3. Inr (run_system rm_nic a3)))))"

definition fDoIrqAffinity :: "user_settings \<Rightarrow> string \<Rightarrow> assessment \<Rightarrow> c_fault + assessment" where
  "fDoIrqAffinity s dev a = apply_nic s (''./set_irq_affinity.sh '' @ dev) a"

section \<open>The whole assessment\<close>

text \<open>What the commands leave in their files.\<close>

record host_files =
  hf_nproc :: "string option"
  hf_numa :: "string option"
  hf_numactl :: "string option"
  hf_settings :: "string option"
  hf_modprobe :: "string option"
  hf_governor :: string
  hf_cpupower :: string
  hf_irqbalance :: string
  hf_ring :: string
  hf_mtu :: "string option"
  hf_channels :: string
  hf_opens :: bool
  hf_writable :: "string \<Rightarrow> bool"   \<comment> \<open>whether a file for the menu can be opened for writing\<close>

record host_facts =
  nProc :: int
  numaNode :: int
  numaNodeString :: string
  hf_assessment :: assessment
  hf_nic :: nic_channels
  menu_files :: "string \<Rightarrow> string option"

definition menu_text :: "string list \<Rightarrow> string" where
  "menu_text cs = show_nat (length cs + 2) @ newline # unlines cs"

text \<open>A file for the menu is written, or removed when nothing was saved; one that cannot be opened ends the
  writing.\<close>

definition write_menu ::
  "(string \<Rightarrow> bool) \<Rightarrow> string \<Rightarrow> string list \<Rightarrow> bool \<times> (string \<Rightarrow> string option) \<Rightarrow> bool \<times> (string \<Rightarrow> string option)" where
  "write_menu writable f cs st =
    (let (go_on, files) = st in
     if \<not> go_on then st
     else if cs = [] then (True, files(f := None))
     else if writable f then (True, files(f := Some (menu_text cs)))
     else (False, files))"

definition write_menus ::
  "(string \<Rightarrow> bool) \<Rightarrow> assessment \<Rightarrow> (string \<Rightarrow> string option) \<Rightarrow> string \<Rightarrow> string option" where
  "write_menus writable a files =
    snd (write_menu writable ''/tmp/applyBiosDefFile'' (aApplyBiosDefTun a)
      (write_menu writable ''/tmp/applyNicDefFile'' (aApplyNicDefTun a)
        (write_menu writable ''/tmp/applyKernelDefFile'' (aApplyKernelDefTun a) (True, files))))"

text \<open>\<open>None\<close>: the program exits.\<close>

definition user_assess ::
  "int \<Rightarrow> string \<Rightarrow> user_settings \<Rightarrow> host_files \<Rightarrow> host_facts \<Rightarrow> c_fault + host_facts option" where
  "user_assess speed dev s hf h =
    bindE (fDoGetNuma (hf_numa hf)) (\<lambda>numa.
    bindE (fDoGetNumaNodeString numa (hf_numactl hf) []) (\<lambda>numastr.
    bindE (fDoSystemTuning speed s (hf_settings hf) (hf_modprobe hf) (hf_assessment h)) (\<lambda>r.
      case r of None \<Rightarrow> Inr None
      | Some a1 \<Rightarrow>
        bindE (fDoBiosTuning s (hf_governor hf) (hf_cpupower hf) (hf_irqbalance hf) (hf_opens hf) a1) (\<lambda>a2.
        bindE (fDoNicTuning speed s dev (hf_ring hf) (hf_mtu hf) (hf_channels hf) (hf_opens hf) (a2, hf_nic h))
          (\<lambda>(a3, ch). Inr (Some (h\<lparr>nProc := fDoGetNproc (hf_nproc hf), numaNode := numa,
             numaNodeString := numastr, hf_assessment := a3, hf_nic := ch,
             menu_files := write_menus (hf_writable hf) a3 (menu_files h)\<rparr>)))))))"

text \<open>The commands the menu runs from such a file: line \<open>count\<close> for \<open>count\<close> from 2 to below the number on
  the first line; a line that is not there is empty.\<close>

definition menu_commands :: "string \<Rightarrow> string list" where
  "menu_commands t =
    (case file_lines t of [] \<Rightarrow> []
     | l # ls \<Rightarrow> map (\<lambda>i. if i < length ls then chomp (ls ! i) else []) [0..<nat (atoi l) - 2])"

section \<open>Lemmas: reports\<close>

lemma has_substr_set: "has_substr h n \<Longrightarrow> set n \<subseteq> set h"
proof -
  assume "has_substr h n"
  then obtain s where "strstr h n = Some s" by (auto simp: has_substr_def)
  from strstr_Some_starts [OF this] show ?thesis by (auto simp: starts_with_iff)
qed

text \<open>A line of \<open>ethtool\<close> with a number.\<close>

definition number_line :: "string \<Rightarrow> string \<Rightarrow> nat \<Rightarrow> string" where
  "number_line key ws n = key @ ws @ show_nat n"

lemma copy_number_line:
  assumes "\<forall>c \<in> set key. \<not> isdigit c" "\<forall>c \<in> set ws. isblank c" "n < 2 ^ 31"
  shows "copy_class isdigit buf (number_line key ws n @ [newline]) = Inr (show_nat n)"
proof -
  have b: "\<not> isdigit c" if "isblank c" for c using that by (auto simp: isblank_def isdigit_def)
  obtain d ds where d: "show_nat n = d # ds" "isdigit d"
    using hd_show_nat [of n] by (cases "show_nat n") auto
  then have "dropWhile (\<lambda>c. \<not> isdigit c) (number_line key ws n @ [newline]) = show_nat n @ [newline]"
    using assms(1,2) b by (simp add: number_line_def)
  moreover have "\<not> isdigit newline" by (simp add: isdigit_def char_code_def)
  moreover have "length (show_nat n) \<le> 10" using assms(3) length_show_nat_le [of n 9] by simp
  moreover have "\<forall>c \<in> set ds. isdigit c" using show_nat_digits [of n] d(1) by simp
  ultimately show ?thesis using d by (simp add: copy_class_def Let_def takeWhile_append)
qed

definition quiet :: "string list \<Rightarrow> bool" where
  "quiet ls \<longleftrightarrow> (\<forall>l \<in> set ls. newline \<notin> set l
     \<and> \<not> has_substr (l @ [newline]) ''RX:'' \<and> \<not> has_substr (l @ [newline]) ''TX:'')"

lemma scan_ring_quiet: "quiet ls \<Longrightarrow> scan_ring (map (\<lambda>l. l @ [newline]) ls @ r) st = scan_ring r st"
  by (induction ls) (auto simp: quiet_def)

lemma blank_line_class:
  assumes "\<forall>c \<in> set ws. isblank c"
  shows "has_substr (number_line ''RX:'' ws n @ [newline]) ''RX:''"
    "has_substr (number_line ''TX:'' ws n @ [newline]) ''TX:''"
    "\<not> has_substr (number_line ''TX:'' ws n @ [newline]) ''RX:''"
    "newline \<notin> set (number_line ''RX:'' ws n)" "newline \<notin> set (number_line ''TX:'' ws n)"
proof -
  have r: "CHR ''R'' \<notin> set (number_line ''TX:'' ws n @ [newline])"
    using assms show_nat_digits [of n]
    by (auto simp: number_line_def isblank_def isdigit_def char_code_def)
  show "has_substr (number_line ''RX:'' ws n @ [newline]) ''RX:''"
    using has_substr_prefix [of "''RX:''" "ws @ show_nat n @ [newline]"] by (simp add: number_line_def)
  show "has_substr (number_line ''TX:'' ws n @ [newline]) ''TX:''"
    using has_substr_prefix [of "''TX:''" "ws @ show_nat n @ [newline]"] by (simp add: number_line_def)
  show "\<not> has_substr (number_line ''TX:'' ws n @ [newline]) ''RX:''"
    using has_substr_set r by fastforce
  show "newline \<notin> set (number_line ''RX:'' ws n)" "newline \<notin> set (number_line ''TX:'' ws n)"
    using assms blank_no_newline by (auto simp: number_line_def)
qed

text \<open>A report of \<open>ethtool --show-ring\<close>: maxima, then current values, among other lines.\<close>

definition ring_report :: "string list \<Rightarrow> string list \<Rightarrow> string list \<Rightarrow> string list \<Rightarrow> string list \<Rightarrow> string
    \<Rightarrow> nat \<Rightarrow> nat \<Rightarrow> nat \<Rightarrow> nat \<Rightarrow> string list" where
  "ring_report p0 p1 p2 p3 p4 ws rm tm rc tc =
     p0 @ [number_line ''RX:'' ws rm] @ p1 @ [number_line ''TX:'' ws tm] @ p2
     @ [number_line ''RX:'' ws rc] @ p3 @ [number_line ''TX:'' ws tc] @ p4"

lemma scan_ring_report:
  assumes "quiet p0" "quiet p1" "quiet p2" "quiet p3" "\<forall>c \<in> set ws. isblank c"
    and "rm < 2 ^ 31" "tm < 2 ^ 31" "rc < 2 ^ 31" "tc < 2 ^ 31"
  shows "scan_ring (map (\<lambda>l. l @ [newline]) (ring_report p0 p1 p2 p3 p4 ws rm tm rc tc))
      \<lparr>sRXMAXValue = None, sRXCURRValue = None, sTXMAXValue = None\<rparr> =
    Inr (\<lparr>sRXMAXValue = Some (show_nat rm), sRXCURRValue = Some (show_nat rc), sTXMAXValue = Some (show_nat tm)\<rparr>,
      Some (show_nat tc))"
proof -
  have k: "\<forall>c \<in> set ''RX:''. \<not> isdigit c" "\<forall>c \<in> set ''TX:''. \<not> isdigit c"
    by (simp_all add: isdigit_def char_code_def)
  show ?thesis
    unfolding ring_report_def
    using assms copy_number_line [OF k(1) assms(5)] copy_number_line [OF k(2) assms(5)]
    by (simp add: scan_ring_quiet blank_line_class)
qed

section \<open>Lemmas: what is saved can be read back\<close>

definition saved_ok :: "assessment \<Rightarrow> bool" where
  "saved_ok a \<longleftrightarrow> (\<forall>cs \<in> {aApplyKernelDefTun a, aApplyNicDefTun a, aApplyBiosDefTun a}.
     length cs \<le> NUM_SYSTEM_SETTINGS \<and> (\<forall>c \<in> set cs. newline \<notin> set c))"

lemma saved_ok_simps [simp]:
  "saved_ok (run_system c a) = saved_ok a" "saved_ok (note_tune_max e n a) = saved_ok a"
  "saved_ok (a\<lparr>vModifySysctlFile := b\<rparr>) = saved_ok a"
  by (simp_all add: saved_ok_def run_system_def note_tune_max_def)

text \<open>A result without a fault satisfies \<open>P\<close>.\<close>

definition whenE :: "('a \<Rightarrow> bool) \<Rightarrow> c_fault + 'a \<Rightarrow> bool" where
  "whenE P r = (case r of Inl _ \<Rightarrow> True | Inr x \<Rightarrow> P x)"

lemma whenE_simps [simp]: "whenE P (Inl e)" "whenE P (Inr x) = P x"
  by (simp_all add: whenE_def)

lemma whenE_bind: "whenE Q r \<Longrightarrow> (\<And>x. Q x \<Longrightarrow> whenE P (k x)) \<Longrightarrow> whenE P (bindE r k)"
  by (cases r) auto

lemma whenE_bind_any: "(\<And>x. whenE P (k x)) \<Longrightarrow> whenE P (bindE r k)"
  by (cases r) auto

text \<open>Whatever is read from a report.\<close>

lemma whenE_read:
  "(\<And>x. whenE P (k x)) \<Longrightarrow> whenE P (bindE (r :: c_fault + string) k)"
  "(\<And>x. whenE P (k1 x)) \<Longrightarrow> whenE P (bindE (r1 :: c_fault + (string \<times> string list) option) k1)"
  "(\<And>x. whenE P (k2 x)) \<Longrightarrow> whenE P (bindE (r2 :: c_fault + (ring_scan \<times> string option)) k2)"
  "(\<And>x. whenE P (k3 x)) \<Longrightarrow> whenE P (bindE (r3 :: c_fault + nic_channels) k3)"
  by (rule whenE_bind_any, simp)+

lemma apply_bios_ok: "saved_ok a \<Longrightarrow> newline \<notin> set c \<Longrightarrow> whenE saved_ok (apply_bios s c a)"
  by (auto simp: apply_bios_def) (auto simp: saved_ok_def)

lemma apply_nic_ok: "saved_ok a \<Longrightarrow> newline \<notin> set c \<Longrightarrow> whenE saved_ok (apply_nic s c a)"
  by (auto simp: apply_nic_def) (auto simp: saved_ok_def)

lemma tune_setting_ok:
  assumes "saved_ok a" "newline \<notin> set n" "newline \<notin> set w" "tune_setting s n w a = Inr b"
  shows "saved_ok b"
proof (cases "gApplyDefSysTuning s = CHR ''y''")
  case True
  with assms show ?thesis by (auto simp: tune_setting_def Let_def split: if_splits)
next
  case False
  with assms show ?thesis
    by (auto simp: tune_setting_def save_kernel_def sysctl_cmd_def split: if_splits) (auto simp: saved_ok_def)
qed

lemma show_int_no_newline [simp]: "newline \<notin> set (show_int i)"
  by (simp add: show_int_def)

lemma aStringval_no_newline: "i < length aStringval \<Longrightarrow> newline \<notin> set (aStringval ! i)"
proof -
  have "\<forall>v \<in> set aStringval. newline \<notin> set v" by (simp add: aStringval_def)
  then show "i < length aStringval \<Longrightarrow> newline \<notin> set (aStringval ! i)" by simp
qed

lemma assess_line_ok:
  assumes "saved_ok a" "\<forall>e \<in> set tab. newline \<notin> set (rec_setting e)"
    "assess_line s mp tab l (av, a) = Inr (av1, a1)"
  shows "saved_ok a1"
proof -
  have number: "saved_ok a1" if "newline \<notin> set n" "assess_number s e n v a = Inr a1" for e n v a1
    using that assms(1)
    by (cases "parse_triple v")
      (auto simp: assess_number_def Let_def rec_triple_def split: if_splits prod.splits elim!: tune_setting_ok [rotated 3])
  have string: "saved_ok a1" if "newline \<notin> set n" "assess_string s mp e n v (av, a) = Inr (av1, a1)" for e n v av1 a1
    using that assms(1) aStringval_no_newline
    by (auto simp: assess_string_def Let_def bindE_Inr_iff not_le split: if_splits option.splits
        elim!: tune_setting_ok [rotated 3])
  have name: "newline \<notin> set n" if "find (\<lambda>e. rec_setting e = n) tab = Some e" for n e
    using that assms(2) by (auto simp: find_Some_iff)
  show ?thesis
    using assms(1,3) number string name
    by (fastforce simp: assess_line_def bindE_Inr_iff split: option.splits if_splits prod.splits)
qed

lemma assess_lines_ok:
  "saved_ok a \<Longrightarrow> \<forall>e \<in> set tab. newline \<notin> set (rec_setting e) \<Longrightarrow>
     assess_lines s mp tab ls (av, a) = Inr (av1, a1) \<Longrightarrow> saved_ok a1"
proof (induction ls arbitrary: av a)
  case (Cons l ls)
  then obtain av2 a2 where "assess_line s mp tab l (av, a) = Inr (av2, a2)"
    "assess_lines s mp tab ls (av2, a2) = Inr (av1, a1)"
    by (auto simp: bindE_Inr_iff)
  with Cons assess_line_ok show ?case by blast
qed simp

lemma table_names_no_newline: "\<forall>e \<in> set (fst (tuning_table speed)). newline \<notin> set (rec_setting e)"
  by (simp add: tuning_table_def aTuningNumsToUse10GandUnder_def
      aTuningNumsToUse_Over10GtoUnder100G_def aTuningNumsToUse100Gb_def entry_def)

lemma system_tuning_ok:
  assumes "saved_ok a" "fDoSystemTuning speed s f mp a = Inr (Some a1)"
  shows "saved_ok a1"
proof -
  obtain tab script where t: "tuning_table speed = (tab, script)" by (cases "tuning_table speed")
  have n: "\<forall>e \<in> set tab. newline \<notin> set (rec_setting e)" using table_names_no_newline [of speed] t by simp
  obtain c av a2 where "assess_lines s mp tab c (False, run_system script a) = Inr (av, a2)"
    "a1 = (let a3 = run_system ''rm -f /tmp/current_config.orig'' a2 in
      if vModifySysctlFile a3 then (run_system end_mark a3)\<lparr>vModifySysctlFile := False\<rparr> else a3)"
    using assms(2) by (auto simp: fDoSystemTuning_def t bindE_Inr_iff Let_def split: option.splits)
  with assess_lines_ok [OF _ n this(1)] assms(1) show ?thesis by (simp add: Let_def)
qed

lemma cpu_performance_ok: "saved_ok a \<Longrightarrow> whenE saved_ok (fDoCpuPerformance s gov cpupower opens a)"
  unfolding fDoCpuPerformance_def Let_def
  by (rule whenE_bind [where Q = "\<lambda>(a2, _). saved_ok a2"])
    (auto intro!: whenE_read whenE_bind [where Q = saved_ok] apply_bios_ok split: option.split)

lemma irq_balance_ok: "saved_ok a \<Longrightarrow> whenE saved_ok (fDoIrqBalance s irq opens a)"
  unfolding fDoIrqBalance_def Let_def
  by (auto intro!: whenE_read whenE_bind [where Q = saved_ok and P = saved_ok] apply_bios_ok split: option.split)

lemma bios_tuning_ok: "saved_ok a \<Longrightarrow> whenE saved_ok (fDoBiosTuning s gov cpupower irq opens a)"
  unfolding fDoBiosTuning_def by (rule whenE_bind [OF cpu_performance_ok irq_balance_ok])

lemma tune_ring_ok:
  "saved_ok a \<Longrightarrow> newline \<notin> set dev \<Longrightarrow> newline \<notin> set dir \<Longrightarrow> whenE saved_ok (tune_ring speed s dev dir mx cur a)"
  by (auto simp: tune_ring_def intro!: apply_nic_ok split: option.split)

lemma ring_ok:
  "saved_ok a \<Longrightarrow> newline \<notin> set dev \<Longrightarrow> whenE saved_ok (fDoRingBufferSize speed s dev ring opens a)"
  unfolding fDoRingBufferSize_def Let_def
  by (auto intro!: whenE_read whenE_bind [where Q = saved_ok and P = saved_ok] tune_ring_ok split: option.split)

lemma mtu_ok: "saved_ok a \<Longrightarrow> newline \<notin> set dev \<Longrightarrow> whenE saved_ok (fDoMTU s dev mtu a)"
  unfolding fDoMTU_def Let_def
  by (auto intro!: whenE_bind [where Q = saved_ok and P = saved_ok] whenE_read apply_nic_ok
      split: option.split list.split)

lemma channels_ok:
  "saved_ok (fst st) \<Longrightarrow> whenE (\<lambda>st. saved_ok (fst st)) (fDoShowChannels dev chans opens st)"
  unfolding fDoShowChannels_def Let_def by (cases st) (auto intro!: whenE_read)

lemma nic_tuning_ok:
  assumes "saved_ok (fst st)" "newline \<notin> set dev"
  shows "whenE (\<lambda>st. saved_ok (fst st)) (fDoNicTuning speed s dev ring mtu chans opens st)"
  unfolding fDoNicTuning_def using assms
  by (auto intro!: whenE_bind [where Q = saved_ok] ring_ok mtu_ok channels_ok)

lemma user_assess_ok:
  assumes "user_assess speed dev s hf h = Inr (Some h1)" "saved_ok (hf_assessment h)" "newline \<notin> set dev"
  shows "saved_ok (hf_assessment h1)
    \<and> menu_files h1 = write_menus (hf_writable hf) (hf_assessment h1) (menu_files h)"
proof -
  obtain numa numastr a1 a2 a3 ch where r:
    "fDoSystemTuning speed s (hf_settings hf) (hf_modprobe hf) (hf_assessment h) = Inr (Some a1)"
    "fDoBiosTuning s (hf_governor hf) (hf_cpupower hf) (hf_irqbalance hf) (hf_opens hf) a1 = Inr a2"
    "fDoNicTuning speed s dev (hf_ring hf) (hf_mtu hf) (hf_channels hf) (hf_opens hf) (a2, hf_nic h) = Inr (a3, ch)"
    and h1: "h1 = h\<lparr>nProc := fDoGetNproc (hf_nproc hf), numaNode := numa,
             numaNodeString := numastr, hf_assessment := a3, hf_nic := ch,
             menu_files := write_menus (hf_writable hf) a3 (menu_files h)\<rparr>"
    using assms(1) by (auto simp: user_assess_def bindE_Inr_iff split: option.splits)
  have "saved_ok a2" using bios_tuning_ok [OF system_tuning_ok [OF assms(2) r(1)]] r(2) by (metis whenE_simps(2))
  with nic_tuning_ok [of "(a2, hf_nic h)"] assms(3) r(3) have "saved_ok a3" by (metis fst_conv whenE_simps(2))
  then show ?thesis by (simp add: h1)
qed

lemma menu_commands_text:
  assumes "\<forall>c \<in> set cs. newline \<notin> set c" "length cs \<le> NUM_SYSTEM_SETTINGS"
  shows "menu_commands (menu_text cs) = cs"
proof -
  let ?n = "show_nat (length cs + 2)"
  have "file_lines (menu_text cs) = map (\<lambda>l. l @ [newline]) (?n # cs)"
    using file_lines_unlines [of "?n # cs"] assms(1) by (simp add: menu_text_def)
  moreover have "atoi (?n @ [newline]) = int (length cs + 2)"
  proof -
    have "\<not> isdigit newline" by (simp add: isdigit_def char_code_def)
    then have "atoi (?n @ [newline]) = atoi ?n" by (intro atoi_prefix) (simp_all add: show_nat_digits)
    then show ?thesis using assms(2) by (simp add: NUM_SYSTEM_SETTINGS_def)
  qed
  moreover have "nat (int (length cs + 2)) - 2 = length cs" by simp
  ultimately have "menu_commands (menu_text cs) = map (\<lambda>i. cs ! i) [0..<length cs]"
    by (auto simp: menu_commands_def chomp_def simp del: of_nat_add)
  then show ?thesis by (simp add: map_nth)
qed

section \<open>Properties\<close>

text \<open>C29: The menu runs what was saved.  When the assessment of a host ends without a fault and its files
  can be written, each of the three files for the menu is there exactly when commands of its kind
  were saved, and the menu reads back exactly those commands.\<close>

theorem menu_runs_saved:
  assumes "user_assess speed dev s hf h = Inr (Some h1)" "saved_ok (hf_assessment h)" "newline \<notin> set dev"
    and "\<And>f. hf_writable hf f"
  shows "\<forall>(f, cs) \<in> {(''/tmp/applyKernelDefFile'', aApplyKernelDefTun (hf_assessment h1)),
      (''/tmp/applyNicDefFile'', aApplyNicDefTun (hf_assessment h1)),
      (''/tmp/applyBiosDefFile'', aApplyBiosDefTun (hf_assessment h1))}.
    case menu_files h1 f of None \<Rightarrow> cs = [] | Some t \<Rightarrow> cs \<noteq> [] \<and> menu_commands t = cs"
proof -
  have ok: "saved_ok (hf_assessment h1)"
    and w: "menu_files h1 = write_menus (hf_writable hf) (hf_assessment h1) (menu_files h)"
    using user_assess_ok [OF assms(1-3)] by auto
  have m: "menu_commands (menu_text cs) = cs"
    if "cs \<in> {aApplyKernelDefTun (hf_assessment h1), aApplyNicDefTun (hf_assessment h1),
      aApplyBiosDefTun (hf_assessment h1)}" for cs
    using that ok by (intro menu_commands_text) (auto simp: saved_ok_def)
  show ?thesis
    unfolding w using m assms(4) by (auto simp: write_menus_def write_menu_def split: if_splits)
qed

definition example_files :: host_files where
  "example_files = \<lparr>hf_nproc = None, hf_numa = None, hf_numactl = None,
     hf_settings = Some (listing short_host), hf_modprobe = None, hf_governor = ''performance'',
     hf_cpupower = [], hf_irqbalance = [], hf_ring = [], hf_mtu = None, hf_channels = [], hf_opens = True,
     hf_writable = (\<lambda>_. True)\<rparr>"

definition example_host :: host_facts where
  "example_host = \<lparr>nProc = 0, numaNode = 0, numaNodeString = [], hf_assessment = initial_assessment,
     hf_nic = \<lparr>cfg_rx_max = 0, cfg_rx_curr = 0, cfg_tx_max = 0, cfg_tx_curr = 0, cfg_combined_max = 0,
       cfg_combined_curr = 0, only_combined = False\<rparr>, menu_files = (\<lambda>_. None)\<rparr>"

lemma example_assess:
  "\<exists>h1. user_assess 40000 ''eth0'' initial_settings example_files example_host = Inr (Some h1)
     \<and> aApplyKernelDefTun (hf_assessment h1) = [sysctl_cmd ''net.core.rmem_max'' (show_nat 1147483647)]"
proof -
  have g: "file_lines ''performance'' = [''performance'']"
    by (simp add: file_lines_def read_lines.simps fgets_def)
  show ?thesis
    by (simp add: user_assess_def example_files_def example_host_def fDoGetNuma_def fDoGetNumaNodeString_def
        short_host_saves fDoBiosTuning_def fDoCpuPerformance_def fDoIrqBalance_def run_system_def
        copy_line_def chomp_def fDoNicTuning_def fDoRingBufferSize_def fDoMTU_def fDoShowChannels_def g)
      (simp add: short_host_saved_def)
qed

theorem menu_runs_saved_witness:
  "\<exists>h1. user_assess 40000 ''eth0'' initial_settings example_files example_host = Inr (Some h1)
     \<and> (case menu_files h1 ''/tmp/applyKernelDefFile'' of None \<Rightarrow> False
        | Some t \<Rightarrow> menu_commands t = [sysctl_cmd ''net.core.rmem_max'' (show_nat 1147483647)])"
proof -
  obtain h1 where h1: "user_assess 40000 ''eth0'' initial_settings example_files example_host = Inr (Some h1)"
    "aApplyKernelDefTun (hf_assessment h1) = [sysctl_cmd ''net.core.rmem_max'' (show_nat 1147483647)]"
    using example_assess by blast
  have "saved_ok (hf_assessment example_host)"
    by (simp add: saved_ok_def example_host_def initial_assessment_def)
  moreover have "hf_writable example_files f" for f by (simp add: example_files_def)
  ultimately show ?thesis using menu_runs_saved [OF h1(1)] h1 by (auto split: option.splits)
qed

text \<open>The sizes asked for the ring buffers.  From any report with sizes that fit an \<open>int\<close>, on a NIC of
  100 Gb/s or more with the tuning applied, the commands are those of the targets, receiving before
  sending; a target is between the current and the largest size, and, but for a current size of
  exactly 8192, at most 8192 or the current size.  With 8192 the target is the largest size, so a
  ring raised to 8192 is raised beyond it by the next assessment.\<close>

theorem ring_sizes_limited:
  assumes "quiet p0" "quiet p1" "quiet p2" "quiet p3" "quiet p4" "\<forall>c \<in> set ws. isblank c"
    and "rm < 2 ^ 31" "tm < 2 ^ 31" "rc < 2 ^ 31" "tc < 2 ^ 31"
    and "100000 \<le> speed" "gApplyNicTuning s = CHR ''y''"
  shows "\<exists>a1. fDoRingBufferSize speed s dev (unlines (ring_report p0 p1 p2 p3 p4 ws rm tm rc tc)) True a = Inr a1
    \<and> ran a1 = ran a @ [''ethtool --show-ring '' @ dev @ '' > /tmp/NIC.cfgfile 2>/dev/null'']
       @ (case ring_target speed (int rm) (int rc) of None \<Rightarrow> []
          | Some n \<Rightarrow> [''ethtool -G '' @ dev @ '' rx '' @ show_int n])
       @ (case ring_target speed (int tm) (int tc) of None \<Rightarrow> []
          | Some n \<Rightarrow> [''ethtool -G '' @ dev @ '' tx '' @ show_int n]) @ [rm_nic]
    \<and> (case ring_target speed mx cur of None \<Rightarrow> mx \<le> cur
       | Some n \<Rightarrow> cur \<le> n \<and> n \<le> mx \<and> (if cur = 8192 then n = mx else n \<le> max 8192 cur))"
proof -
  let ?ls = "ring_report p0 p1 p2 p3 p4 ws rm tm rc tc"
  have "\<forall>l \<in> set ?ls. newline \<notin> set l"
    using assms(1-5) blank_line_class [OF assms(6)] by (auto simp: ring_report_def quiet_def)
  then have f: "file_lines (unlines ?ls) = map (\<lambda>l. l @ [newline]) ?ls" by (rule file_lines_unlines)
  have ne: "unlines ?ls \<noteq> []" by (simp add: ring_report_def unlines_def)
  show ?thesis
    using scan_ring_report [OF assms(1-4,6-10)] assms(7-12)
    by (auto simp: fDoRingBufferSize_def f ne Let_def tune_ring_def apply_nic_def run_system_def ring_target_def
        split: option.splits)
qed

theorem ring_sizes_limited_witness:
  "\<exists>a1. fDoRingBufferSize 100000 (initial_settings\<lparr>gApplyNicTuning := CHR ''y''\<rparr>) ''eth0''
       (unlines (ring_report [''Pre-set maximums:''] [''RX Mini: n/a''] [''Current hardware settings:''] [] []
         [CHR 0x09] 16384 8192 8192 8192)) True initial_assessment = Inr a1
     \<and> ran a1 = [''ethtool --show-ring eth0 > /tmp/NIC.cfgfile 2>/dev/null'',
         ''ethtool -G eth0 rx '' @ show_nat 16384, rm_nic]"
proof -
  have q: "quiet [''Pre-set maximums:'']" "quiet [''RX Mini: n/a'']" "quiet [''Current hardware settings:'']" "quiet []"
    by (simp_all add: quiet_def has_substr_def)
  have b: "\<forall>c \<in> set [CHR 0x09]. isblank c" by (simp add: isblank_def char_code_def)
  show ?thesis
    using ring_sizes_limited [OF q(1) q(2) q(3) q(4) q(4) b, of 16384 8192 8192 8192 100000
        "initial_settings\<lparr>gApplyNicTuning := CHR ''y''\<rparr>" "''eth0''" initial_assessment 0 0]
    by (auto simp: ring_target_def show_int_def initial_assessment_def)
qed

text \<open>The governor of the last CPU decides: when the last line asks for no change none is made, whatever the
  others are.\<close>

lemma governor_of_last_cpu:
  assumes "\<forall>g \<in> set gs. newline \<notin> set g \<and> length g < 255" "gs \<noteq> []"
  shows "governor_lines (file_lines (unlines gs)) v = Inr (last gs)"
proof -
  have "governor_lines (map (\<lambda>g. g @ [newline]) gs) v = Inr (if gs = [] then v else last gs)"
    using assms(1) by (induction gs arbitrary: v) (auto simp: copy_line_def chomp_def)
  moreover have "file_lines (unlines gs) = map (\<lambda>g. g @ [newline]) gs"
    using assms(1) by (intro file_lines_unlines) simp
  ultimately show ?thesis using assms(2) by simp
qed

end
