(* ===== verification/Tune_Tool.thy ===== *)
theory Tune_Tool
  imports Host_Assess
begin

text \<open>
  The stand-alone assessment tool \<open>dtn_tune\<close> (\<open>src/assess-tuning/dtn_tune.c\<close>).  Much of its text is
  that of \<open>src/userspace/user_assess.c\<close>: the tables of recommended values, \<open>fDoIrqBalance\<close>,
  \<open>fDoRingBufferSize\<close>, \<open>fDoGetNuma\<close>, \<open>fDoGetDeviceCap\<close>, the parsing of a line and the files for the
  menu are the definitions of the theories before.  Here is what it does on its own: five settings of
  the configuration, the speeds of all NICs and the questions to the operator, comparing settings with
  three values, the governor, the MTU, the transmit queue and large receive offload, and \<open>main\<close>.
\<close>

section \<open>Configuration\<close>

definition tool_known :: "(string \<times> string) list" where
  "tool_known = [(''learning_mode_only'', ''y''), (''apply_default_system_tuning'', ''n''),
     (''apply_bios_tuning'', ''n''), (''apply_nic_tuning'', ''n''), (''make_default_system_tuning_perm'', ''n'')]"

definition tool_names :: "string list" where "tool_names = map fst tool_known"

text \<open>A value is copied to its 32 bytes with \<open>strcpy\<close>.\<close>

definition tool_read_line :: "string \<Rightarrow> cfg_values \<Rightarrow> c_fault + cfg_values" where
  "tool_read_line p cfg =
    bindE (line_key p) (\<lambda>(key, rest).
      if key \<in> set tool_names
      then bindE (line_value key rest) (\<lambda>v.
        if 32 \<le> length v then Inl (Buffer_Overflow ''cfg_value'' (length v + 1)) else Inr (cfg(key := v)))
      else Inr cfg)"

fun tool_read_lines :: "string list \<Rightarrow> cfg_values \<Rightarrow> c_fault + cfg_values" where
  "tool_read_lines [] cfg = Inr cfg"
| "tool_read_lines (p # ps) cfg = bindE (tool_read_line p cfg) (tool_read_lines ps)"

definition tool_use_value :: "string \<Rightarrow> string \<Rightarrow> user_settings \<Rightarrow> user_settings" where
  "tool_use_value name v s =
    (if name = ''learning_mode_only''
     then (if first_char v = CHR ''n'' then s\<lparr>cfg_tuning_mode := True\<rparr> else s)
     else if name = ''apply_default_system_tuning''
     then (if first_char v = CHR ''y'' then s\<lparr>gApplyDefSysTuning := CHR ''y''\<rparr> else s)
     else if name = ''apply_bios_tuning''
     then (if first_char v = CHR ''y'' then s\<lparr>gApplyBiosTuning := CHR ''y''\<rparr> else s)
     else if name = ''apply_nic_tuning''
     then (if first_char v = CHR ''y'' then s\<lparr>gApplyNicTuning := CHR ''y''\<rparr> else s)
     else if name = ''make_default_system_tuning_perm''
     then (if first_char v = CHR ''y'' then s\<lparr>gMakeTuningPermanent := CHR ''y''\<rparr> else s)
     else s)"

definition tool_UserCfgValues :: "string option \<Rightarrow> user_settings \<Rightarrow> c_fault + user_settings" where
  "tool_UserCfgValues file s =
    (case file of None \<Rightarrow> Inr s
     | Some t \<Rightarrow> bindE (tool_read_lines (file_lines t) unset)
         (\<lambda>cfg. Inr (fold (\<lambda>name. tool_use_value name (cfg name)) tool_names s)))"

section \<open>The speeds of the NICs\<close>

text \<open>The highest speed so far, and the NICs up to 10G, below 100G and above.\<close>

record nic_speeds =
  tmpSpeed :: int
  v10G :: nat
  v40G :: nat
  v100G :: nat

definition count_speed :: "int \<Rightarrow> nic_speeds \<Rightarrow> nic_speeds" where
  "count_speed cfg_val n =
    (if cfg_val = 0 then n
     else
       let n1 = (if tmpSpeed n \<le> cfg_val then n\<lparr>tmpSpeed := cfg_val\<rparr> else n)
       in if cfg_val \<le> 10000 then n1\<lparr>v10G := v10G n1 + 1\<rparr>
          else if cfg_val < 100000 then n1\<lparr>v40G := v40G n1 + 1\<rparr>
          else n1\<lparr>v100G := v100G n1 + 1\<rparr>)"

fun count_speeds :: "string list \<Rightarrow> nic_speeds \<Rightarrow> c_fault + nic_speeds" where
  "count_speeds [] n = Inr n"
| "count_speeds (l # ls) n = bindE (copy_line ''sValue'' l) (\<lambda>v. count_speeds ls (count_speed (atoi v) n))"

text \<open>A question: the first line that starts with a number offered is the answer; the other lines are asked
  again, and at the end of the input there is no answer.\<close>

fun ask_speed :: "(char \<times> int) list \<Rightarrow> string list \<Rightarrow> int option" where
  "ask_speed menu [] = None"
| "ask_speed menu (l # ls) =
    (case map_of menu (first_char l) of Some v \<Rightarrow> Some v | None \<Rightarrow> ask_speed menu ls)"

definition speed_menu :: "nic_speeds \<Rightarrow> (char \<times> int) list option" where
  "speed_menu n =
    (if v10G n \<noteq> 0 \<and> v40G n \<noteq> 0 \<and> v100G n \<noteq> 0
     then Some [(CHR ''1'', 10000), (CHR ''2'', 40000), (CHR ''3'', 100000)]
     else if v40G n \<noteq> 0 \<and> v100G n \<noteq> 0 then Some [(CHR ''1'', 40000), (CHR ''2'', 100000)]
     else if v10G n \<noteq> 0 \<and> v100G n \<noteq> 0 then Some [(CHR ''1'', 10000), (CHR ''2'', 100000)]
     else if v10G n \<noteq> 0 \<and> v40G n \<noteq> 0 then Some [(CHR ''1'', 10000), (CHR ''2'', 40000)]
     else None)"

definition no_nics :: nic_speeds where
  "no_nics = \<lparr>tmpSpeed = 0, v10G = 0, v40G = 0, v100G = 0\<rparr>"

text \<open>\<open>file\<close>: what \<open>cat /sys/class/net/*/speed\<close> printed; \<open>input\<close>: what the operator types.\<close>

definition fCheckForNicsAndSpeeds :: "string option \<Rightarrow> string \<Rightarrow> c_fault + int" where
  "fCheckForNicsAndSpeeds file input =
    (case file of None \<Rightarrow> Inr 0
     | Some t \<Rightarrow> bindE (count_speeds (file_lines t) no_nics) (\<lambda>n.
         Inr (case speed_menu n of
            Some menu \<Rightarrow> (case ask_speed menu (file_lines input) of Some v \<Rightarrow> v | None \<Rightarrow> tmpSpeed n)
          | None \<Rightarrow> if v100G n \<noteq> 0 \<or> v40G n \<noteq> 0 \<or> v10G n \<noteq> 0 then tmpSpeed n else 10000)))"

section \<open>The system's settings\<close>

text \<open>A setting with three values is looked at whatever its first value is.\<close>

definition tool_assess_number ::
  "user_settings \<Rightarrow> host_tuning_vals \<Rightarrow> string \<Rightarrow> string \<Rightarrow> assessment \<Rightarrow> c_fault + assessment" where
  "tool_assess_number s e name v a =
    (let intvalue = (word_of_int (atoi v) :: u32) in
     if intvalue \<le> rec_minimum e \<or> rec_xDefault e \<noteq> - 1
     then (if rec_xDefault e = - 1
           then (if intvalue = rec_minimum e then Inr a
                 else tune_setting s name (show_int (sint (rec_minimum e))) a)
           else bindE (parse_triple v) (\<lambda>(mn, df, mx).
             if (word_of_int (atoi mx) :: u32) < rec_maximum e
             then tune_setting s name (''\"'' @ rec_triple e @ ''\"'') a else Inr a))
     else Inr a)"

definition tool_assess_line ::
  "user_settings \<Rightarrow> string option \<Rightarrow> host_tuning_vals list \<Rightarrow> string \<Rightarrow> bool \<times> assessment
   \<Rightarrow> c_fault + (bool \<times> assessment)" where
  "tool_assess_line s modprobe tab line st =
    bindE (read_setting line) (\<lambda>(name, q).
      case find (\<lambda>e. rec_setting e = name) tab of None \<Rightarrow> Inr st
      | Some e \<Rightarrow> bindE (read_value q) (\<lambda>v.
          if v \<noteq> [] \<and> isdigit (hd v)
          then bindE (tool_assess_number s e name v (snd st)) (\<lambda>a. Inr (fst st, a))
          else assess_string s modprobe e name v st))"

fun tool_assess_lines ::
  "user_settings \<Rightarrow> string option \<Rightarrow> host_tuning_vals list \<Rightarrow> string list \<Rightarrow> bool \<times> assessment
   \<Rightarrow> c_fault + (bool \<times> assessment)" where
  "tool_assess_lines s modprobe tab [] st = Inr st"
| "tool_assess_lines s modprobe tab (l # ls) st =
    bindE (tool_assess_line s modprobe tab l st) (tool_assess_lines s modprobe tab ls)"

text \<open>\<open>None\<close>: the program exits with -2.\<close>

definition tool_SystemTuning ::
  "int \<Rightarrow> user_settings \<Rightarrow> string option \<Rightarrow> string option \<Rightarrow> assessment \<Rightarrow> c_fault + assessment option" where
  "tool_SystemTuning speed s current modprobe a =
    (let (tab, script) = tuning_table speed; a1 = run_system script a in
     case current of None \<Rightarrow> Inr None
     | Some t \<Rightarrow> bindE (tool_assess_lines s modprobe tab (file_lines t) (False, a1)) (\<lambda>(_, a2).
         let a3 = run_system ''rm -f /tmp/current_config.orig'' a2 in
         Inr (Some (if vModifySysctlFile a3
                    then (run_system end_mark a3)\<lparr>vModifySysctlFile := False\<rparr> else a3))))"

section \<open>Governor\<close>

text \<open>\<open>gov\<close> and \<open>cpupower\<close> are the files of the two commands; without a governor in either it is left alone.\<close>

definition tool_CpuPerformance ::
  "user_settings \<Rightarrow> string \<Rightarrow> string \<Rightarrow> bool \<Rightarrow> assessment \<Rightarrow> c_fault + assessment" where
  "tool_CpuPerformance s gov cpupower opens a =
    (let a1 = run_system ''cat /sys/devices/system/cpu/cpu*/cpufreq/scaling_governor > /tmp/BIOS.cfgfile 2>/dev/null'' a;
         a2 = run_system ''sudo cpupower frequency-info | grep \"The governor\" > /tmp/BIOS.cfgfile 2>/dev/null'' a1
     in if gov = [] \<and> cpupower = [] then Inr (run_system rm_bios a2)
        else if gov = [] \<and> \<not> opens then Inl (Null_Pointer ''biosCfgFPtr'')
        else bindE (if gov \<noteq> [] then Inr (Some ([], file_lines gov)) else find_word ''The governor'' (file_lines cpupower))
          (\<lambda>r. case r of None \<Rightarrow> Inr (run_system rm_bios a2)
           | Some (v0, ls) \<Rightarrow>
             if gov \<noteq> [] \<and> \<not> opens then Inr a1
             else bindE (governor_lines ls v0) (\<lambda>v.
               let a3 = (if gov \<noteq> [] then a1 else a2) in
               bindE (if v = ''performance'' then Inr a3
                      else apply_bios s (if gov = [] then ''sudo cpupower frequency-set -g performance''
                        else ''sh -c '' @ [CHR 0x27] @ ''echo performance | tee /sys/devices/system/cpu/cpu*/cpufreq/scaling_governor'' @ [CHR 0x27]) a3)
                 (\<lambda>a4. Inr (run_system rm_bios a4)))))"

definition tool_BiosTuning ::
  "user_settings \<Rightarrow> string \<Rightarrow> string \<Rightarrow> string \<Rightarrow> bool \<Rightarrow> assessment \<Rightarrow> c_fault + assessment" where
  "tool_BiosTuning s gov cpupower irq opens a =
    bindE (tool_CpuPerformance s gov cpupower opens a) (fDoIrqBalance s irq opens)"

section \<open>The NIC\<close>

definition tool_TxQueueLen ::
  "int \<Rightarrow> user_settings \<Rightarrow> string \<Rightarrow> string option \<Rightarrow> assessment \<Rightarrow> c_fault + assessment" where
  "tool_TxQueueLen speed s dev out a =
    (let a1 = run_system (''cat /sys/class/net/'' @ dev @ ''/tx_queue_len > /tmp/NIC.cfgfile'') a;
         recommended = (if speed < 100000 then 1000 else 20000)
     in case out of None \<Rightarrow> Inr a1
        | Some t \<Rightarrow>
          bindE (case file_lines t of [] \<Rightarrow> Inr a1
             | l # _ \<Rightarrow> bindE (copy_line ''sValue'' l) (\<lambda>v.
                 if atoi v \<noteq> 0 \<and> atoi v < recommended
                 then apply_nic s (''ifconfig '' @ dev @ '' txqueuelen '' @ show_int recommended) a1
                 else Inr a1))
            (\<lambda>a2. Inr (run_system rm_nic a2)))"

text \<open>A device without the feature: the file that was never opened is closed.\<close>

definition tool_LRO ::
  "user_settings \<Rightarrow> string \<Rightarrow> string \<Rightarrow> string \<Rightarrow> bool \<Rightarrow> assessment \<Rightarrow> c_fault + assessment" where
  "tool_LRO s dev feature fixed opens a =
    (let show_cmd = ''ethtool --show-features '' @ dev @ '' | grep large-receive-offload'';
         a1 = run_system (show_cmd @ '' > /tmp/NIC.cfgfile 2>/dev/null'') a
     in if feature = [] then Inl (Null_Pointer ''nicCfgFPtr'')
        else
          let a2 = run_system (show_cmd @ '' | grep fixed > /tmp/NIC.cfgfile 2>/dev/null'') a1;
              a3 = (if fixed = [] then run_system (show_cmd @ '' > /tmp/NIC.cfgfile 2>/dev/null'') a2 else a2)
          in if \<not> opens then Inr a3
             else bindE (case file_lines (if fixed = [] then feature else fixed) of [] \<Rightarrow> Inr a3
                | l # _ \<Rightarrow>
                  if length l < 21 then Inl (Unterminated ''line'')
                  else bindE (copy_line ''sLROValue'' (drop 21 l)) (\<lambda>_.
                    bindE (copy_class isalpha ''sLROValue'' (drop 21 l)) (\<lambda>v.
                      if v \<noteq> ''on'' \<and> fixed = []
                      then apply_nic s (''ethtool -K '' @ dev @ '' lro on 2>/dev/null'') a3
                      else Inr a3)))
               (\<lambda>a4. Inr (run_system rm_nic a4)))"

text \<open>The digits behind the first \<open>maxmtu\<close> of \<open>ip -d link list\<close>, in \<open>aMaxMtuVal[256]\<close>; a line is copied
  to 512 bytes.\<close>

fun find_maxmtu :: "string list \<Rightarrow> c_fault + string" where
  "find_maxmtu [] = Inr []"
| "find_maxmtu (l # ls) =
    (if 512 \<le> length l then Inl (Buffer_Overflow ''sValue'' (length l + 1))
     else (case strstr (chomp l) ''maxmtu'' of None \<Rightarrow> find_maxmtu ls
       | Some y \<Rightarrow>
         (let ds = takeWhile isdigit (dropWhile isblank (drop 6 y)) in
          if 256 \<le> length ds then Inl (Buffer_Overflow ''aMaxMtuVal'' (length ds + 1)) else Inr ds)))"

abbreviation rm_nic2 :: string where "rm_nic2 \<equiv> ''rm -f /tmp/NIC.cfgfile2''"

text \<open>Whether the device takes an MTU of 9200: what \<open>ip\<close> prints (\<open>links\<close>) is looked at, unless the file
  cannot be opened (\<open>opens2\<close>), when the MTU is changed anyway.\<close>

definition mtu_allowed :: "string \<Rightarrow> bool \<Rightarrow> assessment \<Rightarrow> c_fault + (bool \<times> assessment)" where
  "mtu_allowed links opens2 a =
    (if links = [] then Inr (False, run_system rm_nic2 a)
     else if \<not> opens2 then Inr (True, a)
     else bindE (find_maxmtu (file_lines links)) (\<lambda>ds.
       Inr (ds \<noteq> [] \<and> 9200 \<le> atoi ds, run_system rm_nic2 a)))"

definition tool_MTU ::
  "user_settings \<Rightarrow> string \<Rightarrow> string option \<Rightarrow> string \<Rightarrow> bool \<Rightarrow> assessment \<Rightarrow> c_fault + assessment" where
  "tool_MTU s dev out links opens2 a =
    (let a1 = run_system (''cat /sys/class/net/'' @ dev @ ''/mtu  > /tmp/NIC.cfgfile'') a in
     case out of None \<Rightarrow> Inr a1
     | Some t \<Rightarrow>
       bindE (case file_lines t of [] \<Rightarrow> Inr a1
          | l # _ \<Rightarrow> bindE (copy_line ''sValue'' l) (\<lambda>v.
              if atoi v \<noteq> 0 \<and> atoi v < 9200
              then bindE (mtu_allowed links opens2
                     (run_system (''ip -d link list '' @ dev @ '' > /tmp/NIC.cfgfile2 2>/dev/null'') a1))
                   (\<lambda>(ok, a2). if ok then apply_nic s (''sudo ip link set dev '' @ dev @ '' mtu 9200'') a2
                                 else Inr a2)
              else Inr a1))
         (\<lambda>a3. Inr (run_system rm_nic a3)))"

section \<open>The program\<close>

record tool_files =
  tf_speeds :: "string option"
  tf_speed :: "string option"      \<comment> \<open>the speed of the device named\<close>
  tf_config :: "string option"
  tf_numa :: "string option"
  tf_settings :: "string option"
  tf_modprobe :: "string option"
  tf_governor :: string
  tf_cpupower :: string
  tf_irqbalance :: string
  tf_txqueuelen :: "string option"
  tf_ring :: string
  tf_lro :: string
  tf_lro_fixed :: string
  tf_mtu :: "string option"
  tf_links :: string
  tf_opens :: bool
  tf_opens2 :: bool
  tf_writable :: "string \<Rightarrow> bool"

definition tool_NicTuning ::
  "int \<Rightarrow> user_settings \<Rightarrow> string \<Rightarrow> tool_files \<Rightarrow> assessment \<Rightarrow> c_fault + assessment" where
  "tool_NicTuning speed s dev tf a =
    bindE (tool_TxQueueLen speed s dev (tf_txqueuelen tf) a) (\<lambda>a1.
    bindE (fDoRingBufferSize speed s dev (tf_ring tf) (tf_opens tf) a1) (\<lambda>a2.
    bindE (if 100000 \<le> speed then tool_LRO s dev (tf_lro tf) (tf_lro_fixed tf) (tf_opens tf) a2 else Inr a2) (\<lambda>a3.
      tool_MTU s dev (tf_mtu tf) (tf_links tf) (tf_opens2 tf) a3)))"

text \<open>The speed to tune for, or the exit value.\<close>

definition tool_device :: "string list \<Rightarrow> (string \<Rightarrow> bool) \<Rightarrow> tool_files \<Rightarrow> string \<Rightarrow> c_fault + (int + int)" where
  "tool_device argv exists tf input =
    (if length argv = 2
     then (let dev = argv ! 1 in
       if 128 \<le> length dev then Inl (Buffer_Overflow ''netDevice'' (length dev + 1))
       else if exists dev
       then bindE (fDoGetDeviceCap (tf_speed tf) 0) (\<lambda>speed.
         Inr (if speed sdiv 1000 = 0 then Inl (- 3) else Inr speed))
       else Inr (Inl (- 1)))
     else bindE (fCheckForNicsAndSpeeds (tf_speeds tf) input) (\<lambda>speed. Inr (Inr speed)))"

text \<open>The exit value, what was run and saved, and the files for the menu.\<close>

definition tool_main ::
  "string list \<Rightarrow> (string \<Rightarrow> bool) \<Rightarrow> tool_files \<Rightarrow> string \<Rightarrow> (string \<Rightarrow> string option)
   \<Rightarrow> c_fault + (int \<times> assessment \<times> (string \<Rightarrow> string option))" where
  "tool_main argv exists tf input files =
    bindE (tool_device argv exists tf input) (\<lambda>r. case r of
      Inl code \<Rightarrow> Inr (code, initial_assessment, files)
    | Inr speed \<Rightarrow>
      bindE (tool_UserCfgValues (tf_config tf) initial_settings) (\<lambda>s.
      bindE (if length argv = 2 then fDoGetNuma (tf_numa tf) else Inr 0) (\<lambda>_.
      bindE (tool_SystemTuning speed s (tf_settings tf) (tf_modprobe tf) initial_assessment) (\<lambda>r1. case r1 of
        None \<Rightarrow> Inr (- 2, run_system (snd (tuning_table speed)) initial_assessment, files)
      | Some a1 \<Rightarrow>
        bindE (tool_BiosTuning s (tf_governor tf) (tf_cpupower tf) (tf_irqbalance tf) (tf_opens tf) a1) (\<lambda>a2.
        bindE (if length argv = 2 then tool_NicTuning speed s (argv ! 1) tf a2 else Inr a2) (\<lambda>a3.
          Inr (0, a3, write_menus (tf_writable tf) a3 files)))))))"

section \<open>Lemmas: reading the configuration\<close>

definition tool_meant :: "(string \<times> string \<times> string) list \<Rightarrow> cfg_values \<Rightarrow> cfg_values" where
  "tool_meant es cfg = foldl (\<lambda>cfg (k, ws, v). if k \<in> set tool_names then cfg(k := v) else cfg) cfg es"

lemma tool_names_known: "set tool_names \<subseteq> set names"
  by (simp add: tool_names_def tool_known_def names_def known_settings_def)

lemma tool_read_lines_entries:
  "\<forall>e \<in> set es. entry_ok e \<Longrightarrow>
     tool_read_lines (map (\<lambda>e. entry_line e @ [newline]) es) cfg = Inr (tool_meant es cfg)"
proof (induction es arbitrary: cfg)
  case (Cons e es)
  obtain k ws v where e: "e = (k, ws, v)" by (cases e)
  with Cons.prems have ok: "entry_ok (k, ws, v)" by simp
  then have en: "\<forall>c \<in> set k. \<not> isblank c" "length k < 256" "ws \<noteq> []" "\<forall>c \<in> set ws. isblank c"
    by (simp_all add: entry_ok_def)
  have lk: "line_key (entry_line (k, ws, v) @ [newline]) = Inr (k, ws @ v @ [newline])"
    using line_key_entry [OF en, of "v @ [newline]"] by (simp add: entry_line_def)
  have "tool_read_line (entry_line e @ [newline]) cfg = Inr (if k \<in> set tool_names then cfg(k := v) else cfg)"
  proof (cases "k \<in> set tool_names")
    case True
    then have "value_ok k v" using ok tool_names_known by (auto simp: entry_ok_def)
    with line_value_entry [OF this en(4)] True lk show ?thesis
      by (simp add: e tool_read_line_def value_ok_def)
  next
    case False
    with lk show ?thesis by (simp add: e tool_read_line_def)
  qed
  with Cons show ?case by (simp add: e tool_meant_def)
qed (simp add: tool_meant_def)

lemma tool_meant_same:
  "k \<in> set tool_names \<Longrightarrow> cfg k = cfg' k \<Longrightarrow> tool_meant es cfg k = meant es cfg' k"
proof (induction es arbitrary: cfg cfg')
  case (Cons e es)
  obtain k' ws v where e: "e = (k', ws, v)" by (cases e)
  from Cons.prems(2) have "(if k' \<in> set tool_names then cfg(k' := v) else cfg) k
      = (if k' \<in> set names then cfg'(k' := v) else cfg') k"
    using Cons.prems(1) tool_names_known by auto
  note ih = Cons.IH [OF Cons.prems(1), of "if k' \<in> set tool_names then cfg(k' := v) else cfg"
      "if k' \<in> set names then cfg'(k' := v) else cfg'", OF this]
  show ?case using ih by (simp add: e tool_meant_def meant_def)
qed (simp add: tool_meant_def meant_def)

text \<open>The five settings, after one value.\<close>

lemma use_value_five:
  "cfg_tuning_mode (use_value n d v s) = (n = ''learning_mode_only'' \<and> first_char v = CHR ''n'' \<or> cfg_tuning_mode s)"
  "gApplyDefSysTuning (use_value n d v s) =
     (if n = ''apply_default_system_tuning'' \<and> first_char v = CHR ''y'' then CHR ''y'' else gApplyDefSysTuning s)"
  "gApplyBiosTuning (use_value n d v s) =
     (if n = ''apply_bios_tuning'' \<and> first_char v = CHR ''y'' then CHR ''y'' else gApplyBiosTuning s)"
  "gApplyNicTuning (use_value n d v s) =
     (if n = ''apply_nic_tuning'' \<and> first_char v = CHR ''y'' then CHR ''y'' else gApplyNicTuning s)"
  "gMakeTuningPermanent (use_value n d v s) =
     (if n = ''make_default_system_tuning_perm'' \<and> first_char v = CHR ''y'' then CHR ''y'' else gMakeTuningPermanent s)"
  by (simp_all add: use_value_def Let_def)

lemma tool_use_value_five:
  "cfg_tuning_mode (tool_use_value n v s) = (n = ''learning_mode_only'' \<and> first_char v = CHR ''n'' \<or> cfg_tuning_mode s)"
  "gApplyDefSysTuning (tool_use_value n v s) =
     (if n = ''apply_default_system_tuning'' \<and> first_char v = CHR ''y'' then CHR ''y'' else gApplyDefSysTuning s)"
  "gApplyBiosTuning (tool_use_value n v s) =
     (if n = ''apply_bios_tuning'' \<and> first_char v = CHR ''y'' then CHR ''y'' else gApplyBiosTuning s)"
  "gApplyNicTuning (tool_use_value n v s) =
     (if n = ''apply_nic_tuning'' \<and> first_char v = CHR ''y'' then CHR ''y'' else gApplyNicTuning s)"
  "gMakeTuningPermanent (tool_use_value n v s) =
     (if n = ''make_default_system_tuning_perm'' \<and> first_char v = CHR ''y'' then CHR ''y'' else gMakeTuningPermanent s)"
  by (simp_all add: tool_use_value_def)

section \<open>Lemmas: the two programs on the same list\<close>

text \<open>The same commands run and saved.\<close>

definition same_work :: "assessment \<Rightarrow> assessment \<Rightarrow> bool" where
  "same_work a b \<longleftrightarrow> ran a = ran b \<and> vModifySysctlFile a = vModifySysctlFile b
     \<and> aApplyKernelDefTun a = aApplyKernelDefTun b \<and> aApplyNicDefTun a = aApplyNicDefTun b
     \<and> aApplyBiosDefTun a = aApplyBiosDefTun b"

abbreviation same_result :: "('a \<Rightarrow> 'b \<Rightarrow> bool) \<Rightarrow> c_fault + 'a \<Rightarrow> c_fault + 'b \<Rightarrow> bool" where
  "same_result R \<equiv> rel_sum (=) R"

lemma same_work_simps [simp]: "same_work a a" "same_work a (note_tune_max e n b) = same_work a b"
  by (simp_all add: same_work_def note_tune_max_def)

lemma same_work_system [intro]: "same_work a b \<Longrightarrow> same_work (run_system c a) (run_system c b)"
  "same_work a b \<Longrightarrow> same_work (a\<lparr>vModifySysctlFile := m\<rparr>) (b\<lparr>vModifySysctlFile := m\<rparr>)"
  by (simp_all add: same_work_def run_system_def)

lemma same_result_bind:
  "same_result R r r' \<Longrightarrow> (\<And>x y. R x y \<Longrightarrow> same_result Q (k x) (k' y)) \<Longrightarrow> same_result Q (bindE r k) (bindE r' k')"
  by (cases r; cases r') auto

lemma tune_setting_same: "same_work a b \<Longrightarrow> same_result same_work (tune_setting s n w a) (tune_setting s n w b)"
  by (auto simp: tune_setting_def Let_def save_kernel_def same_work_def run_system_def)

abbreviation same_state :: "bool \<times> assessment \<Rightarrow> bool \<times> assessment \<Rightarrow> bool" where
  "same_state \<equiv> rel_prod (=) same_work"

lemma assess_string_same:
  assumes "same_work a b"
  shows "same_result same_state (assess_string s mp e n v (av, a)) (assess_string s mp e n v (av, b))"
proof -
  have t: "same_result same_state (bindE (tune_setting s n w a) (\<lambda>a1. Inr (av, a1)))
      (bindE (tune_setting s n w b) (\<lambda>a1. Inr (av, a1)))" if "same_work a b" for w a b
    using tune_setting_same [OF that] by (rule same_result_bind) simp
  show ?thesis
    using assms t [OF assms] t [OF same_work_system(1) [OF same_work_system(1) [OF assms]]]
    by (auto simp: assess_string_def Let_def split: option.split)
qed

text \<open>A line with three values whose first value is above the recommended minimum.\<close>

definition high_first :: "host_tuning_vals list \<Rightarrow> string \<Rightarrow> bool" where
  "high_first tab line =
    (case read_setting line of Inl _ \<Rightarrow> False
     | Inr (name, q) \<Rightarrow> (case find (\<lambda>e. rec_setting e = name) tab of None \<Rightarrow> False
       | Some e \<Rightarrow> (case read_value q of Inl _ \<Rightarrow> False
         | Inr v \<Rightarrow> v \<noteq> [] \<and> isdigit (hd v) \<and> rec_xDefault e \<noteq> - 1
             \<and> rec_minimum e < word_of_int (atoi v))))"

lemma assess_number_same:
  assumes "same_work a b" "rec_xDefault e = - 1 \<or> word_of_int (atoi v) \<le> rec_minimum e"
  shows "same_result same_work (tool_assess_number s e n v a) (assess_number s e n v b)"
proof -
  have t: "same_result same_work (tune_setting s n w a) (tune_setting s n w (note_tune_max e n b))" for w
    using assms(1) by (intro tune_setting_same) simp
  show ?thesis
    using assms t tune_setting_same [OF assms(1)]
    by (cases "parse_triple v") (auto simp: tool_assess_number_def assess_number_def Let_def)
qed

lemma assess_line_same:
  assumes "same_state st st'" "\<not> high_first tab l"
  shows "same_result same_state (tool_assess_line s mp tab l st) (assess_line s mp tab l st')"
proof -
  obtain av a b where st: "st = (av, a)" "st' = (av, b)" "same_work a b"
    using assms(1) by (cases st; cases st') auto
  show ?thesis
  proof (cases "read_setting l")
    case (Inr nq)
    obtain n q where nq: "nq = (n, q)" by (cases nq)
    show ?thesis
    proof (cases "find (\<lambda>e. rec_setting e = n) tab")
      case (Some e)
      show ?thesis
      proof (cases "read_value q")
        case (Inr v)
        have "same_result same_state (bindE (tool_assess_number s e n v a) (\<lambda>a. Inr (av, a)))
            (bindE (assess_number s e n v b) (\<lambda>a. Inr (av, a)))" if "v \<noteq> []" "isdigit (hd v)"
        proof (rule same_result_bind [OF assess_number_same])
          show "rec_xDefault e = - 1 \<or> word_of_int (atoi v) \<le> rec_minimum e"
            using assms(2) that \<open>read_setting l = Inr nq\<close> nq Some Inr by (auto simp: high_first_def)
        qed (use st in auto)
        with assess_string_same [OF st(3)] \<open>read_setting l = Inr nq\<close> nq Some Inr st(1,2) show ?thesis
          by (simp add: tool_assess_line_def assess_line_def)
      qed (use \<open>read_setting l = Inr nq\<close> nq Some in \<open>simp add: tool_assess_line_def assess_line_def\<close>)
    qed (use \<open>read_setting l = Inr nq\<close> nq assms(1) in \<open>simp add: tool_assess_line_def assess_line_def\<close>)
  qed (simp add: tool_assess_line_def assess_line_def)
qed

lemma assess_lines_same:
  "same_state st st' \<Longrightarrow> \<forall>l \<in> set ls. \<not> high_first tab l \<Longrightarrow>
     same_result same_state (tool_assess_lines s mp tab ls st) (assess_lines s mp tab ls st')"
proof (induction ls arbitrary: st st')
  case (Cons l ls)
  then show ?case by (auto intro!: same_result_bind [OF assess_line_same])
qed simp

section \<open>Lemmas: a list the tool can read\<close>

text \<open>A run without a fault, and the commands it adds.\<close>

definition adds :: "string list \<Rightarrow> c_fault + assessment \<Rightarrow> assessment \<Rightarrow> bool" where
  "adds cs r a \<longleftrightarrow> (\<exists>a1. r = Inr a1 \<and> ran a1 = ran a @ cs)"

lemma adds_same: "\<exists>cs. adds cs (Inr a) a"
  by (rule exI [of _ "[]"]) (simp add: adds_def)

lemma adds_tune:
  assumes "gApplyDefSysTuning s = CHR ''y''"
  shows "\<exists>cs. sysctl_cmd n w \<in> set cs \<and> adds cs (tune_setting s n w a) a"
proof -
  obtain a1 cs where "tune_setting s n w a = Inr a1" "ran a1 = ran a @ cs" "carries_out cs [(n, w)]"
    by (rule tune_setting_apply [OF assms])
  then show ?thesis by (auto simp: adds_def carries_out_def)
qed

lemma adds_tune_any: "gApplyDefSysTuning s = CHR ''y'' \<Longrightarrow> \<exists>cs. adds cs (tune_setting s n w a) a"
  using adds_tune by blast

definition quoted :: "host_tuning_vals \<Rightarrow> string" where
  "quoted e = ''\"'' @ rec_triple e @ ''\"''"

text \<open>What is asked of a setting with three values.\<close>

definition small_third :: "host_tuning_vals \<Rightarrow> string \<Rightarrow> bool" where
  "small_third e v \<longleftrightarrow> rec_xDefault e \<noteq> - 1
     \<and> (case parse_triple v of Inl _ \<Rightarrow> False | Inr (_, _, mx) \<Rightarrow> word_of_int (atoi mx) < rec_maximum e)"

lemma tool_number_apply:
  assumes "gApplyDefSysTuning s = CHR ''y''" "rec_xDefault e \<noteq> - 1 \<longrightarrow> is_ok (parse_triple v)"
  shows "\<exists>cs. adds cs (tool_assess_number s e n v a) a \<and> (small_third e v \<longrightarrow> sysctl_cmd n (quoted e) \<in> set cs)"
proof (cases "rec_xDefault e = - 1")
  case True
  then show ?thesis
    using adds_tune_any [OF assms(1)] adds_same by (auto simp: tool_assess_number_def small_third_def Let_def)
next
  case False
  then obtain mn df mx where "parse_triple v = Inr (mn, df, mx)"
    using assms(2) by (cases "parse_triple v") auto
  with False show ?thesis
    using adds_tune [OF assms(1), of n "quoted e"] adds_same
    by (auto simp: tool_assess_number_def small_third_def quoted_def Let_def)
qed

lemma adds_string:
  assumes "gApplyDefSysTuning s = CHR ''y''" "unat (rec_minimum e) < length aStringval"
  shows "\<exists>av1 a1 cs. assess_string s mp e n v (av, a) = Inr (av1, a1) \<and> ran a1 = ran a @ cs"
proof -
  have e: "\<exists>av1 a1 cs. bindE (tune_setting s n w b) (\<lambda>a1. Inr (av, a1)) = Inr (av1, a1) \<and> ran a1 = ran a @ cs"
    if "ran b = ran a @ ds" for w b ds
    using adds_tune_any [OF assms(1), of n w b] that by (auto simp: adds_def)
  let ?m = "run_system ''modprobe tcp_htcp > /tmp/modprobe_result 2>&1'' a"
  have m: "ran ?m = ran a @ [''modprobe tcp_htcp > /tmp/modprobe_result 2>&1'']"
    "ran (run_system ''rm -f /tmp/modprobe_result'' ?m) =
      ran a @ [''modprobe tcp_htcp > /tmp/modprobe_result 2>&1'', ''rm -f /tmp/modprobe_result'']"
    by (simp_all add: run_system_def)
  show ?thesis
    using assms(2) e [of a "[]"] e [OF m(2)] m
    by (auto simp: assess_string_def Let_def not_le split: option.split)
qed

lemma tool_line_apply:
  assumes "gApplyDefSysTuning s = CHR ''y''" "plausible tab n v"
  shows "\<exists>av1 a1 cs. tool_assess_line s mp tab (setting_line (n, v) @ [newline]) (av, a) = Inr (av1, a1)
    \<and> ran a1 = ran a @ cs
    \<and> (\<forall>e. find (\<lambda>e. rec_setting e = n) tab = Some e \<and> v \<noteq> [] \<and> isdigit (hd v) \<and> small_third e v
         \<longrightarrow> sysctl_cmd n (quoted e) \<in> set cs)"
proof -
  have line: "tool_assess_line s mp tab (setting_line (n, v) @ [newline]) (av, a) =
    (case find (\<lambda>e. rec_setting e = n) tab of None \<Rightarrow> Inr (av, a)
      | Some e \<Rightarrow> if v \<noteq> [] \<and> isdigit (hd v)
          then bindE (tool_assess_number s e n v a) (\<lambda>a. Inr (av, a))
          else assess_string s mp e n v (av, a))"
    using read_setting_line [of n v] read_value_line [of v] assms(2)
    by (simp add: tool_assess_line_def plausible_def split: option.split)
  show ?thesis
  proof (cases "find (\<lambda>e. rec_setting e = n) tab")
    case (Some e)
    show ?thesis
    proof (cases "v \<noteq> [] \<and> isdigit (hd v)")
      case True
      then have "rec_xDefault e \<noteq> - 1 \<longrightarrow> is_ok (parse_triple v)"
        using assms(2) Some by (simp add: plausible_def)
      from tool_number_apply [OF assms(1) this, of n a] True Some show ?thesis
        by (auto simp: line adds_def)
    next
      case False
      then have "unat (rec_minimum e) < length aStringval"
        using assms(2) Some by (simp add: plausible_def split: if_splits)
      from adds_string [OF assms(1) this, of mp n v av a] False Some show ?thesis by (auto simp: line)
    qed
  qed (simp add: line)
qed

lemma tool_lines_apply:
  assumes "gApplyDefSysTuning s = CHR ''y''" "\<forall>(n, v) \<in> set es. plausible tab n v"
  shows "\<exists>av1 a1 cs. tool_assess_lines s mp tab (map (\<lambda>e. setting_line e @ [newline]) es) (av, a) = Inr (av1, a1)
    \<and> ran a1 = ran a @ cs
    \<and> (\<forall>(n, v) \<in> set es. \<forall>e. find (\<lambda>e. rec_setting e = n) tab = Some e \<and> v \<noteq> [] \<and> isdigit (hd v) \<and> small_third e v
         \<longrightarrow> sysctl_cmd n (quoted e) \<in> set cs)"
  using assms(2)
proof (induction es arbitrary: av a)
  case (Cons x es)
  obtain n v where x: "x = (n, v)" by (cases x)
  then have "plausible tab n v" using Cons.prems by simp
  from tool_line_apply [OF assms(1) this, of mp av a] obtain av2 a2 cs where l:
    "tool_assess_line s mp tab (setting_line (n, v) @ [newline]) (av, a) = Inr (av2, a2)" "ran a2 = ran a @ cs"
    "\<forall>e. find (\<lambda>e. rec_setting e = n) tab = Some e \<and> v \<noteq> [] \<and> isdigit (hd v) \<and> small_third e v
         \<longrightarrow> sysctl_cmd n (quoted e) \<in> set cs" by blast
  from Cons.IH [of av2 a2] Cons.prems obtain av1 a1 cs' where r:
    "tool_assess_lines s mp tab (map (\<lambda>e. setting_line e @ [newline]) es) (av2, a2) = Inr (av1, a1)"
    "ran a1 = ran a2 @ cs'"
    "\<forall>(n, v) \<in> set es. \<forall>e. find (\<lambda>e. rec_setting e = n) tab = Some e \<and> v \<noteq> [] \<and> isdigit (hd v) \<and> small_third e v
         \<longrightarrow> sysctl_cmd n (quoted e) \<in> set cs'" by auto
  show ?case
    using l r by (intro exI [of _ av1] exI [of _ a1] exI [of _ "cs @ cs'"]) (auto simp: x)
qed simp

lemma tool_system_tuning_apply:
  assumes "gApplyDefSysTuning s = CHR ''y''" "\<forall>(n, v) \<in> set es. plausible (fst (tuning_table speed)) n v"
    and "(n, v) \<in> set es" "find (\<lambda>e. rec_setting e = n) (fst (tuning_table speed)) = Some e"
    and "v \<noteq> []" "isdigit (hd v)" "small_third e v"
  shows "\<exists>a1. tool_SystemTuning speed s (Some (listing es)) mp a = Inr (Some a1)
    \<and> sysctl_cmd n (quoted e) \<in> set (ran a1)"
proof -
  obtain tab script where t: "tuning_table speed = (tab, script)" by (cases "tuning_table speed")
  obtain av1 a1 cs where r: "tool_assess_lines s mp tab (map (\<lambda>e. setting_line e @ [newline]) es)
      (False, run_system script a) = Inr (av1, a1)" "ran a1 = ran (run_system script a) @ cs"
    "sysctl_cmd n (quoted e) \<in> set cs"
    using tool_lines_apply [OF assms(1), of es tab mp False "run_system script a"] assms(2-7) t by fastforce
  have "file_lines (listing es) = map (\<lambda>e. setting_line e @ [newline]) es"
    by (rule file_lines_listing [OF assms(2)])
  with r(1) have "tool_SystemTuning speed s (Some (listing es)) mp a =
      Inr (Some (if vModifySysctlFile a1 then (run_system end_mark (run_system ''rm -f /tmp/current_config.orig'' a1))
        \<lparr>vModifySysctlFile := False\<rparr> else run_system ''rm -f /tmp/current_config.orig'' a1))"
    by (simp add: tool_SystemTuning_def t run_system_def)
  with r(2,3) show ?thesis by (auto simp: run_system_def)
qed

text \<open>The module writes a setting only when it wants another value for it.\<close>

lemma table_names_no_equals: "\<forall>e \<in> set (fst (tuning_table speed)). CHR ''='' \<notin> set (rec_setting e)"
  by (simp add: tuning_table_def aTuningNumsToUse10GandUnder_def
      aTuningNumsToUse_Over10GtoUnder100G_def aTuningNumsToUse100Gb_def entry_def)

lemma same_name:
  "CHR ''='' \<notin> set n \<Longrightarrow> CHR ''='' \<notin> set m \<Longrightarrow> starts_with (n @ ''='') (m @ ''='' @ w) \<Longrightarrow> n = m"
proof (induction n arbitrary: m)
  case Nil
  then show ?case by (cases m) auto
next
  case (Cons c n)
  then show ?case by (cases m) auto
qed

lemma kernel_changes_wanted:
  "(n, w) \<in> set (kernel_changes tab mp avail es) \<Longrightarrow> \<exists>v. (n, v) \<in> set es \<and> wanted tab n v = Some w"
proof (induction es arbitrary: avail)
  case (Cons x es)
  obtain m v where x: "x = (m, v)" by (cases x)
  consider "(n, w) \<in> set (kernel_changes tab mp (avail_after tab m v avail) es)" | "m = n" "wanted tab m v = Some w"
    using Cons.prems by (auto simp: x split: option.splits if_splits)
  then show ?case
  proof cases
    case 1
    with Cons.IH show ?thesis by auto
  next
    case 2
    then show ?thesis by (auto simp: x)
  qed
qed simp

lemma written_wanted:
  assumes "carries_out cs (kernel_changes (fst (tuning_table speed)) mp avail es)" "written cs n" "CHR ''='' \<notin> set n"
  shows "\<exists>v w. (n, v) \<in> set es \<and> wanted (fst (tuning_table speed)) n v = Some w"
proof -
  obtain c where c: "c \<in> set cs" "starts_with (''sysctl -w '' @ n @ ''='') c"
    using assms(2) by (auto simp: written_def list_ex_iff)
  then have "is_sysctl c" by (auto simp: is_sysctl_def starts_with_iff)
  with assms(1) c(1) obtain m w where m: "(m, w) \<in> set (kernel_changes (fst (tuning_table speed)) mp avail es)"
    "c = sysctl_cmd m w \<or> c = to_conf (sysctl_cmd m w)"
    by (fastforce simp: carries_out_def)
  then obtain v where v: "(m, v) \<in> set es" "wanted (fst (tuning_table speed)) m v = Some w"
    using kernel_changes_wanted by blast
  then have "CHR ''='' \<notin> set m"
    using table_names_no_equals [of speed] by (auto simp: wanted_def find_Some_iff split: option.splits)
  moreover have "\<exists>x. starts_with (n @ ''='') (m @ ''='' @ x)" using c(2) m(2) by (auto simp: sysctl_cmd_def)
  ultimately have "n = m" using same_name assms(3) by blast
  with v show ?thesis by blast
qed

section \<open>Lemmas: the speeds\<close>

lemma takeWhile_digits: "takeWhile isdigit (show_nat n) = show_nat n"
  using takeWhile_show_nat [of "[]" n] by simp

lemma atoi_show_int: "- (2 ^ 31) \<le> i \<Longrightarrow> i < 2 ^ 31 \<Longrightarrow> atoi (show_int i) = i"
proof (cases "i < 0")
  case True
  assume i: "- (2 ^ 31) \<le> i"
  have "\<not> isspace (CHR ''-'')" by (simp add: isspace_def char_code_def)
  then have "strtol (show_int i) = i" using True i by (simp add: strtol_def show_int_def Let_def takeWhile_digits)
  then show ?thesis using i True by (simp add: atoi_def c_int_id)
next
  case False
  assume "i < 2 ^ 31"
  then show ?thesis using False by (simp add: show_int_def)
qed

definition speed_class :: "int \<Rightarrow> nat" where
  "speed_class v = (if v \<le> 10000 then 0 else if v < 100000 then 1 else 2)"

definition sane_speed :: "int \<Rightarrow> bool" where
  "sane_speed v \<longleftrightarrow> v \<noteq> 0 \<and> - (2 ^ 31) \<le> v \<and> v < 2 ^ 31"

lemma length_show_int_small: "- (2 ^ 31) \<le> i \<Longrightarrow> i < 2 ^ 31 \<Longrightarrow> length (show_int i) \<le> 11"
proof -
  assume "- (2 ^ 31) \<le> i" "i < 2 ^ 31"
  then have "nat (- i) < 10 ^ Suc 9" "nat i < 10 ^ Suc 9" by simp_all
  from this [THEN length_show_nat_le] show ?thesis by (auto simp: show_int_def)
qed

lemma count_speeds_shown:
  assumes "\<forall>v \<in> set ss. sane_speed v"
  shows "count_speeds (map (\<lambda>v. show_int v @ [newline]) ss) n = Inr (fold count_speed ss n)"
  using assms
proof (induction ss arbitrary: n)
  case (Cons v ss)
  then have "copy_line ''sValue'' (show_int v @ [newline]) = Inr (show_int v)" "atoi (show_int v) = v"
    using length_show_int_small [of v] by (auto simp: copy_line_def chomp_def sane_speed_def atoi_show_int)
  with Cons show ?case by simp
qed simp

definition class_count :: "nat \<Rightarrow> int list \<Rightarrow> nat" where
  "class_count c ss = length (filter (\<lambda>v. speed_class v = c) ss)"

lemma fold_count_speed:
  assumes "\<forall>v \<in> set ss. sane_speed v" "tmpSpeed n = Max (insert 0 A)" "finite A"
  shows "tmpSpeed (fold count_speed ss n) = Max (insert 0 (A \<union> set ss))"
    "v10G (fold count_speed ss n) = v10G n + class_count 0 ss"
    "v40G (fold count_speed ss n) = v40G n + class_count 1 ss"
    "v100G (fold count_speed ss n) = v100G n + class_count 2 ss"
proof -
  have "tmpSpeed (fold count_speed ss n) = Max (insert 0 (A \<union> set ss))
    \<and> v10G (fold count_speed ss n) = v10G n + class_count 0 ss
    \<and> v40G (fold count_speed ss n) = v40G n + class_count 1 ss
    \<and> v100G (fold count_speed ss n) = v100G n + class_count 2 ss"
    using assms
  proof (induction ss arbitrary: n A)
    case (Cons v ss)
    have "v \<noteq> 0" using Cons.prems(1) by (simp add: sane_speed_def)
    then have "tmpSpeed (count_speed v n) = max v (tmpSpeed n)" by (simp add: count_speed_def Let_def)
    also have "\<dots> = max v (Max (insert 0 A))" by (simp only: Cons.prems(2))
    also have "\<dots> = Max (insert 0 (insert v A))"
      unfolding insert_commute [of 0 v A] using Cons.prems(3) by (subst Max_insert) simp_all
    finally have m: "tmpSpeed (count_speed v n) = Max (insert 0 (insert v A))" .
    have c: "v10G (count_speed v n) = v10G n + class_count 0 [v]" "v40G (count_speed v n) = v40G n + class_count 1 [v]"
      "v100G (count_speed v n) = v100G n + class_count 2 [v]"
      using Cons.prems(1) by (auto simp: count_speed_def sane_speed_def Let_def class_count_def speed_class_def)
    from Cons.IH [OF _ m] Cons.prems(1,3) c show ?case by (simp add: class_count_def)
  qed (simp add: class_count_def)
  then show "tmpSpeed (fold count_speed ss n) = Max (insert 0 (A \<union> set ss))"
    "v10G (fold count_speed ss n) = v10G n + class_count 0 ss"
    "v40G (fold count_speed ss n) = v40G n + class_count 1 ss"
    "v100G (fold count_speed ss n) = v100G n + class_count 2 ss" by auto
qed

lemma class_count_pos: "class_count c ss \<noteq> 0 \<longleftrightarrow> (\<exists>v \<in> set ss. speed_class v = c)"
  by (auto simp: class_count_def filter_empty_conv)

lemma ask_speed_offered: "ask_speed menu ls = Some v \<Longrightarrow> v \<in> snd ` set menu"
proof (induction ls)
  case (Cons l ls)
  show ?case
  proof (cases "map_of menu (first_char l)")
    case None
    with Cons show ?thesis by simp
  next
    case (Some w)
    with Cons.prems have "(first_char l, v) \<in> set menu" using map_of_SomeD by fastforce
    then have "snd (first_char l, v) \<in> snd ` set menu" by (rule imageI)
    then show ?thesis by simp
  qed
qed simp

text \<open>A menu offers only classes there is a NIC of, and there is one exactly when there are two classes.\<close>

lemma speed_menu_offers:
  assumes "speed_menu n = Some menu" "v \<in> snd ` set menu"
  shows "v \<in> {10000, 40000, 100000} \<and> (speed_class v = 0 \<and> v10G n \<noteq> 0 \<or> speed_class v = 1 \<and> v40G n \<noteq> 0
    \<or> speed_class v = 2 \<and> v100G n \<noteq> 0)"
  using assms by (auto simp: speed_menu_def speed_class_def split: if_splits)

text \<open>Without a menu there is at most one class, with one there are several.\<close>

lemma class_in: "class_count c ss \<noteq> 0 \<longleftrightarrow> c \<in> speed_class ` set ss"
  using class_count_pos by (auto simp: image_iff)

lemma speed_class_cases: "speed_class v \<in> {0, 1, 2}"
  by (simp add: speed_class_def)

lemma menu_several_classes:
  assumes "speed_menu n = Some menu" "v10G n = class_count 0 ss" "v40G n = class_count 1 ss" "v100G n = class_count 2 ss"
  shows "card (speed_class ` set ss) \<noteq> 1"
proof
  assume "card (speed_class ` set ss) = 1"
  then obtain c where "speed_class ` set ss = {c}" by (auto simp: card_1_singleton_iff)
  then have "class_count d ss \<noteq> 0 \<longrightarrow> d = c" for d using class_in [of d ss] by blast
  from this [of 0] this [of 1] this [of 2] assms show False by (auto simp: speed_menu_def split: if_splits)
qed

lemma some_class:
  assumes "ss \<noteq> []" "v10G n = class_count 0 ss" "v40G n = class_count 1 ss" "v100G n = class_count 2 ss"
  shows "v100G n \<noteq> 0 \<or> v40G n \<noteq> 0 \<or> v10G n \<noteq> 0"
proof -
  obtain w ws where "ss = w # ws" using assms(1) by (cases ss) auto
  then have "speed_class w \<in> speed_class ` set ss" by simp
  then have "class_count (speed_class w) ss \<noteq> 0" using class_in by blast
  then show ?thesis using speed_class_cases [of w] by (auto simp: assms)
qed

section \<open>Lemmas: the MTU\<close>

lemma find_maxmtu_line:
  assumes "\<forall>k \<in> set pre. \<not> has_substr k ''maxmtu''" "\<forall>k \<in> set pre. length k < 511" "length l < 511"
    and "strstr l ''maxmtu'' = Some (''maxmtu '' @ show_nat n @ r)" "r = [] \<or> \<not> isdigit (hd r)" "n < 2 ^ 31"
  shows "find_maxmtu (map (\<lambda>l. l @ [newline]) (pre @ l # post)) = Inr (show_nat n)"
  using assms(1,2)
proof (induction pre)
  case Nil
  obtain d ds where d: "show_nat n = d # ds" "isdigit d"
    using hd_show_nat [of n] by (cases "show_nat n") auto
  then have "\<not> isblank d" by (auto simp: isblank_def isdigit_def)
  then have "dropWhile isblank ('' '' @ show_nat n @ r) = show_nat n @ r"
    using d by (simp add: isblank_def char_code_def)
  moreover have "length (show_nat n) \<le> 10" using assms(6) length_show_nat_le [of n 9] by simp
  ultimately show ?case
    using assms(3,4) takeWhile_show_nat [OF assms(5), of n] by (simp add: chomp_def Let_def)
next
  case (Cons k pre)
  then show ?case by (simp add: chomp_def has_substr_def)
qed

lemma fault_now: "\<not> is_ok r \<Longrightarrow> \<not> is_ok (bindE r f)"
  by (cases r) auto

lemma fault_later: "(\<And>x. \<not> is_ok (f x)) \<Longrightarrow> \<not> is_ok (bindE r f)"
  by (cases r) auto

section \<open>Properties\<close>

text \<open>The tool and the module read the same configuration alike.  From any file of well-formed lines both
  come to the same five settings, although the module knows nine more and cuts values at 31
  characters.\<close>

theorem tool_config_agrees:
  assumes "\<forall>e \<in> set es. entry_ok e"
  shows "\<exists>t m. tool_UserCfgValues (Some (config_file es)) initial_settings = Inr t
    \<and> fDoGetUserCfgValues (Some (config_file es)) initial_settings = Inr m
    \<and> (cfg_tuning_mode t, gApplyDefSysTuning t, gApplyBiosTuning t, gApplyNicTuning t, gMakeTuningPermanent t)
      = (cfg_tuning_mode m, gApplyDefSysTuning m, gApplyBiosTuning m, gApplyNicTuning m, gMakeTuningPermanent m)"
proof -
  define tc mc where "tc = tool_meant es unset" and "mc = meant es unset"
  have s: "tc k = mc k" if "k \<in> set tool_names" for k
    unfolding tc_def mc_def using that by (rule tool_meant_same) simp
  have t: "tool_UserCfgValues (Some (config_file es)) initial_settings =
      Inr (fold (\<lambda>name. tool_use_value name (tc name)) tool_names initial_settings)"
    using tool_read_lines_entries [OF assms] by (simp add: tool_UserCfgValues_def file_lines_config [OF assms] tc_def)
  have m: "fDoGetUserCfgValues (Some (config_file es)) initial_settings = Inr (use_values mc initial_settings)"
    using read_cfg_lines_entries [OF assms] by (simp add: fDoGetUserCfgValues_def file_lines_config [OF assms] mc_def)
  show ?thesis
    unfolding t m using s
    by (simp add: tool_names_def tool_known_def use_values_def known_settings_def tool_use_value_five use_value_five)
qed

text \<open>C30: The tool does the work of the module.  On any list of settings on which no setting with three values
  has a first value above the recommended one, the two end in the same way: with the same fault, or
  with the same commands run and the same ones saved for the menu.\<close>

theorem tool_agrees:
  assumes "\<forall>l \<in> set (file_lines t). \<not> high_first (fst (tuning_table speed)) l"
  shows "rel_sum (=) (rel_option same_work)
    (tool_SystemTuning speed s (Some t) mp a) (fDoSystemTuning speed s (Some t) mp a)"
proof -
  obtain tab script where t: "tuning_table speed = (tab, script)" by (cases "tuning_table speed")
  have "same_result same_state (tool_assess_lines s mp tab (file_lines t) (False, run_system script a))
      (assess_lines s mp tab (file_lines t) (False, run_system script a))"
    using assms t by (intro assess_lines_same) simp_all
  then show ?thesis
    unfolding tool_SystemTuning_def fDoSystemTuning_def t Let_def prod.case option.case
    by (rule same_result_bind) (auto simp: same_work_def run_system_def)
qed


text \<open>C32: The tool keeps to the NIC's limit.  For an MTU \<open>m\<close> and a report of \<open>ip\<close> with \<open>maxmtu n\<close>, it asks for
  9200 exactly when \<open>m\<close> is below that and \<open>n\<close> is not; the module asks whatever \<open>n\<close> is.\<close>

theorem mtu_within_maximum:
  assumes "\<forall>k \<in> set (pre @ l # post). newline \<notin> set k" "\<forall>k \<in> set pre. \<not> has_substr k ''maxmtu'' \<and> length k < 511"
    and "length l < 511" "strstr l ''maxmtu'' = Some (''maxmtu '' @ show_nat n @ r)" "r = [] \<or> \<not> isdigit (hd r)"
    and "n < 2 ^ 31" "0 < m" "m < 2 ^ 31" "gApplyNicTuning s = CHR ''y''"
    and "c = ''sudo ip link set dev '' @ dev @ '' mtu 9200''"
  shows "\<exists>a1 cs b1 ds. tool_MTU s dev (Some (show_nat m @ [newline])) (unlines (pre @ l # post)) True a = Inr a1
    \<and> ran a1 = ran a @ cs \<and> (c \<in> set cs) = (m < 9200 \<and> 9200 \<le> n)
    \<and> fDoMTU s dev (Some (show_nat m @ [newline])) a = Inr b1
    \<and> ran b1 = ran a @ ds \<and> (c \<in> set ds) = (m < 9200)"
proof -
  let ?out = "show_nat m @ [newline]" and ?links = "unlines (pre @ l # post)"
  have fl: "file_lines ?links = map (\<lambda>l. l @ [newline]) (pre @ l # post)"
    by (rule file_lines_unlines [OF assms(1)])
  have ne: "?links \<noteq> []" by (cases pre) simp_all
  have "file_lines (unlines [show_nat m]) = map (\<lambda>l. l @ [newline]) [show_nat m]"
    by (rule file_lines_unlines) simp
  then have fm: "file_lines ?out = [show_nat m @ [newline]]" by simp
  have "length (show_nat m) \<le> 10" using assms(8) length_show_nat_le [of m 9] by simp
  then have cm: "copy_line ''sValue'' (show_nat m @ [newline]) = Inr (show_nat m)" "atoi (show_nat m) = int m"
    using assms(8) by (simp_all add: copy_line_def chomp_def)
  have f: "find_maxmtu (file_lines ?links) = Inr (show_nat n)" "atoi (show_nat n) = int n"
    unfolding fl using find_maxmtu_line [OF _ _ assms(3-6), of pre post] assms(2,6) by simp_all
  have c: "c \<noteq> ''cat /sys/class/net/'' @ dev @ ''/mtu  > /tmp/NIC.cfgfile''" "c \<noteq> rm_nic" "c \<noteq> rm_nic2"
    "c \<noteq> ''ip -d link list '' @ dev @ '' > /tmp/NIC.cfgfile2 2>/dev/null''" by (simp_all add: assms(10))
  show ?thesis
    using ne c f cm assms(7,9)
    by (cases "m < 9200"; cases "9200 \<le> n")
      (simp_all add: tool_MTU_def fDoMTU_def mtu_allowed_def fm apply_nic_def run_system_def assms(10) Let_def)
qed


text \<open>On a device of 100 Gb/s whose driver does not list large receive offload the tool never ends
  normally: whatever else it finds, the pointer of a file that was not opened is closed before the
  files for the menu are written.\<close>

theorem missing_lro_faults:
  assumes "length argv = 2" "exists (argv ! 1)" "tf_speed tf = Some (show_nat k @ [newline])"
    and "100000 \<le> k" "k < 2 ^ 31" "tf_settings tf \<noteq> None" "tf_lro tf = []"
  shows "\<not> is_ok (tool_main argv exists tf input files)"
proof -
  have nic: "\<not> is_ok (tool_NicTuning (int k) s dev tf a)" for s dev a
  proof -
    have "\<not> is_ok (bindE (tool_LRO s dev (tf_lro tf) (tf_lro_fixed tf) (tf_opens tf) a2) f)"
      for a2 and f :: "assessment \<Rightarrow> c_fault + assessment"
      by (simp add: tool_LRO_def assms(7))
    then show ?thesis using assms(4) unfolding tool_NicTuning_def by (rule_tac fault_later, rule_tac fault_later, simp)
  qed
  have settings: "tool_SystemTuning speed s (tf_settings tf) mp a \<noteq> Inr None" for speed s mp a
    using assms(6) by (cases "tool_assess_lines s mp (fst (tuning_table speed)) (file_lines (the (tf_settings tf)))
        (False, run_system (snd (tuning_table speed)) a)")
      (auto simp: tool_SystemTuning_def Let_def split: prod.split)
  have "length (show_nat k) \<le> 10" using assms(5) length_show_nat_le [of k 9] by simp
  moreover have "file_lines (show_nat k @ [newline]) = [show_nat k @ [newline]]"
    using file_lines_unlines [of "[show_nat k]"] by simp
  ultimately have "fDoGetDeviceCap (tf_speed tf) 0 = Inr (int k)"
    using assms(4,5) by (simp add: fDoGetDeviceCap_def assms(3) Let_def)
  moreover have "int k sdiv 1000 \<noteq> 0" using assms(4) by (simp add: signed_divide_int_def)
  ultimately have dev: "tool_device argv exists tf input = Inr (Inr (int k))
      \<or> \<not> is_ok (tool_device argv exists tf input)"
    using assms(1,2) by (simp add: tool_device_def Let_def)
  have rest: "\<not> is_ok (bindE (tool_BiosTuning s g c i p a1) (\<lambda>a2.
      bindE (if length argv = 2 then tool_NicTuning (int k) s (argv ! 1) tf a2 else Inr a2) (\<lambda>a3.
        Inr (0 :: int, a3, write_menus w a3 files))))" for s g c i p w a1
    by (rule fault_later, rule fault_now) (simp add: nic assms(1))
  from dev show ?thesis
  proof
    assume d: "tool_device argv exists tf input = Inr (Inr (int k))"
    show ?thesis
      unfolding tool_main_def d bindE_simps sum.case
    proof (rule fault_later, rule fault_later)
      fix s numa
      show "\<not> is_ok (bindE (tool_SystemTuning (int k) s (tf_settings tf) (tf_modprobe tf) initial_assessment)
        (\<lambda>r1. case r1 of None \<Rightarrow> Inr (- 2 :: int, run_system (snd (tuning_table (int k))) initial_assessment, files)
         | Some a1 \<Rightarrow> bindE (tool_BiosTuning s (tf_governor tf) (tf_cpupower tf) (tf_irqbalance tf) (tf_opens tf) a1)
             (\<lambda>a2. bindE (if length argv = 2 then tool_NicTuning (int k) s (argv ! 1) tf a2 else Inr a2)
               (\<lambda>a3. Inr (0, a3, write_menus (tf_writable tf) a3 files)))))"
      proof (cases "tool_SystemTuning (int k) s (tf_settings tf) (tf_modprobe tf) initial_assessment")
        case (Inr r1)
        with settings obtain a1 where "r1 = Some a1" by (cases r1) auto
        show ?thesis unfolding Inr \<open>r1 = Some a1\<close> bindE_simps option.case by (rule rest)
      qed simp
    qed
  next
    assume "\<not> is_ok (tool_device argv exists tf input)"
    then show ?thesis unfolding tool_main_def by (rule fault_now)
  qed
qed

text \<open>Concrete runs.\<close>

theorem tool_config_agrees_witness:
  "\<exists>t m. tool_UserCfgValues (Some (config_file two_ports)) initial_settings = Inr t
    \<and> fDoGetUserCfgValues (Some (config_file two_ports)) initial_settings = Inr m
    \<and> gApplyNicTuning t = gApplyNicTuning m"
  using tool_config_agrees [OF two_ports_ok] by auto

theorem tool_agrees_witness:
  "rel_sum (=) (rel_option same_work)
    (tool_SystemTuning 40000 apply_settings (Some (listing [(''net.core.rmem_max'', ''212992'')])) None initial_assessment)
    (fDoSystemTuning 40000 apply_settings (Some (listing [(''net.core.rmem_max'', ''212992'')])) None initial_assessment)"
proof (rule tool_agrees)
  have p: "\<forall>(n, v) \<in> set [(''net.core.rmem_max'', ''212992'')]. plausible (fst (tuning_table 40000)) n v"
    using default_host_plausible by (simp add: default_host_def)
  have "read_setting (setting_line (''net.core.rmem_max'', ''212992'') @ [newline]) =
      Inr (''net.core.rmem_max'', '' = '' @ ''212992'' @ [newline])"
    by (rule read_setting_line) simp_all
  then show "\<forall>l \<in> set (file_lines (listing [(''net.core.rmem_max'', ''212992'')])).
      \<not> high_first (fst (tuning_table 40000)) l"
    unfolding file_lines_listing [OF p]
    by (simp add: high_first_def tuning_table_def aTuningNumsToUse_Over10GtoUnder100G_def entry_def split: sum.split)
qed

definition roomy_host :: "(string \<times> string) list" where
  "roomy_host = [(''net.ipv4.tcp_rmem'', ''8192 131072 6291456'')]"


definition apply_nic_settings :: user_settings where
  "apply_nic_settings = initial_settings\<lparr>gApplyNicTuning := CHR ''y''\<rparr>"

theorem mtu_within_maximum_witness:
  "\<exists>a1 cs b1 ds. tool_MTU apply_nic_settings ''eth0'' (Some (show_nat 1500 @ [newline]))
      (unlines [''eth0: mtu 1500'', ''minmtu 68 maxmtu '' @ show_nat 1500]) True initial_assessment = Inr a1
    \<and> ran a1 = ran initial_assessment @ cs \<and> ''sudo ip link set dev eth0 mtu 9200'' \<notin> set cs
    \<and> fDoMTU apply_nic_settings ''eth0'' (Some (show_nat 1500 @ [newline])) initial_assessment = Inr b1
    \<and> ran b1 = ran initial_assessment @ ds \<and> ''sudo ip link set dev eth0 mtu 9200'' \<in> set ds"
proof -
  let ?l = "''minmtu 68 maxmtu '' @ show_nat 1500"
  have n: "show_nat 1500 = ''1500''" by (simp add: show_nat.simps digit_char_def)
  have 1: "\<forall>k \<in> set ([''eth0: mtu 1500''] @ ?l # []). newline \<notin> set k" "length ?l < 511" by (simp_all add: n)
  have "\<not> has_substr ''eth0: mtu 1500'' ''maxmtu''" by (simp add: has_substr_def)
  then have 4: "\<forall>k \<in> set [''eth0: mtu 1500'']. \<not> has_substr k ''maxmtu'' \<and> length k < 511" by simp
  have 5: "strstr ?l ''maxmtu'' = Some (''maxmtu '' @ show_nat 1500 @ [])" by simp
  have 2: "gApplyNicTuning apply_nic_settings = CHR ''y''" by (simp add: apply_nic_settings_def)
  have 3: "[] = ([] :: string) \<or> \<not> isdigit (hd [])" "(1500 :: nat) < 2 ^ 31" "0 < (1500 :: nat)" by simp_all
  have "(1500 :: nat) < 9200" "\<not> 9200 \<le> (1500 :: nat)" by simp_all
  then show ?thesis
    using mtu_within_maximum [OF 1(1) 4 1(2) 5 3(1,2,3,2) 2 refl, of "''eth0''" initial_assessment]
    by (simp only: append_Cons append_Nil simp_thms)
qed


definition no_lro_files :: tool_files where
  "no_lro_files = \<lparr>tf_speeds = None, tf_speed = Some (show_nat 100000 @ [newline]), tf_config = None, tf_numa = None,
     tf_settings = Some [], tf_modprobe = None, tf_governor = [], tf_cpupower = [], tf_irqbalance = [],
     tf_txqueuelen = None, tf_ring = [], tf_lro = [], tf_lro_fixed = [], tf_mtu = None, tf_links = [],
     tf_opens = True, tf_opens2 = True, tf_writable = (\<lambda>_. True)\<rparr>"

theorem missing_lro_faults_witness:
  "\<not> is_ok (tool_main [''dtn_tune'', ''eth0''] (\<lambda>_. True) no_lro_files [] (\<lambda>_. None))"
  using missing_lro_faults [of "[''dtn_tune'', ''eth0'']" "\<lambda>_. True" no_lro_files 100000 "[]" "\<lambda>_. None"]
  by (simp add: no_lro_files_def)

end
