(* ===== verification/Link_Watch.thy ===== *)
theory Link_Watch
  imports App_Traffic
begin

text \<open>
  The threads that watch a transfer from the source DTN (\<open>src/userspace/user_dtn.c\<close>):
  \<open>doRunFindRetransmissionRate\<close> counts retransmissions from \<open>/sys/fs/bpf/tcp4\<close> and publishes
  \<open>vGlobalRetransmissionRate\<close>, which the pacing control reads; \<open>fDoRunFindHighestRtt\<close> compares the
  round trip times of \<open>bpftrace\<close> and \<open>ping\<close>, with \<open>fDoCpuMonitoring\<close> and \<open>fDoCheckSoftirqd\<close>.  What the
  commands print is an argument; \<open>None\<close> is a \<open>popen\<close> that failed.
\<close>

section \<open>Retransmissions\<close>

definition NUM_RATES_TO_USE :: nat where "NUM_RATES_TO_USE = 10"

text \<open>The digits at the start of \<open>s\<close>, copied into \<open>aValue[32]\<close>, and the rest.\<close>

definition copy_digits :: "string \<Rightarrow> c_fault + (string \<times> string)" where
  "copy_digits s =
    (let ds = takeWhile isdigit s in
     if 32 \<le> length ds then Inl (Buffer_Overflow ''aValue'' (length ds + 1))
     else Inr (ds, dropWhile isdigit s))"

text \<open>A line of the file adds to whether a connection was found, and to the retransmissions and
  packets.  Moving on past the terminating NUL reads what an earlier line left in the buffer; the
  model stops there with a fault.\<close>

definition count_line ::
  "string \<Rightarrow> string \<Rightarrow> bool \<times> u64 \<times> u64 \<Rightarrow> c_fault + (bool \<times> u64 \<times> u64)" where
  "count_line dest_binary buffer acc =
    (case strstr buffer dest_binary of None \<Rightarrow> Inr acc
     | Some f1 \<Rightarrow> (case strstr f1 ''totrt'' of None \<Rightarrow> Inr acc
     | Some f2 \<Rightarrow>
       if length f2 < 6 then Inl (Unterminated ''buffer'')
       else bindE (copy_digits (drop 6 f2)) (\<lambda>(ds, r).
         if ds = [] then Inr acc
         else if r = [] then Inl (Unterminated ''buffer'')
         else bindE (copy_digits (tl r)) (\<lambda>(ps, _).
           let (found, tot, sent) = acc
           in Inr (True, tot + strtoul ds, if ps = [] then sent else sent + strtoul ps)))))"

fun count_lines :: "string \<Rightarrow> string list \<Rightarrow> bool \<times> u64 \<times> u64 \<Rightarrow> c_fault + (bool \<times> u64 \<times> u64)" where
  "count_lines dest_binary [] acc = Inr acc"
| "count_lines dest_binary (b # bs) acc =
    bindE (count_line dest_binary b acc) (count_lines dest_binary bs)"

text \<open>What the thread keeps between rounds.  The arrays of the last rates start uninitialised; the two
  rates that are only printed are left out.\<close>

record retran =
  prev_total_retrans :: u64   \<comment> \<open>\<open>int_total_retrans\<close> between rounds\<close>
  prev_packets_sent :: u64    \<comment> \<open>\<open>int_packets_sent\<close> between rounds\<close>
  aSaveIntRetrans :: "u64 list"
  aSaveIntPackets :: "u64 list"
  rate_count :: nat           \<comment> \<open>\<open>vRateCount\<close>\<close>
  rate_array_done :: bool     \<comment> \<open>\<open>fRateArrayDone\<close>\<close>
  global_rate :: double       \<comment> \<open>\<open>vGlobalRetransmissionRate\<close>\<close>

definition save_interval :: "u64 \<Rightarrow> u64 \<Rightarrow> retran \<Rightarrow> retran" where
  "save_interval rt pk s =
    (if rate_count s < NUM_RATES_TO_USE
     then s\<lparr>aSaveIntRetrans := (aSaveIntRetrans s)[rate_count s := rt],
            aSaveIntPackets := (aSaveIntPackets s)[rate_count s := pk], rate_count := rate_count s + 1\<rparr>
     else s\<lparr>rate_array_done := True, aSaveIntRetrans := (aSaveIntRetrans s)[0 := rt],
            aSaveIntPackets := (aSaveIntPackets s)[0 := pk], rate_count := 1\<rparr>)"

definition average_rate :: "retran \<Rightarrow> double" where
  "average_rate s =
    (let n = (if rate_array_done s then NUM_RATES_TO_USE else rate_count s);
         rt = sum_list (take n (aSaveIntRetrans s)); pk = sum_list (take n (aSaveIntPackets s))
     in if pk \<noteq> 0
        then ddiv (dmul (ddiv (dint (uint rt)) (dint (uint pk))) 100) (dint (int n))
        else 0)"

definition note_counts :: "bool \<times> u64 \<times> u64 \<Rightarrow> retran \<Rightarrow> retran" where
  "note_counts counts s =
    (case counts of (found, tot, sent) \<Rightarrow>
     if found
     then (let (rt, pk) = (if prev_packets_sent s < sent
                           then (tot - prev_total_retrans s, sent - prev_packets_sent s) else (0, 0));
               s1 = save_interval rt pk s
           in s1\<lparr>global_rate := average_rate s1, prev_packets_sent := sent, prev_total_retrans := tot\<rparr>)
     else s\<lparr>prev_total_retrans := 0, prev_packets_sent := 0, rate_count := 0, rate_array_done := False\<rparr>)"

text \<open>A round; \<open>None\<close>: the thread ends.\<close>

definition retransmission_round :: "string \<Rightarrow> string option \<Rightarrow> retran \<Rightarrow> c_fault + retran option" where
  "retransmission_round dest_binary out s =
    (case out of None \<Rightarrow> Inr None
     | Some t \<Rightarrow> bindE (count_lines dest_binary (read_lines 256 t) (False, 0, 0))
         (\<lambda>counts. Inr (Some (note_counts counts s))))"

section \<open>Round trip times\<close>

text \<open>\<open>sscanf(buffer, "%lu", &rtt)\<close> into a \<open>long\<close> that keeps its value when there is no number.\<close>

fun highest_rtt :: "string list \<Rightarrow> int \<Rightarrow> int \<Rightarrow> int" where
  "highest_rtt [] rtt highest = highest"
| "highest_rtt (b # bs) rtt highest =
    (let rtt1 = (case scan_lu b of None \<Rightarrow> rtt | Some (v, _) \<Rightarrow> sint v)
     in highest_rtt bs rtt1 (if highest < rtt1 then rtt1 else highest))"

definition rtts_differ :: "int \<Rightarrow> double \<Rightarrow> double \<Rightarrow> double \<Rightarrow> bool" where
  "rtts_differ rtt_factor rtt_threshold from_ping from_bpftrace \<longleftrightarrow> from_ping \<noteq> 0
     \<and> (rtt_threshold < from_ping \<or> rtt_threshold < from_bpftrace)
     \<and> (dmul (dint rtt_factor) from_ping \<le> from_bpftrace
        \<or> dmul (dint rtt_factor) from_bpftrace \<le> from_ping)"

record rtt_watch =
  vLastIpPinged :: nat
  highest_rtt_from_ping :: double
  highest_rtt_from_bpftrace :: double
  now_time :: time_t
  last_time :: time_t
  cpumon_last_time :: time_t
  ksoftmsg_last_time :: time_t
  nompstat :: bool
  rtt_warnings :: "(double \<times> double) list"

record rtt_env =
  we_debug :: int
  we_previous_average :: double
  we_kafka :: bool
  we_factor :: int
  we_threshold :: double
  we_ping :: "string \<Rightarrow> string option"
  we_bpftrace :: "string option"
  we_mpstat :: "string option"
  we_times :: "time_t \<times> time_t \<times> time_t"  \<comment> \<open>the clock at the three places that look at it\<close>

text \<open>\<open>fDoCpuMonitoring\<close> copies lines of \<open>mpstat\<close> to the log; what it keeps is that \<open>mpstat\<close> does not
  work, when no line after the first two has the averages.\<close>

definition fDoCpuMonitoring :: "string option \<Rightarrow> bool \<Rightarrow> bool" where
  "fDoCpuMonitoring out no_mpstat =
    (if no_mpstat then True
     else (case out of None \<Rightarrow> False
           | Some s \<Rightarrow> \<not> (\<exists>b \<in> set (drop 2 (read_lines 128 s)). has_substr b ''Average'')))"

definition ping_next :: "rtt_env \<Rightarrow> ip_tables \<Rightarrow> rtt_watch \<Rightarrow> c_fault + rtt_watch" where
  "ping_next env t s =
    (if vIamASrcDtn t \<and> \<not> we_kafka env
     then (case next_dest (aDest_Dtn_IPs t) (vLastIpPinged s) of
        (None, nxt) \<Rightarrow> Inr (s\<lparr>vLastIpPinged := nxt, highest_rtt_from_ping := 0\<rparr>)
      | (Some i, nxt) \<Rightarrow>
          (let addr = dip_Ip2 (aDest_Dtn_IPs t ! i) in
           bindE (fFindRttUsingPing addr (we_ping env addr))
             (\<lambda>r. Inr (s\<lparr>vLastIpPinged := nxt, highest_rtt_from_ping := r\<rparr>))))
     else if we_kafka env \<and> aDest_Ip2 t \<noteq> []
     then bindE (fFindRttUsingPing (aDest_Ip2 t) (we_ping env (aDest_Ip2 t)))
            (\<lambda>r. Inr (s\<lparr>highest_rtt_from_ping := r\<rparr>))
     else Inr s)"

definition monitor_cpu :: "rtt_env \<Rightarrow> rtt_watch \<Rightarrow> rtt_watch" where
  "monitor_cpu env s =
    (if 2 < we_debug env
     then (let t = fst (we_times env); s1 = s\<lparr>now_time := t\<rparr> in
           if 10 < t - cpumon_last_time s1
           then s1\<lparr>nompstat := fDoCpuMonitoring (we_mpstat env) (nompstat s1), cpumon_last_time := t\<rparr>
           else s1)
     else s)"

definition warn_rtt :: "rtt_env \<Rightarrow> rtt_watch \<Rightarrow> rtt_watch" where
  "warn_rtt env s =
    (if 0 < we_debug env
     then (let t = fst (snd (we_times env)); w = (highest_rtt_from_bpftrace s, highest_rtt_from_ping s) in
           if now_time s = 0
           then s\<lparr>now_time := t, last_time := t, rtt_warnings := rtt_warnings s @ [w]\<rparr>
           else if 30 < t - last_time s
           then s\<lparr>now_time := t, last_time := t, rtt_warnings := rtt_warnings s @ [w]\<rparr>
           else s\<lparr>now_time := t\<rparr>)
     else s)"

definition note_rtt :: "rtt_env \<Rightarrow> int \<Rightarrow> rtt_watch \<Rightarrow> rtt_watch" where
  "note_rtt env highest s =
    (if highest \<noteq> 0
     then (let s1 = s\<lparr>highest_rtt_from_bpftrace := ddiv (dint highest) 1000\<rparr> in
           if rtts_differ (we_factor env) (we_threshold env) (highest_rtt_from_ping s1)
                (highest_rtt_from_bpftrace s1)
           then warn_rtt env s1 else s1)
     else s)"

definition skip_rtt :: "rtt_env \<Rightarrow> rtt_watch \<Rightarrow> rtt_watch" where
  "skip_rtt env s =
    (if 0 < we_debug env
     then (let t = snd (snd (we_times env)); s1 = s\<lparr>now_time := t\<rparr> in
           if 10 < t - ksoftmsg_last_time s1 then s1\<lparr>ksoftmsg_last_time := t\<rparr> else s1)
     else s)"

text \<open>A round of \<open>fDoRunFindHighestRtt\<close>; \<open>None\<close>: the thread ends.\<close>

definition rtt_round :: "rtt_env \<Rightarrow> ip_tables \<Rightarrow> rtt_watch \<Rightarrow> c_fault + rtt_watch option" where
  "rtt_round env t s =
    bindE (if we_previous_average env \<noteq> 0
           then bindE (ping_next env t s) (\<lambda>s1. Inr (monitor_cpu env s1)) else Inr s)
      (\<lambda>s1.
        if \<not> vIamASrcDtn t \<and> \<not> we_kafka env then Inr (Some (skip_rtt env s1))
        else (case we_bpftrace env of None \<Rightarrow> Inr None
        | Some out \<Rightarrow> (case fgets 128 out of None \<Rightarrow> Inr None
        | Some (_, r, _) \<Rightarrow>
            Inr (Some (skip_rtt env (note_rtt env (highest_rtt (read_lines 128 r) 0 0) s1))))))"

section \<open>Lemmas: the window of intervals\<close>

text \<open>The arrays hold a ring of the last ten intervals; unrolled at the write position they are in
  order.\<close>

definition last_ten :: "'a list \<Rightarrow> 'a list" where
  "last_ten xs = drop (length xs - 10) xs"

definition ring_holds :: "'a list \<Rightarrow> nat \<Rightarrow> bool \<Rightarrow> 'a list \<Rightarrow> bool" where
  "ring_holds arr n full xs \<longleftrightarrow> length arr = 10 \<and> n \<le> 10
     \<and> (if full then 10 \<le> length xs \<and> 0 < n \<and> drop n arr @ take n arr = last_ten xs
        else n = length xs \<and> take n arr = xs)"

lemma last_ten_snoc: "10 \<le> length xs \<Longrightarrow> last_ten (xs @ [x]) = tl (last_ten xs) @ [x]"
proof -
  assume "10 \<le> length xs"
  then have "Suc (length xs) - 10 = Suc (length xs - 10)" "Suc (length xs - 10) \<le> length xs" by auto
  moreover have "drop (Suc k) xs = tl (drop k xs)" for k by (simp only: drop_Suc tl_drop)
  ultimately show ?thesis by (simp add: last_ten_def)
qed

lemma ring_holds_snoc:
  assumes "ring_holds arr n full xs"
  shows "if n < 10 then ring_holds (arr[n := x]) (n + 1) full (xs @ [x])
         else ring_holds (arr[0 := x]) 1 True (xs @ [x])"
proof (cases "n < 10")
  case True
  show ?thesis
  proof (cases full)
    case True
    have l: "n < length arr" "10 \<le> length xs" "drop n arr @ take n arr = last_ten xs"
      using assms True \<open>n < 10\<close> by (auto simp: ring_holds_def)
    have "drop n arr = arr ! n # drop (Suc n) arr" using l(1) by (simp add: Cons_nth_drop_Suc)
    with l(3) have "tl (last_ten xs) = drop (Suc n) arr @ take n arr" by (metis append_Cons list.sel(3))
    with l(1,2) assms True \<open>n < 10\<close> show ?thesis
      by (simp add: ring_holds_def last_ten_snoc take_Suc_conv_app_nth)
  next
    case False
    with assms \<open>n < 10\<close> show ?thesis
      by (auto simp: ring_holds_def take_Suc_conv_app_nth)
  qed
next
  case False
  then have n: "n = 10" "length arr = 10" using assms by (auto simp: ring_holds_def)
  have "arr = last_ten xs" "10 \<le> length xs"
    using assms n by (auto simp: ring_holds_def last_ten_def split: if_splits)
  moreover obtain a as where a: "last_ten xs = a # as"
    using n(2) \<open>arr = last_ten xs\<close> by (cases "last_ten xs") auto
  ultimately show ?thesis using n last_ten_snoc [of xs x] by (auto simp: ring_holds_def)
qed

text \<open>The counts of a series of rounds that each found the destination, and their differences.\<close>

definition note_samples :: "(u64 \<times> u64) list \<Rightarrow> retran \<Rightarrow> retran" where
  "note_samples ss s = foldl (\<lambda>s c. note_counts (True, c) s) s ss"

fun intervals :: "u64 \<times> u64 \<Rightarrow> (u64 \<times> u64) list \<Rightarrow> (u64 \<times> u64) list" where
  "intervals prev [] = []"
| "intervals prev (c # cs) = (fst c - fst prev, snd c - snd prev) # intervals c cs"

definition fresh :: "retran \<Rightarrow> bool" where
  "fresh s \<longleftrightarrow> prev_total_retrans s = 0 \<and> prev_packets_sent s = 0 \<and> rate_count s = 0
     \<and> \<not> rate_array_done s \<and> length (aSaveIntRetrans s) = 10 \<and> length (aSaveIntPackets s) = 10"

lemma length_intervals [simp]: "length (intervals prev cs) = length cs"
  by (induction cs arbitrary: prev) auto

lemma intervals_append: "intervals prev (as @ bs) = intervals prev as @ intervals (last (prev # as)) bs"
  by (induction as arbitrary: prev) auto

lemma sum_intervals:
  "sum_list (map fst (intervals prev cs)) = fst (last (prev # cs)) - fst prev"
  "sum_list (map snd (intervals prev cs)) = snd (last (prev # cs)) - snd prev"
  by (induction cs arbitrary: prev) auto

lemma last_ten_intervals:
  "last_ten (map f (intervals prev cs)) =
     map f (intervals (last (prev # take (length cs - 10) cs)) (drop (length cs - 10) cs))"
proof -
  have "intervals prev cs = intervals prev (take (length cs - 10) cs)
      @ intervals (last (prev # take (length cs - 10) cs)) (drop (length cs - 10) cs)"
    by (subst intervals_append [symmetric]) simp
  then show ?thesis by (simp add: last_ten_def drop_map [symmetric])
qed

definition holds_intervals :: "retran \<Rightarrow> (u64 \<times> u64) list \<Rightarrow> bool" where
  "holds_intervals s cs \<longleftrightarrow>
     (prev_total_retrans s, prev_packets_sent s) = last ((0, 0) # cs)
     \<and> ring_holds (aSaveIntRetrans s) (rate_count s) (rate_array_done s) (map fst (intervals (0, 0) cs))
     \<and> ring_holds (aSaveIntPackets s) (rate_count s) (rate_array_done s) (map snd (intervals (0, 0) cs))"

lemma note_counts_holds:
  assumes "holds_intervals s cs" "snd (last ((0, 0) # cs)) < snd c"
  shows "holds_intervals (note_counts (True, c) s) (cs @ [c])"
    "global_rate (note_counts (True, c) s) = average_rate (note_counts (True, c) s)"
proof -
  obtain rt pk where c: "c = (rt, pk)" by (cases c)
  let ?l = "last ((0, 0) # cs)" and ?ix = "intervals (0, 0) cs"
  have l: "prev_total_retrans s = fst ?l" "prev_packets_sent s = snd ?l"
    and r: "ring_holds (aSaveIntRetrans s) (rate_count s) (rate_array_done s) (map fst ?ix)"
      "ring_holds (aSaveIntPackets s) (rate_count s) (rate_array_done s) (map snd ?ix)"
    using assms(1) by (auto simp: holds_intervals_def prod_eq_iff)
  have ix: "intervals (0, 0) (cs @ [c]) = ?ix @ [(rt - fst ?l, pk - snd ?l)]"
    by (simp only: intervals_append intervals.simps c fst_conv snd_conv)
  have s: "note_counts (True, c) s = (let s1 = save_interval (rt - fst ?l) (pk - snd ?l) s
      in s1\<lparr>global_rate := average_rate s1, prev_packets_sent := pk, prev_total_retrans := rt\<rparr>)"
    using assms(2) by (simp add: note_counts_def c l del: last.simps)
  show "global_rate (note_counts (True, c) s) = average_rate (note_counts (True, c) s)"
    by (simp add: s average_rate_def Let_def)
  have "last ((0, 0) # cs @ [(rt, pk)]) = (rt, pk)" by simp
  then show "holds_intervals (note_counts (True, c) s) (cs @ [c])"
    using ring_holds_snoc [OF r(1), of "rt - fst ?l"] ring_holds_snoc [OF r(2), of "pk - snd ?l"]
    unfolding s holds_intervals_def ix
    by (simp add: c save_interval_def NUM_RATES_TO_USE_def Let_def del: last.simps split: if_splits)
qed

lemma note_samples_hold:
  assumes "fresh s" "cs \<noteq> []" "sorted_wrt (<) (0 # map snd cs)"
  shows "holds_intervals (note_samples cs s) cs
    \<and> global_rate (note_samples cs s) = average_rate (note_samples cs s)"
  using assms(2,3)
proof (induction cs rule: rev_induct)
  case (snoc c cs)
  have "snd (last ((0, 0) # cs)) < snd c"
    using snoc.prems(2) by (cases "cs = []") (auto simp: sorted_wrt_append)
  moreover have "holds_intervals (note_samples cs s) cs"
  proof (cases "cs = []")
    case True
    then show ?thesis using assms(1)
      by (simp add: holds_intervals_def note_samples_def fresh_def ring_holds_def)
  next
    case False
    with snoc show ?thesis by (auto simp: sorted_wrt_append)
  qed
  ultimately show ?case
    using note_counts_holds [of "note_samples cs s" cs c] by (simp add: note_samples_def)
qed simp

lemma ring_sum:
  assumes "ring_holds arr n full xs"
  shows "sum_list (take (if full then NUM_RATES_TO_USE else n) arr) = sum_list (last_ten (xs :: u64 list))"
proof (cases full)
  case True
  then have "length arr = 10" "drop n arr @ take n arr = last_ten xs"
    using assms by (auto simp: ring_holds_def)
  moreover have "sum_list (drop n arr @ take n arr) = sum_list (take n arr @ drop n arr)"
    by (simp only: sum_list_append add.commute)
  ultimately show ?thesis using True by (simp add: NUM_RATES_TO_USE_def)
next
  case False
  then show ?thesis using assms by (auto simp: ring_holds_def last_ten_def)
qed

lemma ring_count:
  "ring_holds arr n full xs \<Longrightarrow> (if full then NUM_RATES_TO_USE else n) = min 10 (length xs)"
  by (auto simp: ring_holds_def NUM_RATES_TO_USE_def)

section \<open>Properties\<close>

text \<open>C21: The published retransmission rate is too low.  After any rounds that found the destination with
  growing packet counts, the rate is the percentage of retransmitted packets over the last ten
  rounds, or over all of them while there are fewer, divided once more by the number of those
  rounds: in a steady transfer it settles at a tenth of the true rate.\<close>

theorem retransmission_rate_divided_twice:
  assumes "fresh s" "cs \<noteq> []" "sorted_wrt (<) (0 # map snd cs)"
    and "old = last ((0, 0) # take (length cs - 10) cs)" "new = last cs"
  shows "global_rate (note_samples cs s) =
    ddiv (dmul (ddiv (dint (uint (fst new - fst old))) (dint (uint (snd new - snd old)))) 100)
      (dint (int (min 10 (length cs))))"
proof -
  let ?s = "note_samples cs s"
  note h = note_samples_hold [OF assms(1-3)]
  have r: "ring_holds (aSaveIntRetrans ?s) (rate_count ?s) (rate_array_done ?s) (map fst (intervals (0, 0) cs))"
    "ring_holds (aSaveIntPackets ?s) (rate_count ?s) (rate_array_done ?s) (map snd (intervals (0, 0) cs))"
    using h by (simp_all add: holds_intervals_def)
  let ?pre = "take (length cs - 10) cs" and ?post = "drop (length cs - 10) cs"
  have "?post \<noteq> []" using assms(2) by (cases cs) auto
  have lst: "last (old # ?post) = new" using \<open>?post \<noteq> []\<close> assms(5) by (simp add: last_drop)
  have "old # ?post = last ((0, 0) # ?pre) # ?post" by (simp add: assms(4))
  have sorted: "sorted_wrt (<) ((0 # map snd ?pre) @ map snd ?post)"
    using assms(3) by (simp only: append_Cons map_append [symmetric] append_take_drop_id)
  have "snd old \<in> set (0 # map snd ?pre)"
    using last_in_set [of "(0, 0) # ?pre"] by (auto simp: assms(4))
  moreover have "snd new \<in> set (map snd ?post)"
    using lst \<open>?post \<noteq> []\<close> last_in_set [of ?post] by simp
  ultimately have "snd old < snd new" using sorted unfolding sorted_wrt_append by blast
  then have nz: "snd new - snd old \<noteq> 0" by auto
  have sums: "sum_list (last_ten (map fst (intervals (0, 0) cs))) = fst new - fst old"
    "sum_list (last_ten (map snd (intervals (0, 0) cs))) = snd new - snd old"
    unfolding last_ten_intervals sum_intervals assms(4) [symmetric] lst by simp_all
  have n: "(if rate_array_done ?s then NUM_RATES_TO_USE else rate_count ?s) = min 10 (length cs)"
    using ring_count [OF r(1)] by simp
  show ?thesis
    using h nz sums ring_sum [OF r(1)] ring_sum [OF r(2)] n by (simp add: average_rate_def Let_def)
qed

definition fresh_retran :: retran where
  "fresh_retran = \<lparr>prev_total_retrans = 0, prev_packets_sent = 0, aSaveIntRetrans = replicate 10 0,
     aSaveIntPackets = replicate 10 0, rate_count = 0, rate_array_done = False, global_rate = 0\<rparr>"

theorem retransmission_rate_divided_twice_witness:
  "global_rate (note_samples [(1, 100), (2, 200)] fresh_retran) =
     ddiv (dmul (ddiv 2 200) 100) 2"
proof -
  have "fresh fresh_retran" by (simp add: fresh_def fresh_retran_def)
  from retransmission_rate_divided_twice [OF this _ _ refl refl, of "[(1, 100), (2, 200)]"]
  show ?thesis by (simp add: dint_exact)
qed

end
