(* ===== verification/Tcp_Iter.thy ===== *)
theory Tcp_Iter
  imports Link_Watch
begin

text \<open>
  The BPF program \<open>dump_tcp4\<close> (\<open>src/iter/iter_tcp4.bpf.c\<close>) behind \<open>/sys/fs/bpf/tcp4\<close>, the file the
  retransmission thread reads: the kernel calls it for every socket and what it prints is the file.
  Each line ends in the retransmissions and packets of its connection; the theory shows what
  \<open>doRunFindRetransmissionRate\<close> makes of them.

  The kernel's \<open>CONFIG_HZ\<close> (\<open>hz\<close>), the clock and the text \<open>%pK\<close> prints for a pointer (\<open>pk\<close>) are
  arguments.  The fields have the widths of \<open>vmlinux.h\<close>; ports and addresses are in network byte order.
\<close>

section \<open>Numbers as the kernel prints them\<close>

type_synonym u8 = "8 word"

definition hex02 :: "u8 \<Rightarrow> string" where
  "hex02 a = map (\<lambda>i. hex_digit (unat (drop_bit (4 * i) a AND 15))) [1, 0]"

definition hex04 :: "u16 \<Rightarrow> string" where
  "hex04 a = map (\<lambda>i. hex_digit (unat (drop_bit (4 * i) a AND 15))) [3, 2, 1, 0]"

definition hex08l :: "u64 \<Rightarrow> string" where
  "hex08l a = pad_zeros 8 (show_hex (unat a))"

definition pad_blanks :: "nat \<Rightarrow> string \<Rightarrow> string" where
  "pad_blanks k s = replicate (k - length s) (CHR '' '') @ s"

abbreviation show_u :: "'a::len word \<Rightarrow> string" where
  "show_u w \<equiv> show_nat (unat w)"

section \<open>Times\<close>

text \<open>Clock ticks of \<open>USER_HZ\<close> = 100 in a number of jiffies; the multiplication may wrap around.\<close>

definition jiffies_to_clock_t :: "u32 \<Rightarrow> u64 \<Rightarrow> u64" where
  "jiffies_to_clock_t hz x =
    (let tick_nsec = (1000000000 + ucast (hz div 2)) div ucast hz; user_hz_nsec = 1000000000 div 100
     in if tick_nsec mod user_hz_nsec = 0
        then (if hz < 100 then x * ucast (100 div hz) else x div ucast (hz div 100))
        else x * tick_nsec div user_hz_nsec)"

definition jiffies_delta_to_clock_t :: "u32 \<Rightarrow> u64 \<Rightarrow> u64" where
  "jiffies_delta_to_clock_t hz delta = (if sint delta \<le> 0 then 0 else jiffies_to_clock_t hz delta)"

section \<open>Sockets\<close>

record tcp_conn =
  tc_address :: u64              \<comment> \<open>of the \<open>struct tcp_sock\<close>\<close>
  inet_daddr :: u32
  inet_rcv_saddr :: u32
  inet_dport :: u16
  inet_sport :: u16
  icsk_pending :: u8
  icsk_timeout :: u64
  sk_timer_pprev :: u64          \<comment> \<open>a pointer, NULL when the timer is not pending\<close>
  sk_timer_expires :: u64
  sk_state :: u8
  sk_ack_backlog :: u32
  rcv_nxt :: u32
  copied_seq :: u32
  write_seq :: u32
  snd_una :: u32
  icsk_retransmits :: u8
  icsk_probes_out :: u8
  sk_socket_ino :: "u64 option"  \<comment> \<open>the inode of \<open>sk_socket\<close>, \<open>None\<close> when that is NULL\<close>
  sk_refcnt :: u32
  icsk_rto :: u32
  ack_ato :: u32
  ack_quick :: u8
  ack_pingpong :: u8
  snd_cwnd :: u32
  snd_ssthresh :: u32
  max_qlen :: u32
  sk_total_retrans :: u32
  sk_segs_out :: u32

record tcp_timewait =
  tw_address :: u64
  tw_daddr :: u32
  tw_rcv_saddr :: u32
  tw_dport :: u16
  tw_sport :: u16
  tw_substate :: u8
  tw_timer_expires :: u64
  tw_refcnt :: u32

record tcp_request =
  rq_address :: u64
  ir_loc_addr :: u32
  ir_rmt_addr :: u32
  ir_num :: u16
  ir_rmt_port :: u16
  rsk_timer_expires :: u64
  num_timeout :: u8

text \<open>What \<open>bpf_skc_to_tcp_sock\<close> and its like find a \<open>sock_common\<close> to be.\<close>

datatype tcp_object = Tcp_Sock tcp_conn | Tcp_Timewait tcp_timewait | Tcp_Request tcp_request | Not_Tcp

record tcp_visit =
  vi_seq_num :: u64
  vi_uid :: u32
  vi_family :: u16
  vi_object :: "tcp_object option"  \<comment> \<open>\<open>None\<close>: \<open>sk_common\<close> is NULL\<close>
  vi_jiffies :: "u64 \<times> u64"         \<comment> \<open>\<open>bpf_jiffies64\<close> at its two uses\<close>

definition timer_pending :: "tcp_conn \<Rightarrow> bool" where
  "timer_pending t \<longleftrightarrow> sk_timer_pprev t \<noteq> 0"

definition sock_i_ino :: "tcp_conn \<Rightarrow> u64" where
  "sock_i_ino t = (case sk_socket_ino t of None \<Rightarrow> 0 | Some i \<Rightarrow> i)"

definition inet_csk_in_pingpong_mode :: "tcp_conn \<Rightarrow> bool" where
  "inet_csk_in_pingpong_mode t \<longleftrightarrow> 3 \<le> ack_pingpong t"

definition tcp_in_initial_slowstart :: "tcp_conn \<Rightarrow> bool" where
  "tcp_in_initial_slowstart t \<longleftrightarrow> 0x7fffffff \<le> snd_ssthresh t"

text \<open>The timer column and the time it expires.\<close>

definition active_timer :: "tcp_conn \<Rightarrow> u64 \<Rightarrow> u8 \<times> u64" where
  "active_timer t now =
    (if icsk_pending t = 1 \<or> icsk_pending t = 6 \<or> icsk_pending t = 5 then (1, icsk_timeout t)
     else if icsk_pending t = 3 then (4, icsk_timeout t)
     else if timer_pending t then (2, sk_timer_expires t)
     else (0, now))"

definition rx_queue :: "tcp_conn \<Rightarrow> u32" where
  "rx_queue t =
    (if sk_state t = 10 then sk_ack_backlog t
     else (let d = rcv_nxt t - copied_seq t in if sint d < 0 then 0 else d))"

definition ack_mode :: "tcp_conn \<Rightarrow> u32" where
  "ack_mode t = push_bit 1 (ucast (ack_quick t)) OR (if inet_csk_in_pingpong_mode t then 1 else 0)"

definition window_limit :: "tcp_conn \<Rightarrow> u32" where
  "window_limit t = (if sk_state t = 10 then max_qlen t
     else if tcp_in_initial_slowstart t then - 1 else snd_ssthresh t)"

section \<open>Lines\<close>

text \<open>The columns every line starts with.\<close>

definition address_cols :: "u32 \<Rightarrow> u32 \<Rightarrow> u16 \<Rightarrow> u32 \<Rightarrow> u16 \<Rightarrow> string" where
  "address_cols seq_num src srcp dest destp = pad_blanks 4 (show_int (sint seq_num)) @ '': ''
     @ hex08 src @ '':'' @ hex04 srcp @ '' '' @ hex08 dest @ '':'' @ hex04 destp @ '' ''"

definition state_cols :: "u8 \<Rightarrow> u32 \<Rightarrow> u32 \<Rightarrow> u8 \<Rightarrow> u64 \<Rightarrow> u32 \<Rightarrow> string" where
  "state_cols state txq rxq timer left retries = hex02 state @ '' '' @ hex08 txq @ '':'' @ hex08 rxq @ '' ''
     @ hex02 timer @ '':'' @ hex08l left @ '' '' @ hex08 retries @ '' ''"

text \<open>A connection: its columns before \<open>totrt\<close>, and the counts.\<close>

definition conn_cols :: "u32 \<Rightarrow> (u64 \<Rightarrow> string) \<Rightarrow> tcp_visit \<Rightarrow> tcp_conn \<Rightarrow> string" where
  "conn_cols hz pk v t =
    (let (timer, expires) = active_timer t (fst (vi_jiffies v)) in
     address_cols (ucast (vi_seq_num v)) (inet_rcv_saddr t) (htons (inet_sport t)) (inet_daddr t)
       (htons (inet_dport t))
     @ state_cols (sk_state t) (write_seq t - snd_una t) (rx_queue t) timer
         (jiffies_delta_to_clock_t hz (expires - snd (vi_jiffies v))) (ucast (icsk_retransmits t))
     @ pad_blanks 5 (show_u (vi_uid v)) @ '' '' @ pad_blanks 8 (show_u (icsk_probes_out t)) @ '' ''
     @ show_u (sock_i_ino t) @ '' '' @ show_int (sint (sk_refcnt t)) @ '' ''
     @ pk (tc_address t) @ '' '' @ show_u (jiffies_to_clock_t hz (ucast (icsk_rto t))) @ '' ''
     @ show_u (jiffies_to_clock_t hz (ucast (ack_ato t))) @ '' ''
     @ show_u (ack_mode t) @ '' '' @ show_u (snd_cwnd t) @ '' '' @ show_int (sint (window_limit t)) @ '' '')"

definition dump_tcp_sock :: "u32 \<Rightarrow> (u64 \<Rightarrow> string) \<Rightarrow> tcp_visit \<Rightarrow> tcp_conn \<Rightarrow> string" where
  "dump_tcp_sock hz pk v t =
    conn_cols hz pk v t @ ''totrt '' @ show_u (sk_total_retrans t) @ '' '' @ show_u (sk_segs_out t) @ [newline]"

definition dump_tw_sock :: "u32 \<Rightarrow> (u64 \<Rightarrow> string) \<Rightarrow> tcp_visit \<Rightarrow> tcp_timewait \<Rightarrow> string" where
  "dump_tw_sock hz pk v t =
    address_cols (ucast (vi_seq_num v)) (tw_rcv_saddr t) (htons (tw_sport t)) (tw_daddr t) (htons (tw_dport t))
    @ state_cols (tw_substate t) 0 0 3
        (jiffies_delta_to_clock_t hz (tw_timer_expires t - fst (vi_jiffies v))) 0
    @ pad_blanks 5 ''0'' @ '' '' @ pad_blanks 8 ''0'' @ '' 0 '' @ show_int (sint (tw_refcnt t)) @ '' ''
    @ pk (tw_address t) @ [newline]"

definition dump_req_sock :: "u32 \<Rightarrow> (u64 \<Rightarrow> string) \<Rightarrow> tcp_visit \<Rightarrow> tcp_request \<Rightarrow> string" where
  "dump_req_sock hz pk v t =
    (let d = rsk_timer_expires t - fst (vi_jiffies v); ttd = (if sint d < 0 then 0 else d) in
     address_cols (ucast (vi_seq_num v)) (ir_loc_addr t) (ir_num t) (ir_rmt_addr t) (htons (ir_rmt_port t))
     @ state_cols 3 0 0 1 (jiffies_to_clock_t hz ttd) (ucast (num_timeout t))
     @ pad_blanks 5 (show_int (sint (vi_uid v))) @ '' '' @ pad_blanks 8 ''0'' @ '' 0 0 ''
     @ pk (rq_address t) @ [newline])"

definition tcp4_header :: string where
  "tcp4_header = ''  sl  local_address rem_address   st tx_queue rx_queue tr tm->when retrnsmt   uid  timeout inode''"

definition dump_tcp4 :: "u32 \<Rightarrow> (u64 \<Rightarrow> string) \<Rightarrow> tcp_visit \<Rightarrow> string" where
  "dump_tcp4 hz pk v =
    (case vi_object v of None \<Rightarrow> []
     | Some obj \<Rightarrow>
       (if (ucast (vi_seq_num v) :: u32) = 0 then tcp4_header @ [newline] else [])
       @ (if vi_family v \<noteq> 2 then []
          else (case obj of Tcp_Sock t \<Rightarrow> dump_tcp_sock hz pk v t
                | Tcp_Timewait t \<Rightarrow> dump_tw_sock hz pk v t
                | Tcp_Request t \<Rightarrow> dump_req_sock hz pk v t
                | Not_Tcp \<Rightarrow> [])))"

text \<open>The file: what the kernel's visits print, one after the other.\<close>

definition tcp4_file :: "u32 \<Rightarrow> (u64 \<Rightarrow> string) \<Rightarrow> tcp_visit list \<Rightarrow> string" where
  "tcp4_file hz pk vs = concat (map (dump_tcp4 hz pk) vs)"

section \<open>Lemmas: searching a line\<close>

lemma starts_with_sep: "c \<notin> set d \<Longrightarrow> starts_with d (p @ c # r) = starts_with d p"
proof (induction d arbitrary: p)
  case (Cons x d)
  then show ?case by (cases p) auto
qed simp

lemma strstr_skip_sep: "c \<notin> set d \<Longrightarrow> d \<noteq> [] \<Longrightarrow> strstr (c # r) d = strstr r d"
  using starts_with_sep [of c d "[]" r] by (cases d) auto

lemma strstr_sep:
  assumes "c \<notin> set d" "d \<noteq> []"
  shows "strstr (p @ c # r) d =
    (case strstr p d of Some f \<Rightarrow> Some (f @ c # r) | None \<Rightarrow> strstr r d)"
proof (induction p)
  case Nil
  then show ?case using assms strstr_skip_sep [OF assms] by simp
next
  case (Cons x p)
  then show ?case using starts_with_sep [OF assms(1), of "x # p" r] by simp
qed

lemma strstr_missing: "c \<in> set n \<Longrightarrow> c \<notin> set s \<Longrightarrow> strstr s n = None"
proof (induction s)
  case (Cons x s)
  have "\<not> starts_with n (x # s)"
  proof
    assume "starts_with n (x # s)"
    then obtain u where "x # s = n @ u" by (auto simp: starts_with_iff)
    then have "set n \<subseteq> set (x # s)" by (metis set_append Un_upper1)
    with Cons.prems show False by auto
  qed
  with Cons show ?case by simp
qed auto

lemma strstr_subset: "strstr s n = Some f \<Longrightarrow> set f \<subseteq> set s"
  by (auto dest: strstr_Some_starts)

lemma strstr_first: "c \<notin> set f \<Longrightarrow> strstr (f @ c # n @ r) (c # n) = Some (c # n @ r)"
proof (induction f)
  case Nil
  then show ?case using strstr_prefix [of "c # n" r] by simp
qed auto

section \<open>Lemmas: the text of a line\<close>

text \<open>No column before \<open>totrt\<close> has a letter of it or a newline.\<close>

definition plain :: "string \<Rightarrow> bool" where
  "plain s \<longleftrightarrow> CHR ''t'' \<notin> set s \<and> newline \<notin> set s"

lemma plain_simps [simp]:
  "plain []" "plain (c # s) \<longleftrightarrow> c \<noteq> CHR ''t'' \<and> c \<noteq> newline \<and> plain s"
  "plain (s @ s') \<longleftrightarrow> plain s \<and> plain s'"
  by (auto simp: plain_def)

lemma plain_replicate [simp]: "c \<noteq> CHR ''t'' \<Longrightarrow> c \<noteq> newline \<Longrightarrow> plain (replicate n c)"
  by (induction n) auto

lemma plain_subset: "set s \<subseteq> A \<Longrightarrow> CHR ''t'' \<notin> A \<Longrightarrow> newline \<notin> A \<Longrightarrow> plain s"
  by (auto simp: plain_def)

lemma digit_not_t: "isdigit c \<Longrightarrow> c \<noteq> CHR ''t'' \<and> c \<noteq> newline"
  by (auto simp: isdigit_def char_code_def)

lemma plain_show_nat [simp]: "plain (show_nat n)"
  using show_nat_digits [of n] digit_not_t by (auto simp: plain_def)

lemma plain_show_int [simp]: "plain (show_int i)"
  by (simp add: show_int_def)

lemma nibble_less: "unat (x AND 15 :: 'a::len word) < 16"
proof -
  have "x AND 15 \<le> (15 :: 'a word)" by (rule word_and_le1)
  then have "unat (x AND 15) \<le> unat (15 :: 'a word)" by (rule word_le_nat_alt [THEN iffD1])
  also have "unat (15 :: 'a word) \<le> 15"
    by simp
  finally show ?thesis by simp
qed

definition hex_chars :: "char set" where
  "hex_chars = set ''0123456789ABCDEF''"

lemma hex_digit_in: "d < 16 \<Longrightarrow> hex_digit d \<in> hex_chars"
  unfolding hex_digit_def hex_chars_def by (rule nth_mem) simp

lemma hex_nibble_in: "hex_digit (unat (x AND 15 :: 'a::len word)) \<in> hex_chars"
  by (rule hex_digit_in [OF nibble_less])

lemma hex_fixed_in: "set (hex02 b) \<subseteq> hex_chars" "set (hex04 h) \<subseteq> hex_chars" "set (hex08 a) \<subseteq> hex_chars"
  unfolding hex02_def hex04_def hex08_def set_map using hex_nibble_in by blast+

lemma show_hex_in: "set (show_hex n) \<subseteq> hex_chars"
proof (induction n rule: show_hex.induct)
  case (1 n)
  then show ?case by (subst show_hex.simps) (simp add: hex_digit_in)
qed

lemma not_hex_chars: "CHR ''t'' \<notin> hex_chars" "newline \<notin> hex_chars"
  by (simp_all add: hex_chars_def)

lemma plain_hex [simp]: "plain (hex02 b)" "plain (hex04 h)" "plain (hex08 a)" "plain (show_hex n)"
  using plain_subset [OF _ not_hex_chars] hex_fixed_in show_hex_in by blast+

lemma plain_pad [simp]: "plain (pad_blanks k s) \<longleftrightarrow> plain s" "plain (hex08l w)"
  by (simp_all add: pad_blanks_def hex08l_def pad_zeros_def)

text \<open>What the kernel documents of \<open>%pK\<close> on 64-bit machines: at most 16 hexadecimal digits.\<close>

definition prints_pointers :: "(u64 \<Rightarrow> string) \<Rightarrow> bool" where
  "prints_pointers pk \<longleftrightarrow> (\<forall>p. length (pk p) \<le> 16 \<and> set (pk p) \<subseteq> set ''0123456789abcdef'')"

lemma plain_pk: "prints_pointers pk \<Longrightarrow> plain (pk p)"
  unfolding prints_pointers_def by (rule plain_subset [of _ "set ''0123456789abcdef''"]) auto

lemma plain_cols [simp]: "plain (address_cols q src srcp dest destp)" "plain (state_cols st txq rxq tm left re)"
  by (simp_all add: address_cols_def state_cols_def)

lemma plain_conn_cols: "prints_pointers pk \<Longrightarrow> plain (conn_cols hz pk v t)"
  by (simp add: conn_cols_def plain_pk split: prod.split)

section \<open>Lemmas: what the reader makes of a line\<close>

lemma hex08_facts: "CHR ''t'' \<notin> set (hex08 a)" "CHR ''o'' \<notin> set (hex08 a)" "CHR ''r'' \<notin> set (hex08 a)"
    "CHR '' '' \<notin> set (hex08 a)" "hex08 a \<noteq> []"
proof -
  have "CHR ''t'' \<notin> hex_chars" "CHR ''o'' \<notin> hex_chars" "CHR ''r'' \<notin> hex_chars" "CHR '' '' \<notin> hex_chars"
    by (simp_all add: hex_chars_def)
  with hex_fixed_in(3) [of a] show "CHR ''t'' \<notin> set (hex08 a)" "CHR ''o'' \<notin> set (hex08 a)"
    "CHR ''r'' \<notin> set (hex08 a)" "CHR '' '' \<notin> set (hex08 a)" by blast+
  show "hex08 a \<noteq> []" by (simp add: hex08_def)
qed

lemma copy_digits_show:
  assumes "r = [] \<or> \<not> isdigit (hd r)"
  shows "copy_digits (show_nat (unat (w :: u32)) @ r) = Inr (show_nat (unat w), r)"
proof -
  have "takeWhile isdigit (show_nat (unat w) @ r) = show_nat (unat w)" using assms by (rule takeWhile_show_nat)
  moreover from this have "dropWhile isdigit (show_nat (unat w) @ r) = r"
    by (metis takeWhile_dropWhile_id same_append_eq)
  ultimately show ?thesis using length_show_u32 [of w] by (simp add: copy_digits_def Let_def)
qed

lemma count_line_no_totrt:
  "CHR ''t'' \<notin> set l \<Longrightarrow> count_line d l acc = Inr acc"
proof (cases "strstr l d")
  case (Some f)
  assume "CHR ''t'' \<notin> set l"
  then have "CHR ''t'' \<notin> set f" using strstr_subset [OF Some] by blast
  then have "strstr f ''totrt'' = None" by (intro strstr_missing [of "CHR ''t''"]) simp_all
  with Some show ?thesis by (simp add: count_line_def)
qed (simp add: count_line_def)

text \<open>A connection counts when the digits of the destination occur in its columns.\<close>

lemma count_line_conn:
  assumes "plain cols"
  shows "count_line (hex08 a) (cols @ ''totrt '' @ show_nat (unat (n :: u32)) @ '' '' @ show_nat (unat (m :: u32)) @ [newline])
      (found, tot, sent) =
    Inr (if has_substr cols (hex08 a) then (True, tot + ucast n, sent + ucast m) else (found, tot, sent))"
proof -
  note h = hex08_facts [of a]
  let ?nums = "show_nat (unat n) @ '' '' @ show_nat (unat m) @ [newline]"
  let ?d = "hex08 a"
  have b: "strstr (cols @ ''totrt '' @ ?nums) ?d =
      (case strstr cols ?d of Some f \<Rightarrow> Some (f @ ''totrt '' @ ?nums) | None \<Rightarrow> strstr ?nums ?d)"
  proof -
    have "strstr (''otrt '' @ ?nums) ?d = strstr ?nums ?d"
      using h by (simp only: append_Cons append_Nil strstr_skip_sep not_False_eq_True)
    with strstr_sep [OF h(1,5), of cols "''otrt '' @ ?nums"] show ?thesis by (simp del: strstr.simps split: option.split)
  qed
  show ?thesis
  proof (cases "strstr cols ?d")
    case None
    have t: "CHR ''t'' \<notin> set ?nums" using plain_show_nat unfolding plain_def by simp
    show ?thesis
    proof (cases "strstr ?nums ?d")
      case None
      with b \<open>strstr cols ?d = None\<close> show ?thesis by (simp add: count_line_def has_substr_def)
    next
      case (Some g)
      then have "CHR ''t'' \<notin> set g" using t strstr_subset by blast
      then have "strstr g ''totrt'' = None" by (intro strstr_missing [of "CHR ''t''"]) simp_all
      with Some b \<open>strstr cols ?d = None\<close> show ?thesis by (simp add: count_line_def has_substr_def)
    qed
  next
    case (Some f)
    then have "CHR ''t'' \<notin> set f" using assms strstr_subset by (auto simp: plain_def)
    from strstr_first [OF this, of "''otrt''" "'' '' @ ?nums"]
    have f: "strstr (f @ ''totrt '' @ ?nums) ''totrt'' = Some (''totrt '' @ ?nums)" by simp
    have c1: "copy_digits ?nums = Inr (show_nat (unat n), '' '' @ show_nat (unat m) @ [newline])"
      using copy_digits_show [of "'' '' @ show_nat (unat m) @ [newline]" n] by simp
    have c2: "copy_digits (show_nat (unat m) @ [newline]) = Inr (show_nat (unat m), [newline])"
      using copy_digits_show [of "[newline]" m] by simp
    have lt: "unat n < 2 ^ 64" "unat m < 2 ^ 64" using unat_u32_lt [of n] unat_u32_lt [of m] by simp_all
    show ?thesis
      using b f Some c1 c2 lt by (simp add: count_line_def has_substr_def unsigned_ucast_eq take_bit_nat_eq_self)
  qed
qed

section \<open>Lemmas: a line fits the reader's buffer\<close>

lemma unat_tick:
  fixes hz :: u32
  assumes "100 \<le> hz"
  shows "unat ((1000000000 + ucast (hz div 2)) div ucast hz :: u64) \<le> 10000000"
proof -
  let ?h = "unat hz"
  have h: "100 \<le> ?h" using assms unat_mono by (simp add: word_le_nat_alt)
  have u: "unat (ucast hz :: u64) = ?h" "unat (ucast (hz div 2) :: u64) = ?h div 2"
    using unat_u32_lt [of hz] by (simp_all add: unsigned_ucast_eq take_bit_nat_eq_self unat_div)
  have "?h div 2 < 4294967296" using unat_u32_lt [of hz] by simp
  then have s: "unat (1000000000 + ucast (hz div 2) :: u64) = 1000000000 + ?h div 2"
    using u by (simp add: unat_word_ariths)
  have "1000000000 + ?h div 2 < (10000000 + 1) * ?h" using h by simp
  then have "(1000000000 + ?h div 2) div ?h < 10000000 + 1"
    using h by (subst div_less_iff_less_mult) (simp_all add: mult.commute)
  then show ?thesis by (simp add: unat_div s u)
qed

lemma jiffies_to_clock_t_le:
  assumes "100 \<le> hz" "unat x < 2 ^ 32"
  shows "unat (jiffies_to_clock_t hz x) \<le> unat x"
proof -
  define tick :: u64 where "tick = (1000000000 + ucast (hz div 2)) div ucast hz"
  have t: "unat tick \<le> 10000000" using unat_tick [OF assms(1)] by (simp add: tick_def)
  have "unat x * unat tick \<le> 2 ^ 32 * 10000000" using assms(2) t by (intro mult_le_mono) simp_all
  then have "unat (x * tick) = unat x * unat tick" by (subst unat_mult_lem [THEN iffD1]) simp_all
  then have "unat (x * tick div 10000000) = unat x * unat tick div 10000000" by (simp add: unat_div)
  also have "\<dots> \<le> unat x"
  proof -
    have "unat x * unat tick \<le> unat x * 10000000" using t by (rule mult_le_mono2)
    then have "unat x * unat tick div 10000000 \<le> unat x * 10000000 div 10000000" by (rule div_le_mono)
    then show ?thesis by simp
  qed
  finally have m: "unat (x * tick div 10000000) \<le> unat x" .
  have "\<not> hz < 100" using assms(1) by simp
  moreover have "unat (x div y) \<le> unat x" for y by (simp add: unat_div)
  ultimately show ?thesis using m by (simp add: jiffies_to_clock_t_def tick_def [symmetric] Let_def)
qed

lemma length_hex [simp]: "length (hex02 b) = 2" "length (hex04 h) = 4" "length (hex08 a) = 8"
  by (simp_all add: hex02_def hex04_def hex08_def)

lemma length_pad [simp]: "length (pad_blanks k s) = max k (length s)"
  by (simp add: pad_blanks_def)

lemma length_hex08l: "length (hex08l w) \<le> 16"
proof -
  have "unat w < 2 ^ LENGTH(64)" by (rule unsigned_less)
  then have "unat w < 16 ^ Suc 15" by simp
  from length_show_hex_le [OF this] show ?thesis by (simp add: hex08l_def pad_zeros_def)
qed

lemma length_show_u8: "length (show_nat (unat (w :: u8))) \<le> 3"
proof -
  have "unat w < 2 ^ LENGTH(8)" by (rule unsigned_less)
  then have "unat w < 10 ^ Suc 2" by simp
  from length_show_nat_le [OF this] show ?thesis by simp
qed

lemma length_show_sint: "length (show_int (sint (w :: u32))) \<le> 11"
proof -
  have "- (2 ^ 31) \<le> sint w" "sint w < 2 ^ 31" using sint_range_size [of w] by (simp_all add: word_size)
  then have "nat (- sint w) < 10 ^ Suc 9" "nat (sint w) < 10 ^ Suc 9" by simp_all
  from this [THEN length_show_nat_le] show ?thesis by (auto simp: show_int_def)
qed

lemma length_ticks: "100 \<le> hz \<Longrightarrow> length (show_nat (unat (jiffies_to_clock_t hz (ucast (w :: u32))))) \<le> 10"
proof -
  assume "100 \<le> hz"
  moreover have "unat (ucast w :: u64) < 2 ^ 32"
    using unat_u32_lt [of w] by (simp add: unsigned_ucast_eq take_bit_nat_eq_self)
  ultimately have "unat (jiffies_to_clock_t hz (ucast w)) < 2 ^ 32"
    using jiffies_to_clock_t_le order.strict_trans1 by blast
  then have "unat (jiffies_to_clock_t hz (ucast w)) < 10 ^ Suc 9" by simp
  from length_show_nat_le [OF this] show ?thesis by simp
qed

lemma length_cols: "length (address_cols q src srcp dest destp) \<le> 41" "length (state_cols st txq rxq tm left re) \<le> 51"
  using length_show_sint [of q] length_hex08l [of left] by (simp_all add: address_cols_def state_cols_def)

lemma length_conn_cols:
  assumes "prints_pointers pk" "100 \<le> hz"
  shows "length (conn_cols hz pk v t) \<le> 218"
proof -
  obtain timer expires where a: "active_timer t (fst (vi_jiffies v)) = (timer, expires)" by fastforce
  have "length (pk (tc_address t)) \<le> 16" using assms(1) by (simp add: prints_pointers_def)
  then show ?thesis
    using length_cols(1) [of "ucast (vi_seq_num v)" "inet_rcv_saddr t" "htons (inet_sport t)" "inet_daddr t" "htons (inet_dport t)"]
      length_cols(2) [of "sk_state t" "write_seq t - snd_una t" "rx_queue t" timer
         "jiffies_delta_to_clock_t hz (expires - snd (vi_jiffies v))" "ucast (icsk_retransmits t)"]
      length_show_u32 [of "vi_uid v"] length_show_u8 [of "icsk_probes_out t"] length_show_u64 [of "sock_i_ino t"]
      length_show_sint [of "sk_refcnt t"] length_show_sint [of "window_limit t"] length_ticks [OF assms(2), of "icsk_rto t"]
      length_ticks [OF assms(2), of "ack_ato t"] length_show_u32 [of "ack_mode t"] length_show_u32 [of "snd_cwnd t"]
    unfolding conn_cols_def a prod.case length_append length_pad by simp
qed

lemma tcp_sock_line:
  assumes "prints_pointers pk" "100 \<le> hz"
  shows "\<exists>l. dump_tcp_sock hz pk v t = l @ [newline] \<and> line_ok 256 l"
proof -
  let ?l = "conn_cols hz pk v t @ ''totrt '' @ show_u (sk_total_retrans t) @ '' '' @ show_u (sk_segs_out t)"
  have "newline \<notin> set ?l" using plain_conn_cols [OF assms(1)] unfolding plain_def by simp
  moreover have "length ?l + 2 \<le> 256"
    using length_conn_cols [OF assms, of v t] length_show_u32 [of "sk_total_retrans t"]
      length_show_u32 [of "sk_segs_out t"] by simp
  ultimately show ?thesis by (intro exI [of _ ?l]) (simp add: dump_tcp_sock_def line_ok_def)
qed

lemma plain_line_ok: "plain l \<Longrightarrow> length l \<le> 254 \<Longrightarrow> line_ok 256 l"
  by (simp add: plain_def line_ok_def)

lemma tw_sock_line:
  assumes "prints_pointers pk"
  shows "\<exists>l. dump_tw_sock hz pk v t = l @ [newline] \<and> plain l \<and> line_ok 256 l"
proof -
  let ?l = "butlast (dump_tw_sock hz pk v t)"
  have l: "dump_tw_sock hz pk v t = ?l @ [newline]" by (simp add: dump_tw_sock_def butlast_append)
  have p: "plain ?l" by (simp add: dump_tw_sock_def butlast_append plain_pk [OF assms])
  have "length (pk (tw_address t)) \<le> 16" using assms by (simp add: prints_pointers_def)
  then have "length ?l \<le> 254"
    using length_cols(1) [of "ucast (vi_seq_num v)" "tw_rcv_saddr t" "htons (tw_sport t)" "tw_daddr t" "htons (tw_dport t)"]
      length_cols(2) [of "tw_substate t" 0 0 3 "jiffies_delta_to_clock_t hz (tw_timer_expires t - fst (vi_jiffies v))" 0]
      length_show_sint [of "tw_refcnt t"]
    by (simp add: dump_tw_sock_def butlast_append)
  with l p show ?thesis using plain_line_ok by blast
qed

lemma req_sock_line:
  assumes "prints_pointers pk"
  shows "\<exists>l. dump_req_sock hz pk v t = l @ [newline] \<and> plain l \<and> line_ok 256 l"
proof -
  define d where "d = rsk_timer_expires t - fst (vi_jiffies v)"
  let ?l = "butlast (dump_req_sock hz pk v t)"
  have l: "dump_req_sock hz pk v t = ?l @ [newline]" by (simp add: dump_req_sock_def butlast_append Let_def)
  have p: "plain ?l" by (simp add: dump_req_sock_def butlast_append Let_def plain_pk [OF assms])
  have "length (pk (rq_address t)) \<le> 16" using assms by (simp add: prints_pointers_def)
  then have "length ?l \<le> 254"
    using length_cols(1) [of "ucast (vi_seq_num v)" "ir_loc_addr t" "ir_num t" "ir_rmt_addr t" "htons (ir_rmt_port t)"]
      length_cols(2) [of 3 0 0 1 "jiffies_to_clock_t hz (if sint d < 0 then 0 else d)" "ucast (num_timeout t)"]
      length_show_sint [of "vi_uid v"]
    by (simp add: dump_req_sock_def butlast_append Let_def d_def [symmetric])
  with l p show ?thesis using plain_line_ok by blast
qed

lemma header_line: "line_ok 256 tcp4_header" "strstr (tcp4_header @ [newline]) (hex08 a) = None"
proof -
  show "line_ok 256 tcp4_header" by (simp add: tcp4_header_def line_ok_def)
  have "set (tcp4_header @ [newline]) \<inter> hex_chars = {}" by (simp add: tcp4_header_def hex_chars_def)
  then have "hd (hex08 a) \<notin> set (tcp4_header @ [newline])"
    using hex_fixed_in(3) [of a] hex08_facts(5) [of a] hd_in_set [of "hex08 a"] by blast
  then show "strstr (tcp4_header @ [newline]) (hex08 a) = None"
    by (rule strstr_missing [OF hd_in_set [OF hex08_facts(5)]])
qed

section \<open>Lemmas: the whole file\<close>

text \<open>The connections in the file, those the reader counts, and the sums of their counts.\<close>

definition conn_of :: "tcp_visit \<Rightarrow> (tcp_visit \<times> tcp_conn) list" where
  "conn_of v = (case vi_object v of Some (Tcp_Sock t) \<Rightarrow> if vi_family v = 2 then [(v, t)] else [] | _ \<Rightarrow> [])"

definition connections :: "tcp_visit list \<Rightarrow> (tcp_visit \<times> tcp_conn) list" where
  "connections vs = concat (map conn_of vs)"

definition mentions :: "u32 \<Rightarrow> (u64 \<Rightarrow> string) \<Rightarrow> u32 \<Rightarrow> tcp_visit \<times> tcp_conn \<Rightarrow> bool" where
  "mentions hz pk a c = has_substr (conn_cols hz pk (fst c) (snd c)) (hex08 a)"

definition totals :: "tcp_conn list \<Rightarrow> bool \<times> u64 \<times> u64" where
  "totals ts = (ts \<noteq> [], \<Sum>t\<leftarrow>ts. ucast (sk_total_retrans t), \<Sum>t\<leftarrow>ts. ucast (sk_segs_out t))"

definition add_totals :: "bool \<times> u64 \<times> u64 \<Rightarrow> bool \<times> u64 \<times> u64 \<Rightarrow> bool \<times> u64 \<times> u64" where
  "add_totals x y = (case (x, y) of ((f, m, n), (f', m', n')) \<Rightarrow> (f \<or> f', m + m', n + n'))"

lemma totals_append: "totals (xs @ ys) = add_totals (totals xs) (totals ys)"
  by (simp add: totals_def add_totals_def)

lemma add_totals_laws [simp]: "add_totals x (totals []) = x"
  "add_totals (add_totals x y) z = add_totals x (add_totals y z)"
  by (simp_all add: totals_def add_totals_def split: prod.splits)

lemma count_lines_append:
  "count_lines d (xs @ ys) acc = bindE (count_lines d xs acc) (count_lines d ys)"
proof (induction xs arbitrary: acc)
  case (Cons x xs)
  then show ?case by (cases "count_line d x acc") auto
qed simp

definition counted :: "u32 \<Rightarrow> (u64 \<Rightarrow> string) \<Rightarrow> u32 \<Rightarrow> tcp_visit list \<Rightarrow> tcp_conn list" where
  "counted hz pk a vs = map snd (filter (mentions hz pk a) (connections vs))"

lemma counted_Cons: "counted hz pk a (v # vs) = counted hz pk a [v] @ counted hz pk a vs"
  by (simp add: counted_def connections_def)

definition lines_count :: "u32 \<Rightarrow> string list \<Rightarrow> bool \<times> u64 \<times> u64 \<Rightarrow> bool" where
  "lines_count a ls tot \<longleftrightarrow> (\<forall>l \<in> set ls. line_ok 256 l)
     \<and> (\<forall>acc. count_lines (hex08 a) (map (\<lambda>l. l @ [newline]) ls) acc = Inr (add_totals acc tot))"

lemma lines_count_append:
  "lines_count a ls x \<Longrightarrow> lines_count a ls' y \<Longrightarrow> lines_count a (ls @ ls') (add_totals x y)"
  unfolding lines_count_def map_append set_append count_lines_append by (metis Un_iff add_totals_laws(2) bindE_simps(2))

lemma lines_count_none:
  assumes "line_ok 256 l" "\<And>acc. count_line (hex08 a) (l @ [newline]) acc = Inr acc"
  shows "lines_count a [l] (totals [])"
  using assms by (simp add: lines_count_def)

lemma unlines_append: "unlines (xs @ ys) = unlines xs @ unlines ys"
  by (simp add: unlines_def)

lemma plain_count: "plain l \<Longrightarrow> count_line d (l @ [newline]) acc = Inr acc"
  by (rule count_line_no_totrt) (simp add: plain_def)

lemma object_counts:
  assumes "prints_pointers pk" "100 \<le> hz" "vi_object v = Some obj" "vi_family v = 2"
  shows "\<exists>ls. (case obj of Tcp_Sock t \<Rightarrow> dump_tcp_sock hz pk v t
                | Tcp_Timewait t \<Rightarrow> dump_tw_sock hz pk v t
                | Tcp_Request t \<Rightarrow> dump_req_sock hz pk v t
                | Not_Tcp \<Rightarrow> []) = unlines ls \<and> lines_count a ls (totals (counted hz pk a [v]))"
proof (cases obj)
  case (Tcp_Sock t)
  obtain l where l: "dump_tcp_sock hz pk v t = l @ [newline]" "line_ok 256 l"
    using tcp_sock_line [OF assms(1,2)] by blast
  have "count_line (hex08 a) (l @ [newline]) acc = Inr (add_totals acc (totals (counted hz pk a [v])))" for acc
    using count_line_conn [OF plain_conn_cols [OF assms(1)], of a hz v t "sk_total_retrans t" "sk_segs_out t"
        "fst acc" "fst (snd acc)" "snd (snd acc)"] assms(3,4) Tcp_Sock
    by (cases acc) (simp add: l(1) [symmetric] dump_tcp_sock_def counted_def connections_def conn_of_def
        mentions_def totals_def add_totals_def)
  then have "lines_count a [l] (totals (counted hz pk a [v]))" using l(2) by (simp add: lines_count_def)
  then show ?thesis using l(1) Tcp_Sock by (intro exI [of _ "[l]"]) simp
next
  case (Tcp_Timewait t)
  obtain l where l: "dump_tw_sock hz pk v t = l @ [newline]" "plain l" "line_ok 256 l"
    using tw_sock_line [OF assms(1)] by blast
  have "lines_count a [l] (totals [])" using l(2,3) by (intro lines_count_none plain_count)
  then show ?thesis using l(1) Tcp_Timewait assms(3)
    by (intro exI [of _ "[l]"]) (simp add: counted_def connections_def conn_of_def)
next
  case (Tcp_Request t)
  obtain l where l: "dump_req_sock hz pk v t = l @ [newline]" "plain l" "line_ok 256 l"
    using req_sock_line [OF assms(1)] by blast
  have "lines_count a [l] (totals [])" using l(2,3) by (intro lines_count_none plain_count)
  then show ?thesis using l(1) Tcp_Request assms(3)
    by (intro exI [of _ "[l]"]) (simp add: counted_def connections_def conn_of_def)
next
  case Not_Tcp
  then show ?thesis using assms(3)
    by (intro exI [of _ "[]"]) (simp add: counted_def connections_def conn_of_def lines_count_def)
qed

lemma visit_counts:
  assumes "prints_pointers pk" "100 \<le> hz"
  shows "\<exists>ls. dump_tcp4 hz pk v = unlines ls \<and> lines_count a ls (totals (counted hz pk a [v]))"
proof (cases "vi_object v")
  case None
  then show ?thesis by (intro exI [of _ "[]"])
      (simp add: dump_tcp4_def counted_def connections_def conn_of_def lines_count_def)
next
  case (Some obj)
  have n: "lines_count a [] (totals [])" by (simp add: lines_count_def)
  have h: "lines_count a [tcp4_header] (totals [])"
    using header_line by (intro lines_count_none) (simp_all add: count_line_def)
  define hd_lines where "hd_lines = (if (ucast (vi_seq_num v) :: u32) = 0 then [tcp4_header] else [])"
  have hl: "lines_count a hd_lines (totals [])" using n h by (simp add: hd_lines_def)
  show ?thesis
  proof (cases "vi_family v = 2")
    case True
    obtain ls where ls: "(case obj of Tcp_Sock t \<Rightarrow> dump_tcp_sock hz pk v t
          | Tcp_Timewait t \<Rightarrow> dump_tw_sock hz pk v t | Tcp_Request t \<Rightarrow> dump_req_sock hz pk v t
          | Not_Tcp \<Rightarrow> []) = unlines ls" "lines_count a ls (totals (counted hz pk a [v]))"
      using object_counts [OF assms Some True] by blast
    have "add_totals (totals []) z = z" for z by (simp add: totals_def add_totals_def split: prod.split)
    then have "lines_count a (hd_lines @ ls) (totals (counted hz pk a [v]))"
      using lines_count_append [OF hl ls(2)] by simp
    moreover have "dump_tcp4 hz pk v = unlines (hd_lines @ ls)"
      using Some True ls(1) by (simp add: dump_tcp4_def unlines_append hd_lines_def)
    ultimately show ?thesis by blast
  next
    case False
    then have "dump_tcp4 hz pk v = unlines hd_lines" "counted hz pk a [v] = []"
      using Some by (simp_all add: dump_tcp4_def hd_lines_def counted_def connections_def conn_of_def split: tcp_object.split)
    with hl show ?thesis by (intro exI [of _ hd_lines]) simp
  qed
qed

lemma file_counts:
  assumes "prints_pointers pk" "100 \<le> hz"
  shows "\<exists>ls. tcp4_file hz pk vs = unlines ls \<and> lines_count a ls (totals (counted hz pk a vs))"
proof (induction vs)
  case Nil
  show ?case by (intro exI [of _ "[]"]) (simp add: tcp4_file_def counted_def connections_def lines_count_def)
next
  case (Cons v vs)
  then obtain ls where ls: "tcp4_file hz pk vs = unlines ls" "lines_count a ls (totals (counted hz pk a vs))" by blast
  obtain ks where ks: "dump_tcp4 hz pk v = unlines ks" "lines_count a ks (totals (counted hz pk a [v]))"
    using visit_counts [OF assms] by blast
  have "lines_count a (ks @ ls) (totals (counted hz pk a (v # vs)))"
    using lines_count_append [OF ks(2) ls(2)] by (simp add: counted_Cons [of _ _ _ v vs] totals_append)
  moreover have "tcp4_file hz pk (v # vs) = unlines (ks @ ls)"
    using ks(1) ls(1) by (simp add: tcp4_file_def unlines_append)
  ultimately show ?case by blast
qed

text \<open>A round of the reader on the file the iterator writes.\<close>

lemma round_counts:
  assumes "prints_pointers pk" "100 \<le> hz"
  shows "retransmission_round (hex08 a) (Some (tcp4_file hz pk vs)) s =
    Inr (Some (note_counts (totals (counted hz pk a vs)) s))"
proof -
  obtain ls where ls: "tcp4_file hz pk vs = unlines ls" "lines_count a ls (totals (counted hz pk a vs))"
    using file_counts [OF assms] by blast
  then have "read_lines 256 (tcp4_file hz pk vs) = map (\<lambda>l. l @ [newline]) ls"
    by (simp add: read_lines_unlines lines_count_def)
  moreover have "add_totals (False, 0, 0) x = x" for x by (simp add: add_totals_def split: prod.split)
  ultimately show ?thesis using ls(2) by (simp add: retransmission_round_def lines_count_def)
qed

lemma has_substr_iff: "has_substr s n \<longleftrightarrow> (\<exists>p r. s = p @ n @ r)"
proof
  assume "has_substr s n"
  then obtain f where "strstr s n = Some f" by (auto simp: has_substr_def)
  then show "\<exists>p r. s = p @ n @ r" using strstr_Some_starts [of s n f] by (auto simp: starts_with_iff)
next
  have "has_substr (p @ n @ r) n" for p r
  proof (induction p)
    case (Cons x p)
    then show ?case by (simp add: has_substr_def)
  qed simp
  then show "\<exists>p r. s = p @ n @ r \<Longrightarrow> has_substr s n" by blast
qed

lemma has_substr_append: "has_substr s n \<Longrightarrow> has_substr (s @ r) n" "has_substr s n \<Longrightarrow> has_substr (p @ s) n"
  unfolding has_substr_iff by (metis append.assoc)+

lemma destination_mentioned: "mentions hz pk (inet_daddr t) (v, t)"
proof -
  have "has_substr (address_cols q src srcp dest destp) (hex08 dest)" for q src srcp dest destp
    unfolding has_substr_iff address_cols_def
    by (rule exI [of _ "pad_blanks 4 (show_int (sint q)) @ '': '' @ hex08 src @ '':'' @ hex04 srcp @ '' ''"],
        rule exI [of _ "'':'' @ hex04 destp @ '' ''"]) (simp only: append.assoc)
  from has_substr_append(1) [OF this] show ?thesis
    unfolding mentions_def conn_cols_def Let_def by (simp split: prod.split)
qed

lemma inode_shown: "has_substr (conn_cols hz pk v t) (show_u (sock_i_ino t))"
  unfolding conn_cols_def
  by (cases "active_timer t (fst (vi_jiffies v))", simp only: Let_def prod.case,
      (rule has_substr_append(2), rule has_substr_append(2), rule has_substr_append(2), rule has_substr_append(2),
       rule has_substr_append(2), rule has_substr_append(2), rule has_substr_prefix))

section \<open>Properties\<close>

text \<open>Every line of the file fits the buffer of the thread that reads it, whatever the fields of the
  sockets: the reader gets whole lines, those of one visit after the other.\<close>

theorem tcp4_lines_fit:
  assumes "prints_pointers pk" "100 \<le> hz"
  shows "read_lines 256 (tcp4_file hz pk vs) = concat (map (\<lambda>v. read_lines 256 (dump_tcp4 hz pk v)) vs)
    \<and> list_all (\<lambda>l. last l = newline) (read_lines 256 (tcp4_file hz pk vs))"
proof (induction vs)
  case (Cons v vs)
  obtain ks where ks: "dump_tcp4 hz pk v = unlines ks" "\<forall>l \<in> set ks. line_ok 256 l"
    using visit_counts [OF assms] unfolding lines_count_def by blast
  obtain ls where ls: "tcp4_file hz pk vs = unlines ls" "\<forall>l \<in> set ls. line_ok 256 l"
    using file_counts [OF assms] unfolding lines_count_def by blast
  have "tcp4_file hz pk (v # vs) = unlines (ks @ ls)"
    using ks(1) ls(1) by (simp add: tcp4_file_def unlines_append)
  moreover have "\<forall>l \<in> set (ks @ ls). line_ok 256 l" using ks(2) ls(2) by auto
  ultimately have "read_lines 256 (tcp4_file hz pk (v # vs)) =
      read_lines 256 (dump_tcp4 hz pk v) @ read_lines 256 (tcp4_file hz pk vs)"
    using ks ls by (simp add: read_lines_unlines)
  moreover have "list_all (\<lambda>l. last l = newline) (read_lines 256 (dump_tcp4 hz pk v))"
    using ks by (simp add: read_lines_unlines list.pred_set)
  ultimately show ?case
    using conjunct2 [OF Cons.IH] by (simp add: conjunct1 [OF Cons.IH, symmetric])
qed (simp add: tcp4_file_def)

text \<open>C22: A round of the retransmission thread on the file adds up the retransmissions and the packets of
  exactly the connections to the destination, as long as no other connection's line shows the eight
  digits of its address.\<close>

theorem destination_counted:
  assumes "prints_pointers pk" "100 \<le> hz"
    and "\<forall>(v, t) \<in> set (connections vs). inet_daddr t \<noteq> a \<longrightarrow> \<not> has_substr (conn_cols hz pk v t) (hex08 a)"
    and "ts = filter (\<lambda>t. inet_daddr t = a) (map snd (connections vs))"
  shows "retransmission_round (hex08 a) (Some (tcp4_file hz pk vs)) s =
    Inr (Some (note_counts (ts \<noteq> [], \<Sum>t\<leftarrow>ts. ucast (sk_total_retrans t), \<Sum>t\<leftarrow>ts. ucast (sk_segs_out t)) s))"
proof -
  have "mentions hz pk a c \<longleftrightarrow> inet_daddr (snd c) = a" if "c \<in> set (connections vs)" for c
  proof (cases c)
    case (Pair v t)
    with assms(3) that have "inet_daddr t \<noteq> a \<longrightarrow> \<not> mentions hz pk a (v, t)" unfolding mentions_def by auto
    then show ?thesis using destination_mentioned [of hz pk t v] Pair by auto
  qed
  then have "filter (mentions hz pk a) (connections vs) = filter (\<lambda>c. inet_daddr (snd c) = a) (connections vs)"
    by (rule filter_cong [OF refl])
  then have "counted hz pk a vs = ts" by (simp add: counted_def assms(4) filter_map comp_def)
  with round_counts [OF assms(1,2), of a vs s] show ?thesis by (simp add: totals_def)
qed

text \<open>A connection is counted whatever its destination when the inode number of its socket, in decimal,
  reads like the address looked for in hexadecimal: the thread then finds a destination there is no
  connection to.\<close>

theorem stranger_counted:
  assumes "prints_pointers pk" "100 \<le> hz" "connections vs = [(v, t)]" "sk_socket_ino t = Some i"
    and "show_nat (unat i) = hex08 a"
  shows "retransmission_round (hex08 a) (Some (tcp4_file hz pk vs)) s =
    Inr (Some (note_counts (True, ucast (sk_total_retrans t), ucast (sk_segs_out t)) s))"
proof -
  have "has_substr (conn_cols hz pk v t) (show_nat (unat i))" using inode_shown [of hz pk v t] assms(4) by (simp add: sock_i_ino_def)
  then have "mentions hz pk a (v, t)" using assms(5) by (simp add: mentions_def)
  then have "counted hz pk a vs = [t]" by (simp add: counted_def assms(3))
  with round_counts [OF assms(1,2), of a vs s] show ?thesis by (simp add: totals_def)
qed

text \<open>The connection of the example in the source, one to another host, and the clock at 1000 ticks.\<close>

definition sample_pk :: "u64 \<Rightarrow> string" where "sample_pk p = ''00000000367a51de''"

definition sample_conn :: tcp_conn where
  "sample_conn = \<lparr>tc_address = 1, inet_daddr = 0x022E030A, inet_rcv_saddr = 0x012E030A, inet_dport = 0x5114,
     inet_sport = 0x2E8B, icsk_pending = 1, icsk_timeout = 1200, sk_timer_pprev = 0, sk_timer_expires = 0,
     sk_state = 1, sk_ack_backlog = 0, rcv_nxt = 5, copied_seq = 5, write_seq = 0x04DC97C7, snd_una = 0,
     icsk_retransmits = 0, icsk_probes_out = 0, sk_socket_ino = Some 13297797, sk_refcnt = 2, icsk_rto = 410,
     ack_ato = 0, ack_quick = 0, ack_pingpong = 0, snd_cwnd = 3722, snd_ssthresh = 500, max_qlen = 0,
     sk_total_retrans = 79, sk_segs_out = 5000\<rparr>"

definition sample_visit :: "u64 \<Rightarrow> tcp_conn \<Rightarrow> tcp_visit" where
  "sample_visit n t = \<lparr>vi_seq_num = n, vi_uid = 0, vi_family = 2, vi_object = Some (Tcp_Sock t),
     vi_jiffies = (1000, 1000)\<rparr>"

lemma sample_pk_prints: "prints_pointers sample_pk"
  by (simp add: prints_pointers_def sample_pk_def)

theorem tcp4_lines_fit_witness:
  "read_lines 256 (tcp4_file 1000 sample_pk [sample_visit 0 sample_conn]) =
     concat (map (\<lambda>v. read_lines 256 (dump_tcp4 1000 sample_pk v)) [sample_visit 0 sample_conn])
   \<and> list_all (\<lambda>l. last l = newline) (read_lines 256 (tcp4_file 1000 sample_pk [sample_visit 0 sample_conn]))"
  by (rule tcp4_lines_fit [OF sample_pk_prints]) simp

definition other_conn :: tcp_conn where
  "other_conn = sample_conn\<lparr>inet_daddr := 0x032E030A, sk_total_retrans := 8, sk_segs_out := 9\<rparr>"

lemma other_line: "conn_cols 1000 sample_pk (sample_visit 1 other_conn) other_conn =
  ''   1: 012E030A:8B2E 032E030A:1451 '' @ ''01 04DC97C7:00000000 01:00000014 00000000 ''
  @ ''    0        0 13297797 2 00000000367a51de 41 0 0 3722 500 ''"
proof -
  have a: "address_cols 1 0x012E030A (htons 0x2E8B) 0x032E030A (htons 0x5114) = ''   1: 012E030A:8B2E 032E030A:1451 ''"
    by (simp add: address_cols_def hex08_def hex04_def pad_blanks_def hex_digit_def show_nat.simps show_int_def
        digit_char_def htons_def byte_of_def) (simp add: numeral_eq_Suc)
  have "hex08l 20 = replicate 6 (CHR ''0'') @ ''14''" by (simp add: hex08l_def pad_zeros_def show_hex.simps hex_digit_def)
  also have "replicate 6 (CHR ''0'') = ''000000''" by (simp add: numeral_eq_Suc)
  finally have l: "hex08l 20 = ''00000014''" by simp
  have s: "state_cols 1 0x04DC97C7 0 1 20 0 = ''01 04DC97C7:00000000 01:00000014 00000000 ''"
    by (simp add: state_cols_def l hex02_def hex08_def hex_digit_def)
  have t: "jiffies_delta_to_clock_t 1000 200 = 20" "jiffies_to_clock_t 1000 410 = 41" "jiffies_to_clock_t 1000 0 = 0"
    by (simp_all add: jiffies_delta_to_clock_t_def jiffies_to_clock_t_def)
  have p: "pad_blanks 5 ''0'' = ''    0''" "pad_blanks 8 ''0'' = ''       0''"
    by (simp_all add: pad_blanks_def numeral_eq_Suc)
  have n: "show_nat 13297797 = ''13297797''" "show_nat 41 = ''41''" "show_nat 3722 = ''3722''" "show_nat 0 = ''0''"
    "show_int 2 = ''2''" "show_int 500 = ''500''"
    by (simp_all add: show_nat.simps show_int_def digit_char_def)
  have c: "window_limit other_conn = 500" "ack_mode other_conn = 0" "rx_queue other_conn = 0"
    "active_timer other_conn x = (1, 1200)" "sock_i_ino other_conn = 13297797" for x
    by (simp_all add: window_limit_def ack_mode_def other_conn_def sample_conn_def tcp_in_initial_slowstart_def
        inet_csk_in_pingpong_mode_def rx_queue_def active_timer_def sock_i_ino_def)
  show ?thesis
    by (simp add: conn_cols_def c) (simp add: other_conn_def sample_conn_def sample_visit_def a s t p n sample_pk_def)
qed

theorem destination_counted_witness:
  "retransmission_round (hex08 0x022E030A)
       (Some (tcp4_file 1000 sample_pk [sample_visit 0 sample_conn, sample_visit 1 other_conn])) fresh_retran =
     Inr (Some (note_counts (True, 79, 5000) fresh_retran))"
proof -
  let ?vs = "[sample_visit 0 sample_conn, sample_visit 1 other_conn]"
  have c: "connections ?vs = [(sample_visit 0 sample_conn, sample_conn), (sample_visit 1 other_conn, other_conn)]"
    by (simp add: connections_def conn_of_def sample_visit_def)
  have "hex08 0x022E030A = ''022E030A''" by (simp add: hex08_def hex_digit_def)
  then have "\<not> has_substr (conn_cols 1000 sample_pk (sample_visit 1 other_conn) other_conn) (hex08 0x022E030A)"
    by (simp add: other_line has_substr_def)
  then have "\<forall>(v, t) \<in> set (connections ?vs). inet_daddr t \<noteq> 0x022E030A \<longrightarrow>
      \<not> has_substr (conn_cols 1000 sample_pk v t) (hex08 0x022E030A)"
    unfolding c by (simp add: sample_conn_def)
  from destination_counted [OF sample_pk_prints _ this refl, of fresh_retran] show ?thesis
    unfolding c by (simp add: sample_conn_def other_conn_def)
qed

theorem stranger_counted_witness:
  "retransmission_round (hex08 0x13297797) (Some (tcp4_file 1000 sample_pk [sample_visit 0 sample_conn])) fresh_retran =
     Inr (Some (note_counts (True, 79, 5000) fresh_retran))"
proof -
  have h: "show_nat (unat (13297797 :: u64)) = hex08 0x13297797"
    by (simp add: hex08_def hex_digit_def show_nat.simps digit_char_def)
  have c: "connections [sample_visit 0 sample_conn] = [(sample_visit 0 sample_conn, sample_conn)]"
    by (simp add: connections_def conn_of_def sample_visit_def)
  have i: "sk_socket_ino sample_conn = Some 13297797" by (simp add: sample_conn_def)
  have k: "100 \<le> (1000 :: u32)" by simp
  from stranger_counted [OF sample_pk_prints k c i h, of fresh_retran] show ?thesis
    by (simp add: sample_conn_def)
qed

end
