(* ===== verification/Hpn_Server.thy ===== *)
theory Hpn_Server
  imports Int_Sink Socket_IO
begin

text \<open>
  The server side of the HPN-SSH interface (\<open>src/userspace/user_dtn.c\<close>): a client asks for one
  reading (\<open>fDoHpnRead\<close>) or a stream (\<open>fDoHpnReadAll\<close>) of the extremes the perf loop publishes under
  \<open>hpn_ret_mutex\<close> and \<open>hpn_ret_cond\<close>, or starts or ends the session.

  What happens while a reader waits comes as a list of wake-ups: the perf loop published (with the
  shared messages and time stamp buffers as they are then), the wait timed out (with the result of
  the \<open>recv\<close> that follows and \<open>errno\<close>), or it ended with another error.  The local messages start
  with whatever the stack holds, as the code does not clear them.
\<close>

definition HPNSSH_READ :: u32 where "HPNSSH_READ = 33"
definition HPNSSH_READALL :: u32 where "HPNSSH_READALL = 44"
definition HPNSSH_SHUTDOWN :: u32 where "HPNSSH_SHUTDOWN = 55"
definition HPNSSH_START :: u32 where "HPNSSH_START = 99"
definition HPNSSH_READ_FS :: u32 where "HPNSSH_READ_FS = 133"
definition HPNSSH_READALL_FS :: u32 where "HPNSSH_READALL_FS = 144"

lemmas hpn_ops = HPNSSH_READ_def HPNSSH_READALL_def HPNSSH_SHUTDOWN_def HPNSSH_START_def

record hpn_shared =
  hs_ret :: hpn_ret
  hs_stats :: qinfo_stats

definition ts_deref :: "qinfo_stats \<Rightarrow> ts_buffer \<Rightarrow> string" where
  "ts_deref st b = (case b of Qinfo_Ms_Ctime_Buf_Min \<Rightarrow> qinfo_ms_ctime_buf_min st
     | Qinfo_Ms_Ctime_Buf_Max \<Rightarrow> qinfo_ms_ctime_buf_max st)"

datatype wake = Published hpn_shared | Timed_Out int int | Wait_Error

definition is_done :: "hpn_shared \<Rightarrow> bool" where
  "is_done h = hpnretcdone (hs_ret h)"

section \<open>Copying the readings\<close>

definition fill_reading :: "string \<Rightarrow> PeerMsg \<Rightarrow> PeerMsg \<Rightarrow> PeerMsg" where
  "fill_reading ts src m = m\<lparr>timestamp := ts, hop_latency := htonl (hop_latency src),
     queue_occupancy := htonl (queue_occupancy src), switch_id := htonl (switch_id src)\<rparr>"

definition clear_done :: "hpn_shared \<Rightarrow> hpn_shared" where
  "clear_done h = h\<lparr>hs_ret := (hs_ret h)
     \<lparr>sHpnRetMsg := (sHpnRetMsg (hs_ret h))\<lparr>pts := None\<rparr>,
      sHpnRetMsg2 := (sHpnRetMsg2 (hs_ret h))\<lparr>pts := None\<rparr>, hpnretcdone := False\<rparr>\<rparr>"

section \<open>One reading\<close>

text \<open>The section after the wait: the message sent, and the shared state it leaves.\<close>

definition read_deliver :: "PeerMsg \<times> PeerMsg \<Rightarrow> hpn_shared \<Rightarrow> PeerMsg \<times> hpn_shared" where
  "read_deliver stack h =
    (let r = hs_ret h;
         m1 = fill_reading (timestamp (sHpnRetMsg r)) (sHpnRetMsg r)
           ((fst stack)\<lparr>msg_no := htonl HPNSSH_MSG, msg_value := htonl HPNSSH_READ_FS\<rparr>);
         m2 = (snd stack)\<lparr>msg_no := htonl HPNSSH_MSG, msg_value := htonl HPNSSH_READ_FS\<rparr>
     in case pts (sHpnRetMsg2 r) of
          None \<Rightarrow> (m1, clear_done h)
        | Some b \<Rightarrow> (fill_reading (ts_deref (hs_stats h) b) (sHpnRetMsg2 r) m2, clear_done h))"

datatype hpn_result = Client_Closed hpn_shared | Reading PeerMsg hpn_shared

fun fDoHpnRead :: "PeerMsg \<times> PeerMsg \<Rightarrow> wake list \<Rightarrow> hpn_shared \<Rightarrow> hpn_result option" where
  "fDoHpnRead stack [] h =
    (if is_done h then Some (case read_deliver stack h of (m, h') \<Rightarrow> Reading m h') else None)"
| "fDoHpnRead stack (w # ws) h =
    (if is_done h then Some (case read_deliver stack h of (m, h') \<Rightarrow> Reading m h')
     else case w of
       Published h' \<Rightarrow> fDoHpnRead stack ws h'
     | Timed_Out y errno \<Rightarrow>
         if errno \<noteq> 0 \<and> y = 0 then Some (Client_Closed h) else fDoHpnRead stack ws h
     | Wait_Error \<Rightarrow> fDoHpnRead stack ws h)"

section \<open>The stream\<close>

text \<open>One delivery: one or two messages with fresh sequence numbers from the counter the peer
  messages use.\<close>

definition readall_text :: string where
  "readall_text = ''Hello there!!! Got your ReadAll message..., Here'' @ [CHR 0x27] @ ''s some data'' @ nl"

definition readall_deliver :: "PeerMsg \<times> PeerMsg \<Rightarrow> hpn_shared \<Rightarrow> u32 \<Rightarrow> PeerMsg list \<times> hpn_shared \<times> u32" where
  "readall_deliver stack h seq =
    (let r = hs_ret h;
         m1 = (fill_reading (timestamp (sHpnRetMsg r)) (sHpnRetMsg r) (fst stack))
           \<lparr>msg_text := readall_text, msg_no := htonl HPNSSH_MSG,
            msg_value := htonl HPNSSH_READALL_FS, seq_no := htonl (seq + 1)\<rparr>
     in case pts (sHpnRetMsg2 r) of
          None \<Rightarrow> ([m1], clear_done h, seq + 1)
        | Some b \<Rightarrow>
            let m2 = (fill_reading (ts_deref (hs_stats h) b) (sHpnRetMsg2 r) (snd stack))
              \<lparr>msg_text := readall_text, msg_no := htonl HPNSSH_MSG,
               msg_value := htonl HPNSSH_READALL_FS, seq_no := htonl (seq + 2)\<rparr>
            in ([m1, m2], clear_done h, seq + 2))"

text \<open>Writing the messages until a write fails (\<open>str_cli\<close> returns 1 on \<open>EPIPE\<close>): those written, and
  whether the stream goes on.  The results of the writes are consumed from a list, after whose end
  writes succeed.\<close>

fun write_all :: "PeerMsg list \<Rightarrow> int list \<Rightarrow> PeerMsg list \<times> int list \<times> bool" where
  "write_all [] rs = ([], rs, True)"
| "write_all (m # ms) [] = (m # ms, [], True)"
| "write_all (m # ms) (r # rs) =
    (if r \<noteq> 0 then ([], rs, False)
     else case write_all ms rs of (sent, rs', ok) \<Rightarrow> (m # sent, rs', ok))"

text \<open>The loop: the messages written, the counter, and whether it ended because the client is gone
  (it ends with the wake-ups otherwise, still waiting).\<close>

function fDoHpnReadAll ::
  "PeerMsg \<times> PeerMsg \<Rightarrow> wake list \<Rightarrow> int list \<Rightarrow> hpn_shared \<Rightarrow> u32 \<Rightarrow> PeerMsg list \<times> u32 \<times> bool" where
  "fDoHpnReadAll stack ws rs h seq =
    (if is_done h
     then (case readall_deliver stack h seq of (ms, h', seq') \<Rightarrow>
            case write_all ms rs of (sent, rs', ok) \<Rightarrow>
              if ok then (case fDoHpnReadAll stack ws rs' (clear_done h) seq' of
                            (sent', seq'', gone) \<Rightarrow> (sent @ sent', seq'', gone))
              else (sent, seq', True))
     else case ws of [] \<Rightarrow> ([], seq, False)
     | Published h' # ws' \<Rightarrow> fDoHpnReadAll stack ws' rs h' seq
     | Timed_Out y errno # ws' \<Rightarrow>
         if errno \<noteq> 0 \<and> y = 0 then ([], seq, True) else fDoHpnReadAll stack ws' rs h seq
     | Wait_Error # ws' \<Rightarrow> fDoHpnReadAll stack ws' rs h seq)"
  by pat_completeness auto
termination
  by (relation "measure (\<lambda>(stack, ws, rs, h, seq). 2 * length ws + (if is_done h then 1 else 0))")
    (auto simp: is_done_def clear_done_def)

declare fDoHpnReadAll.simps [simp del]

section \<open>Dispatch\<close>

definition fDoHpnStart :: "PeerMsg" where
  "fDoHpnStart = zero_msg\<lparr>msg_text := ''Hello there!!! Got your start message...'' @ nl,
     msg_no := htonl HPNSSH_MSG, msg_value := htonl 199\<rparr>"

datatype hpn_action = A_Read | A_ReadAll | A_Shutdown | A_Send PeerMsg | A_Invalid u32 | A_Ignored

definition fDoHpnAssessment :: "u32 \<Rightarrow> hpn_action" where
  "fDoHpnAssessment val =
    (if val = HPNSSH_READ then A_Read
     else if val = HPNSSH_READALL then A_ReadAll
     else if val = HPNSSH_SHUTDOWN then A_Shutdown
     else if val = HPNSSH_START then A_Send fDoHpnStart
     else A_Invalid val)"

text \<open>\<open>doProcessHpnClientReq\<close>: what is done for each buffer read into \<open>from_cli\<close>, and whether the other
  end has closed.\<close>

definition hpn_request :: "PeerMsg \<Rightarrow> hpn_action" where
  "hpn_request m =
    (if ntohl (msg_no m) = HPNSSH_MSG then fDoHpnAssessment (ntohl (msg_value m)) else A_Ignored)"

definition doProcessHpnClientReq :: "byte list \<Rightarrow> sys_read list \<Rightarrow> hpn_action list \<times> bool" where
  "doProcessHpnClientReq from_cli evs =
    (case serve sizeof_PeerMsg from_cli evs of (bufs, ended) \<Rightarrow> (map (hpn_request \<circ> decode_msg) bufs, ended))"

section \<open>Lemmas\<close>

lemma is_done_clear [simp]: "\<not> is_done (clear_done h)"
  by (simp add: is_done_def clear_done_def)

lemma read_done: "is_done h \<Longrightarrow> fDoHpnRead stack ws h = Some (case read_deliver stack h of (m, h') \<Rightarrow> Reading m h')"
  by (cases ws) simp_all

lemma ntohl_fill [simp]:
  "ntohl (queue_occupancy (fill_reading ts src m)) = queue_occupancy src"
  "timestamp (fill_reading ts src m) = ts"
  by (simp_all add: fill_reading_def)

lemma read_deliver_occupancy:
  "ntohl (queue_occupancy (fst (read_deliver stack h))) =
     queue_occupancy (if pts (sHpnRetMsg2 (hs_ret h)) = None then sHpnRetMsg (hs_ret h)
                      else sHpnRetMsg2 (hs_ret h))"
  by (simp add: read_deliver_def Let_def split: option.splits)

lemma write_all_ok [simp]: "write_all ms [] = (ms, [], True)"
  by (cases ms) simp_all

lemma readall_deliver_seq:
  "readall_deliver stack h seq = (ms, h', seq') \<Longrightarrow>
     map seq_of ms = count_from seq (length ms) \<and> seq' = seq + of_nat (length ms)"
  by (auto simp: readall_deliver_def Let_def seq_of_def numeral_2_eq_2 add.assoc split: option.splits)

lemma count_from_append: "count_from a (m + n) = count_from a m @ count_from (a + of_nat m) n"
  by (induction m arbitrary: a) (simp_all add: ac_simps)

lemma readall_seq:
  "fDoHpnReadAll stack ws rs h seq = (sent, seq', gone) \<Longrightarrow> rs = [] \<Longrightarrow>
     map seq_of sent = count_from seq (length sent) \<and> seq' = seq + of_nat (length sent)"
proof (induction stack ws rs h seq arbitrary: sent seq' gone rule: fDoHpnReadAll.induct)
  case (1 stack ws rs h seq)
  show ?case
  proof (cases "is_done h")
    case True
    obtain ms h1 seq1 where d: "readall_deliver stack h seq = (ms, h1, seq1)" by (metis prod_cases3)
    obtain s2 q2 g2 where r: "fDoHpnReadAll stack ws [] (clear_done h) seq1 = (s2, q2, g2)" by (metis prod_cases3)
    have w: "write_all ms rs = (ms, [], True)" using "1.prems"(2) by simp
    have e: "sent = ms @ s2" "seq' = q2"
      using "1.prems"(1) True d r w by (subst (asm) fDoHpnReadAll.simps, simp)+
    have "map seq_of s2 = count_from seq1 (length s2) \<and> q2 = seq1 + of_nat (length s2)"
      by (rule "1.IH"(1) [OF True d [symmetric] refl w [symmetric] refl TrueI r refl])
    with e show ?thesis
      using readall_deliver_seq [OF d] by (simp add: count_from_append add.assoc)
  next
    case False
    show ?thesis
    proof (cases ws)
      case Nil
      with "1.prems" False show ?thesis by (subst (asm) fDoHpnReadAll.simps) simp
    next
      case (Cons w ws')
      show ?thesis
      proof (cases w)
        case (Published h')
        with Cons False "1.prems" have "fDoHpnReadAll stack ws' rs h' seq = (sent, seq', gone)"
          by (subst (asm) fDoHpnReadAll.simps) simp
        from "1.IH"(2) [OF False Cons Published this "1.prems"(2)] show ?thesis .
      next
        case (Timed_Out y errno)
        show ?thesis
        proof (cases "errno \<noteq> 0 \<and> y = 0")
          case True
          with Cons False Timed_Out "1.prems" show ?thesis by (subst (asm) fDoHpnReadAll.simps) simp
        next
          case go: False
          with Cons False Timed_Out "1.prems" have "fDoHpnReadAll stack ws' rs h seq = (sent, seq', gone)"
            by (subst (asm) fDoHpnReadAll.simps) simp
          from "1.IH"(3) [OF False Cons Timed_Out go this "1.prems"(2)] show ?thesis .
        qed
      next
        case Wait_Error
        with Cons False "1.prems" have "fDoHpnReadAll stack ws' rs h seq = (sent, seq', gone)"
          by (subst (asm) fDoHpnReadAll.simps) simp
        from "1.IH"(4) [OF False Cons Wait_Error this "1.prems"(2)] show ?thesis .
      qed
    qed
  qed
qed

section \<open>Properties\<close>

text \<open>What a waiting client reads.  A client waiting for a reading when a poll with at least one
  hop is published gets one message in network order whose queue occupancy is the later of the two
  extremes if both were set and the one that was set otherwise, and the reading is consumed: the
  next reader waits for the next poll.\<close>

theorem hpn_read_reports_poll:
  assumes "hs \<noteq> []" "st = note_all hs (poll_begin stb)" "pts (sHpnRetMsg2 r) = None"
    and "\<not> is_done h" "h' = \<lparr>hs_ret = poll_end 1 st r, hs_stats = st\<rparr>"
  shows "\<exists>m h''. fDoHpnRead stack (Published h' # ws) h = Some (Reading m h'')
    \<and> ntohl (msg_no m) = HPNSSH_MSG \<and> ntohl (msg_value m) = HPNSSH_READ_FS
    \<and> ntohl (queue_occupancy m) =
        (if qinfo_min_value st = QINFO_START_MIN_VALUE then qinfo_max_value st
         else if qinfo_max_value st = 0 then qinfo_min_value st
         else if qinfo_clk_min st \<le> qinfo_clk_max st then qinfo_max_value st
         else qinfo_min_value st)
    \<and> fDoHpnRead stack [] h'' = None"
proof -
  obtain clk ms md hs' where h: "hs = (clk, ms, md) # hs'" using assms(1) by (cases hs) auto
  have np: "\<not> perf_buffer_poll_start st"
    using note_all_values(3) [OF note_hop_values(3)] assms(2) h by simp
  have d: "is_done h'"
    using np assms(5) by (simp add: is_done_def poll_end_def publish_min_first_def
        publish_max_first_def publish_min_only_def publish_max_only_def)
  obtain m h'' where m: "read_deliver stack h' = (m, h'')" by fastforce
  have "h'' = clear_done h'"
    using m by (auto simp: read_deliver_def Let_def split: option.splits)
  then have "fDoHpnRead stack [] h'' = None" by simp
  moreover have "fDoHpnRead stack (Published h' # ws) h = Some (Reading m h'')"
    using assms(4) read_done [OF d] m by simp
  moreover have "ntohl (msg_no m) = HPNSSH_MSG \<and> ntohl (msg_value m) = HPNSSH_READ_FS"
    using m by (auto simp: read_deliver_def Let_def fill_reading_def split: option.splits)
  moreover have "ntohl (queue_occupancy m) =
        (if qinfo_min_value st = QINFO_START_MIN_VALUE then qinfo_max_value st
         else if qinfo_max_value st = 0 then qinfo_min_value st
         else if qinfo_clk_min st \<le> qinfo_clk_max st then qinfo_max_value st
         else qinfo_min_value st)"
  proof -
    have occ: "ntohl (queue_occupancy m) =
       queue_occupancy (if pts (sHpnRetMsg2 (hs_ret h')) = None then sHpnRetMsg (hs_ret h')
                      else sHpnRetMsg2 (hs_ret h'))"
      using read_deliver_occupancy [of stack h'] m by simp
    have e: "hs_ret h' = poll_end 1 st r" using assms(5) by simp
    show ?thesis
      unfolding occ e using np assms(3)
      by (cases "qinfo_min_value st = QINFO_START_MIN_VALUE"; cases "qinfo_max_value st = 0";
          cases "qinfo_clk_min st \<le> qinfo_clk_max st")
        (simp_all add: poll_end_def publish_min_first_def publish_max_first_def
          publish_min_only_def publish_max_only_def)
  qed
  ultimately show ?thesis by blast
qed

definition idle_hpn :: hpn_shared where
  "idle_hpn = \<lparr>hs_ret = \<lparr>sHpnRetMsg = zero_msg, sHpnRetMsg2 = zero_msg, hpnretcdone = False\<rparr>,
     hs_stats = zero_stats\<rparr>"

theorem hpn_read_reports_poll_witness:
  "\<exists>m h''. fDoHpnRead (zero_msg, zero_msg)
      [Published \<lparr>hs_ret = poll_end 1 (note_all [example_hop 900, example_hop 5, example_hop 20]
          (poll_begin zero_stats)) (hs_ret idle_hpn),
        hs_stats = note_all [example_hop 900, example_hop 5, example_hop 20] (poll_begin zero_stats)\<rparr>]
      idle_hpn = Some (Reading m h'') \<and> ntohl (queue_occupancy m) = 20"
proof -
  let ?st = "note_all [example_hop 900, example_hop 5, example_hop 20] (poll_begin zero_stats)"
  have v: "qinfo_min_value ?st = 5" "qinfo_max_value ?st = 20" "qinfo_clk_min ?st \<le> qinfo_clk_max ?st"
    by (simp_all add: example_hop_def note_hop_def note_min_def note_max_def poll_begin_def
        hop_Qinfo_def QINFO_START_MIN_VALUE_def)
  have i: "\<not> is_done idle_hpn" "pts (sHpnRetMsg2 (hs_ret idle_hpn)) = None"
    by (simp_all add: idle_hpn_def is_done_def zero_msg_def)
  from hpn_read_reports_poll [OF _ refl i(2) i(1) refl, where hs = "[example_hop 900, example_hop 5, example_hop 20]"
      and stb = zero_stats and stack = "(zero_msg, zero_msg)" and ws = "[]"]
  show ?thesis by (auto simp: v QINFO_START_MIN_VALUE_def simp del: fDoHpnRead.simps note_all.simps)
qed

text \<open>The stream's numbers.  As long as its writes succeed, a stream sends its messages with
  consecutive sequence numbers drawn from \<open>sMsgSeqNo\<close>, the counter of the messages to the source
  DTN, and leaves that counter advanced by as many: whatever the stream numbered is a gap in the
  numbers the source DTN sees.\<close>

theorem readall_numbers:
  assumes "fDoHpnReadAll stack ws [] h seq = (sent, seq', gone)"
  shows "map seq_of sent = count_from seq (length sent) \<and> seq' = seq + of_nat (length sent)"
  using readall_seq [OF assms refl] .

definition done_hpn :: hpn_shared where
  "done_hpn = idle_hpn\<lparr>hs_ret := (hs_ret idle_hpn)\<lparr>hpnretcdone := True\<rparr>\<rparr>"

text \<open>The time stamp may belong to another reading.  If after the publication of both extremes and
  before the client reads, the next poll sees a hop above its maximum, the client gets the old
  maximum's occupancy with the new hop's time stamp.\<close>

theorem read_time_stamp_race:
  assumes "\<not> perf_buffer_poll_start st" "qinfo_max_value st < hop_Qinfo md"
    and "h = \<lparr>hs_ret = publish_min_first st0 r, hs_stats = note_hop clk ms md st\<rparr>"
  shows "\<exists>m h''. fDoHpnRead stack [] h = Some (Reading m h'')
    \<and> ntohl (queue_occupancy m) = qinfo_max_value st0 \<and> timestamp m = ms"
proof -
  have "is_done h" using assms(3) by (simp add: is_done_def publish_min_first_def)
  moreover obtain m h'' where m: "read_deliver stack h = (m, h'')" by fastforce
  moreover have "qinfo_ms_ctime_buf_max (note_hop clk ms md st) = ms"
    using assms(1,2) by (auto simp: note_hop_def note_max_def note_min_def)
  ultimately show ?thesis
    using assms(3) by (auto simp: read_deliver_def Let_def publish_min_first_def ts_deref_def)
qed

end
