(* ===== verification/Hpn_Client.thy ===== *)
theory Hpn_Client
  imports Hpn_Server
begin

text \<open>
  The HPN-SSH client of \<open>src/userspace/myclient.c\<close>: it connects, says START, asks for the stream of
  readings and shows what the server sends until SIGINT, and its session with \<open>Hpn_Server\<close>.

  A turn of the client's loop comes with what \<open>Connect\<close> returns, what the stack held where the message
  is read to, the results of \<open>read\<close>, and whether SIGINT arrives when they are used up.  Interruptions
  among the results are by SIGUSR1, which changes the log level; the level is constant in a turn.  What
  is shown is what a reading's lines of the log say; the other lines are left out.
\<close>

section \<open>What the server sent\<close>

text \<open>SIGUSR1 steps through the levels.\<close>

definition sig_usr1_handler :: "nat \<Rightarrow> nat" where
  "sig_usr1_handler vDebugLevel = (if vDebugLevel < 3 then vDebugLevel + 1 else 0)"

text \<open>Time, switch, queue occupancy and hop latency of a reading.\<close>

type_synonym reading = "string \<times> u32 \<times> u32 \<times> u32"

definition reading_lines :: "PeerMsg \<Rightarrow> reading" where
  "reading_lines m = (timestamp m, ntohl (switch_id m), ntohl (queue_occupancy m), ntohl (hop_latency m))"

definition fDoHpnTimeoutFS :: "nat \<Rightarrow> PeerMsg \<Rightarrow> reading list" where
  "fDoHpnTimeoutFS lvl m = (if 1 < lvl then [reading_lines m] else [])"

definition fDoHpnReadFS :: "nat \<Rightarrow> PeerMsg \<Rightarrow> reading list" where
  "fDoHpnReadFS lvl m = (if 0 < lvl then [reading_lines m] else [])"

definition fDoHpnReadAllFS :: "nat \<Rightarrow> PeerMsg \<Rightarrow> reading list" where
  "fDoHpnReadAllFS lvl m = (if 0 < lvl then [reading_lines m] else [])"

definition fDoHpnFromServer :: "nat \<Rightarrow> u32 \<Rightarrow> PeerMsg \<Rightarrow> reading list" where
  "fDoHpnFromServer lvl val m =
    (if val = 133 then fDoHpnReadFS lvl m
     else if val = 144 then fDoHpnReadAllFS lvl m
     else if val = 199 then []
     else if val = 166 then fDoHpnTimeoutFS lvl m
     else [])"

definition from_server :: "nat \<Rightarrow> PeerMsg \<Rightarrow> reading list" where
  "from_server lvl m = (if ntohl (msg_no m) = HPNSSH_MSG then fDoHpnFromServer lvl (ntohl (msg_value m)) m else [])"

section \<open>Reading\<close>

text \<open>A turn's input, and how a wait for the server ends: \<open>Still_Waiting\<close> when neither a message nor
  SIGINT comes.  The reads are those of \<open>Socket_IO\<close>; SIGINT makes the read it interrupts return -1.\<close>

record turn =
  tu_connect :: int
  tu_stack :: "byte list"
  tu_reads :: "sys_read list"
  tu_sigint :: bool

datatype fs_end = Closed_Or_Read | Shut_Down | Still_Waiting

text \<open>One message.\<close>

definition process_request_fs :: "nat \<Rightarrow> bool \<Rightarrow> turn \<Rightarrow> reading list \<times> fs_end" where
  "process_request_fs lvl vShutdown t =
    (case Readn sizeof_PeerMsg (tu_stack t) (tu_reads t) of
       None \<Rightarrow> ([], if tu_sigint t then Shut_Down else Still_Waiting)
     | Some (n, buf, _) \<Rightarrow>
         if n = 0 \<or> vShutdown then ([], Closed_Or_Read)
         else (from_server lvl (decode_msg buf), Closed_Or_Read))"

text \<open>Messages until the server closes or SIGINT.  With \<open>vShutdown\<close> set before, the first read that
  returns ends it.\<close>

definition process_request_fs2 :: "nat \<Rightarrow> bool \<Rightarrow> turn \<Rightarrow> reading list \<times> fs_end" where
  "process_request_fs2 lvl vShutdown t =
    (if vShutdown
     then (case Readn sizeof_PeerMsg (tu_stack t) (tu_reads t) of
        None \<Rightarrow> ([], if tu_sigint t then Shut_Down else Still_Waiting)
      | Some _ \<Rightarrow> ([], Closed_Or_Read))
     else (case serve sizeof_PeerMsg (tu_stack t) (tu_reads t) of (bufs, ended) \<Rightarrow>
       (concat (map (from_server lvl \<circ> decode_msg) bufs),
        if ended then Closed_Or_Read else if tu_sigint t then Shut_Down else Still_Waiting)))"

section \<open>The loop of the client\<close>

record hpn_client =
  cl_value :: u32            \<comment> \<open>\<open>hpnMsg2.value\<close>, the state\<close>
  hpnMsgSeqNo :: u32
  cl_shutdown :: bool        \<comment> \<open>\<open>vShutdown\<close>\<close>
  cl_sent :: "PeerMsg list"
  cl_shown :: "reading list"

definition start_client :: hpn_client where
  "start_client = \<lparr>cl_value = HPNSSH_START, hpnMsgSeqNo = 0, cl_shutdown = False, cl_sent = [], cl_shown = []\<rparr>"

datatype cl_outcome = Again hpn_client | Exit int hpn_client | Blocked hpn_client

definition client_msg :: "u32 \<Rightarrow> string \<Rightarrow> hpn_client \<Rightarrow> PeerMsg" where
  "client_msg value text c = zero_msg\<lparr>msg_no := htonl HPNSSH_MSG, seq_no := htonl (hpnMsgSeqNo c),
     msg_value := value, msg_text := text\<rparr>"

text \<open>What is done with the end of a wait: the next state, SHUTDOWN after SIGINT when asked to look.\<close>

definition shown_then :: "reading list \<times> fs_end \<Rightarrow> (hpn_client \<Rightarrow> hpn_client) \<Rightarrow> hpn_client \<Rightarrow> cl_outcome" where
  "shown_then r k c =
    (let c1 = c\<lparr>cl_shown := cl_shown c @ fst r\<rparr> in
     case snd r of Still_Waiting \<Rightarrow> Blocked c1
     | Shut_Down \<Rightarrow> Again (k (c1\<lparr>cl_shutdown := True\<rparr>))
     | Closed_Or_Read \<Rightarrow> Again (k c1))"

definition look_for_shutdown :: "u32 \<Rightarrow> hpn_client \<Rightarrow> hpn_client" where
  "look_for_shutdown state c =
    (if cl_shutdown c then c\<lparr>cl_value := HPNSSH_SHUTDOWN, cl_shutdown := False\<rparr> else c\<lparr>cl_value := state\<rparr>)"

definition start_text :: string where "start_text = ''This is a START message''"

definition client_turn :: "nat \<Rightarrow> turn \<Rightarrow> hpn_client \<Rightarrow> cl_outcome" where
  "client_turn lvl t c0 =
    (let c = c0\<lparr>hpnMsgSeqNo := hpnMsgSeqNo c0 + 1\<rparr>; state = cl_value c;
         c1 = c\<lparr>cl_value := htonl state\<rparr>;
         send = (\<lambda>text. c1\<lparr>cl_sent := cl_sent c1 @ [client_msg (cl_value c1) text c1]\<rparr>)
     in if state = HPNSSH_START
        then (if tu_connect t \<noteq> 0 then Again c1
              else shown_then (process_request_fs lvl (cl_shutdown c) t)
                (\<lambda>c. c\<lparr>cl_value := HPNSSH_READALL\<rparr>) (send start_text))
        else if state = HPNSSH_SHUTDOWN then Exit 0 c
        else if state = HPNSSH_READ
        then shown_then (process_request_fs lvl (cl_shutdown c) t) (look_for_shutdown HPNSSH_READ) (send start_text)
        else if state = HPNSSH_READALL
        then shown_then (process_request_fs2 lvl (cl_shutdown c) t) (look_for_shutdown HPNSSH_READALL)
               (send ''This is a READALL message'')
        else Exit 1 c)"

fun client_run :: "nat \<Rightarrow> turn list \<Rightarrow> hpn_client \<Rightarrow> cl_outcome" where
  "client_run lvl [] c = Again c"
| "client_run lvl (t # ts) c = (case client_turn lvl t c of Again c' \<Rightarrow> client_run lvl ts c' | r \<Rightarrow> r)"

section \<open>Lemmas: readings over the wire\<close>

text \<open>The readings in a publication of the perf loop, the second when there are two.\<close>

definition published_readings :: "hpn_shared \<Rightarrow> reading list" where
  "published_readings h =
    (let r = hs_ret h; rd = (\<lambda>ts m. (ts, switch_id m, queue_occupancy m, hop_latency m)) in
     rd (timestamp (sHpnRetMsg r)) (sHpnRetMsg r)
     # (case pts (sHpnRetMsg2 r) of None \<Rightarrow> [] | Some b \<Rightarrow> [rd (ts_deref (hs_stats h) b) (sHpnRetMsg2 r)]))"

definition stamps_fit :: "hpn_shared \<Rightarrow> bool" where
  "stamps_fit h \<longleftrightarrow> list_all (\<lambda>(ts, _). length ts < 48 \<and> CHR 0x00 \<notin> set ts) (published_readings h)"

definition carried :: "reading \<Rightarrow> PeerMsg \<Rightarrow> bool" where
  "carried r m \<longleftrightarrow> reading_lines m = r \<and> msg_no m = htonl HPNSSH_MSG \<and> msg_value m = htonl HPNSSH_READALL_FS"

lemma decode_encode_reading [simp]:
  "hop_latency (decode_msg (encode_msg junk m)) = hop_latency m"
  "queue_occupancy (decode_msg (encode_msg junk m)) = queue_occupancy m"
  "switch_id (decode_msg (encode_msg junk m)) = switch_id m"
  by (simp_all add: decode_msg_def encode_msg_def load32_skip)

lemma decode_encode_stamp:
  "length (timestamp m) < 48 \<Longrightarrow> CHR 0x00 \<notin> set (timestamp m) \<Longrightarrow>
     timestamp (decode_msg (encode_msg junk m)) = timestamp m"
  by (simp add: decode_msg_def encode_msg_def load_store_str)

lemma carried_shown:
  assumes "carried (ts, r) m" "length ts < 48" "CHR 0x00 \<notin> set ts" "0 < lvl"
  shows "from_server lvl (decode_msg (encode_msg junk m)) = [(ts, r)]"
proof -
  have t: "timestamp m = ts" using assms(1) by (auto simp: carried_def reading_lines_def)
  then have "timestamp (decode_msg (encode_msg junk m)) = timestamp m"
    using assms(2,3) by (intro decode_encode_stamp) simp_all
  then show ?thesis using assms(1,4)
    by (auto simp: from_server_def fDoHpnFromServer_def fDoHpnReadAllFS_def carried_def reading_lines_def
        HPNSSH_READALL_FS_def)
qed

lemma deliver_carried:
  "readall_deliver stack h seq = (ms, h', seq') \<Longrightarrow> list_all2 carried (published_readings h) ms"
  by (auto simp: readall_deliver_def Let_def published_readings_def carried_def reading_lines_def fill_reading_def
      split: option.splits)

text \<open>The stream of a server nobody interrupts, publication after publication.\<close>

lemma stream_carried:
  assumes "\<forall>h \<in> set hs. is_done h" "\<not> is_done h0"
    and "fDoHpnReadAll stack (map Published hs) [] h0 seq = (sent, seq', gone)"
  shows "list_all2 carried (concat (map published_readings hs)) sent"
  using assms
proof (induction hs arbitrary: h0 seq sent seq' gone)
  case Nil
  then show ?case by (subst (asm) fDoHpnReadAll.simps) simp
next
  case (Cons h hs)
  have d: "is_done h" using Cons.prems(1) by simp
  obtain ms h1 seq1 where ms: "readall_deliver stack h seq = (ms, h1, seq1)" by (metis prod_cases3)
  obtain s2 q2 g2 where r: "fDoHpnReadAll stack (map Published hs) [] (clear_done h) seq1 = (s2, q2, g2)"
    by (metis prod_cases3)
  have "fDoHpnReadAll stack (map Published (h # hs)) [] h0 seq =
      fDoHpnReadAll stack (map Published hs) [] h seq"
    using Cons.prems(2) by (subst fDoHpnReadAll.simps) simp
  also have "\<dots> = (ms @ s2, q2, g2)"
    using d ms r by (subst fDoHpnReadAll.simps) simp
  finally have e: "sent = ms @ s2" using Cons.prems(3) by simp
  have "list_all2 carried (concat (map published_readings hs)) s2"
    using Cons.IH [OF _ is_done_clear r] Cons.prems(1) by simp
  with deliver_carried [OF ms] show ?case by (simp add: e list_all2_appendI)
qed


text \<open>What the client shows of a carried stream.\<close>

lemma stream_shown:
  assumes "list_all2 carried rs ms" "list_all (\<lambda>(ts, _). length ts < 48 \<and> CHR 0x00 \<notin> set ts) rs" "0 < lvl"
  shows "concat (map (from_server lvl \<circ> decode_msg) (map (encode_msg junk) ms)) = rs"
  using assms(1,2)
proof (induction rule: list_all2_induct)
  case (Cons r rs m ms)
  obtain ts x where r: "r = (ts, x)" by (cases r)
  from Cons show ?case using carried_shown [of ts x m lvl junk] assms(3) by (simp add: r)
qed simp

lemma one_message_read:
  assumes "clean evs" "bytes_of evs = encode_msg junk m" "length junk = 28" "length buf = sizeof_PeerMsg"
  shows "\<exists>evs'. Readn sizeof_PeerMsg buf evs = Some (int sizeof_PeerMsg, encode_msg junk m, evs')"
proof -
  have l: "length (encode_msg junk m) = sizeof_PeerMsg" by (rule length_encode_msg [OF assms(3)])
  from readn_loop_full [OF assms(1), of sizeof_PeerMsg "[]" "[]"] assms(2) l obtain evs' where
    "readn_loop sizeof_PeerMsg [] evs = Some (True, encode_msg junk m, evs')"
    by auto
  then show ?thesis using l assms(4) by (simp add: Readn_def readn_def)
qed

section \<open>Properties\<close>


text \<open>A connection that fails is not tried again: \<open>hpnMsg2.value\<close> is in network byte order by then, no
  state of the client has that value, and the next turn ends the client with 1 before anything was
  sent.\<close>

theorem failed_connect_exits:
  assumes "tu_connect t1 \<noteq> 0"
  shows "\<exists>c. client_run lvl (t1 # t2 # ts) start_client = Exit 1 c \<and> cl_sent c = [] \<and> hpnMsgSeqNo c = 2"
proof -
  have "htonl HPNSSH_START \<notin> {HPNSSH_START, HPNSSH_SHUTDOWN, HPNSSH_READ, HPNSSH_READALL}"
    by (simp add: hpn_ops htonl_def byte_of_def)
  with assms show ?thesis by (simp add: client_turn_def start_client_def Let_def)
qed

text \<open>SIGINT while the client waits for the stream: it closes the connection and exits with 0 in the next
  turn, having sent nothing more.\<close>

lemma sigint_ends_client:
  assumes "cl_value c = HPNSSH_READALL" "\<not> cl_shutdown c" "tu_sigint t1"
    and "serve sizeof_PeerMsg (tu_stack t1) (tu_reads t1) = (bufs, False)"
  shows "\<exists>c' m. client_run lvl (t1 # t2 # ts) c = Exit 0 c' \<and> cl_sent c' = cl_sent c @ [m]"
proof -
  have "HPNSSH_READALL \<noteq> HPNSSH_START" "HPNSSH_READALL \<noteq> HPNSSH_SHUTDOWN" "HPNSSH_READALL \<noteq> HPNSSH_READ"
    "HPNSSH_SHUTDOWN \<noteq> HPNSSH_START"
    by (simp_all add: hpn_ops)
  with assms show ?thesis
    by (simp add: client_turn_def Let_def shown_then_def look_for_shutdown_def process_request_fs2_def)
qed

text \<open>One publication with both extremes, the stream it makes and the client that reads it.\<close>

definition both_extremes :: hpn_shared where
  "both_extremes = \<lparr>hs_ret = \<lparr>sHpnRetMsg = zero_msg\<lparr>timestamp := ''now'', hop_latency := 7, queue_occupancy := 900, switch_id := 3\<rparr>,
       sHpnRetMsg2 = zero_msg\<lparr>pts := Some Qinfo_Ms_Ctime_Buf_Max, hop_latency := 8, queue_occupancy := 5, switch_id := 4\<rparr>,
       hpnretcdone = True\<rparr>,
     hs_stats = zero_stats\<lparr>qinfo_ms_ctime_buf_max := ''later''\<rparr>\<rparr>"

fun segments :: "byte list \<Rightarrow> sys_read list" where
  "segments [] = []"
| "segments (b # bs) = Data b [] # Read_Intr # segments bs"

lemma segments_clean: "clean (segments bs)" "bytes_of (segments bs) = bs"
  by (induction bs) simp_all


theorem failed_connect_exits_witness:
  "\<exists>c. client_run 1 [\<lparr>tu_connect = 1, tu_stack = [], tu_reads = [], tu_sigint = False\<rparr>,
      \<lparr>tu_connect = 0, tu_stack = [], tu_reads = [], tu_sigint = False\<rparr>] start_client = Exit 1 c
    \<and> cl_sent c = [] \<and> hpnMsgSeqNo c = 2"
  by (rule failed_connect_exits) simp

end
