(* ===== verification/Start_Up.thy ===== *)
theory Start_Up
  imports Tcp_Iter Hpn_Client Pacing User_Config
begin

text \<open>
  The threads \<open>main\<close> starts (\<open>src/userspace/user_dtn.c\<close>), the life of the perf loop's thread
  (\<open>fDoRunBpfCollectionPerfEventArray2\<close>) around the polls of \<open>Int_Sink\<close>, the accept loop for HPN-SSH
  clients (\<open>doHandleHpnsshQfactorEnv\<close>), the Kafka consumer
  (\<open>fDoRunKafkaConsume\<close>) over \<open>Pacing\<close>, and the thread that keeps \<open>help_dtn.sh\<close> running.

  What \<open>pthread_create\<close>, \<open>makeTimer\<close>, \<open>bpf_obj_get\<close>, \<open>perf_buffer__new\<close>, \<open>accept\<close> and \<open>librdkafka\<close> return
  are arguments.
\<close>

section \<open>The perf loop's thread\<close>

definition vHouseKeepingTime :: int where "vHouseKeepingTime = 10000000"

text \<open>The timers made, with their times (\<open>None\<close>: the \<open>int\<close> overflows) and whether they repeat; making
  stops at the first \<open>makeTimer\<close> that does not return 0.\<close>

type_synonym timer_made = "string \<times> (int \<times> int) option \<times> bool"

definition wanted_timers :: "user_settings \<Rightarrow> timer_made list" where
  "wanted_timers s =
    [(''qOCC_Hop_TimerID'', Some (alarm_timer s), False), (''qOCC_TimerID'', Some (alarm_timer s), False),
     (''qEvaluation_TimerID'', evaluation_timer s, False),
     (''tHouseKeeping_TimerID'', Some (timer_value vHouseKeepingTime), True)]"

fun make_timers :: "(nat \<Rightarrow> int) \<Rightarrow> nat \<Rightarrow> timer_made list \<Rightarrow> timer_made list \<times> bool" where
  "make_timers rc i [] = ([], True)"
| "make_timers rc i (t # ts) =
    (if rc i \<noteq> 0 then ([], False) else (t # fst (make_timers rc (i + 1) ts), snd (make_timers rc (i + 1) ts)))"

text \<open>The local variables for the maps, \<open>None\<close> for one that was never assigned: \<open>maps\<close> starts as zeros,
  the others as whatever the stack held.\<close>

type_synonym descriptors = "(string \<times> int option) list"

definition no_maps :: descriptors where
  "no_maps = [(''flow_counters'', Some 0), (''flow_thresholds'', Some 0), (''hop_thresholds'', Some 0),
     (''perf_output_map'', None), (''int_dscp_map'', None)]"

fun open_maps :: "(nat \<Rightarrow> int) \<Rightarrow> nat \<Rightarrow> descriptors \<Rightarrow> descriptors \<times> bool" where
  "open_maps fd i [] = ([], True)"
| "open_maps fd i ((n, v) # ds) =
    (if fd i < 0 then ((n, Some (fd i)) # ds, False)
     else ((n, Some (fd i)) # fst (open_maps fd (i + 1) ds), snd (open_maps fd (i + 1) ds)))"

text \<open>Those closed, and whether all were, in which case \<open>pb\<close> is looked at too.\<close>

fun close_fds :: "descriptors \<Rightarrow> c_fault + (int list \<times> bool)" where
  "close_fds [] = Inr ([], True)"
| "close_fds ((n, v) # ds) =
    (case v of None \<Rightarrow> Inl (Uninitialised n)
     | Some fd \<Rightarrow> if fd \<le> 0 then Inr ([], False)
         else bindE (close_fds ds) (\<lambda>(fds, all_closed). Inr (fd # fds, all_closed)))"

definition close_maps :: "descriptors \<Rightarrow> int option \<Rightarrow> c_fault + (int list \<times> bool)" where
  "close_maps ds pb =
    bindE (close_fds ds) (\<lambda>(fds, all_closed).
      if \<not> all_closed then Inr (fds, False)
      else case pb of None \<Rightarrow> Inl (Uninitialised ''pb'') | Some b \<Rightarrow> Inr (fds, b \<noteq> 0))"

text \<open>The polls: what each returned and the hops its samples had.  -4 (\<open>EINTR\<close>) does not end the loop.\<close>

type_synonym poll = "int \<times> (time_t \<times> string \<times> int_hop_metadata) list"

fun perf_event_loop :: "poll list \<Rightarrow> hpn_shared \<Rightarrow> bool \<times> hpn_shared" where
  "perf_event_loop [] h = (False, h)"
| "perf_event_loop ((err, hs) # ps) h =
    (let st = note_all hs (poll_begin (hs_stats h));
         h1 = \<lparr>hs_ret = poll_end err st (hs_ret h), hs_stats = st\<rparr>
     in if 0 \<le> err \<or> err = - 4 then perf_event_loop ps h1 else (True, h1))"

record perf_world =
  pw_timers :: "nat \<Rightarrow> int"
  pw_maps :: "nat \<Rightarrow> int"
  pw_buffer :: int          \<comment> \<open>the pointer \<open>perf_buffer__new\<close> returns\<close>
  pw_polls :: "poll list"

datatype perf_end =
    No_Timers
  | Polling hpn_shared
  | Perf_Ended "int list" bool hpn_shared   \<comment> \<open>descriptors closed, buffer freed\<close>

definition fDoRunBpfCollectionPerfEventArray2 ::
  "user_settings \<Rightarrow> perf_world \<Rightarrow> hpn_shared \<Rightarrow> timer_made list \<times> (c_fault + perf_end)" where
  "fDoRunBpfCollectionPerfEventArray2 s w h =
    (let (made, ok) = make_timers (pw_timers w) 0 (wanted_timers s);
         ending = (\<lambda>ds pb h. bindE (close_maps ds pb) (\<lambda>(fds, freed). Inr (Perf_Ended fds freed h)))
     in (made,
       if \<not> ok then Inr No_Timers
       else
         let (ds, opened) = open_maps (pw_maps w) 0 no_maps in
         if \<not> opened then ending ds None h
         else if pw_buffer w = 0 then ending ds (Some 0) h
         else let (ended, h1) = perf_event_loop (pw_polls w) h in
           if ended then ending ds (Some (pw_buffer w)) h1 else Inr (Polling h1)))"

section \<open>Clients of the HPN-SSH server\<close>

text \<open>Accepting a connection: interrupted, another error, or a descriptor and the peer's address if
  \<open>getpeername\<close> tells it.  \<open>err_sys\<close> only prints, so after an error the descriptor is -1, whose
  peer \<open>getpeername\<close> does not tell.\<close>

datatype accepted = Accept_Intr | Accept_Fail | Accepted int "u32 option"

record hpn_listener =
  hl_dest_binary :: string     \<comment> \<open>\<open>aDest_Ip2_Binary\<close>\<close>
  hl_handlers :: "int list"    \<comment> \<open>the threads started, by descriptor\<close>

definition hpn_connection :: "int \<Rightarrow> u32 option \<Rightarrow> hpn_listener \<Rightarrow> hpn_listener" where
  "hpn_connection connfd peer l =
    l\<lparr>hl_dest_binary := (case peer of None \<Rightarrow> hl_dest_binary l | Some a \<Rightarrow> hex08 a),
      hl_handlers := hl_handlers l @ [connfd]\<rparr>"

definition hpn_accept :: "accepted \<Rightarrow> hpn_listener \<Rightarrow> hpn_listener" where
  "hpn_accept r l = (case r of Accept_Intr \<Rightarrow> l | Accept_Fail \<Rightarrow> hpn_connection (- 1) None l
     | Accepted connfd peer \<Rightarrow> hpn_connection connfd peer l)"

definition doHandleHpnsshQfactorEnv :: "accepted list \<Rightarrow> hpn_listener \<Rightarrow> hpn_listener" where
  "doHandleHpnsshQfactorEnv rs l = fold hpn_accept rs l"

section \<open>The Kafka consumer\<close>

text \<open>What comes while the thread polls: nothing in a second, the end of the partition, another error,
  a payload (with the state it is assessed in and what \<open>timer_settime\<close> returns), the evaluation timer
  fires, and SIGINT, whose handler clears \<open>run_kconsumer\<close>.\<close>

datatype kafka_event =
    No_Message
  | Partition_Eof
  | Consumer_Error
  | Payload pace_env int string
  | Evaluation_Fires
  | Sigint

datatype kafka_end = Consuming | Returned_1 | Closed_Waiting

fun kafka_loop :: "bool \<Rightarrow> kafka_event list \<Rightarrow> pacer \<times> timers \<Rightarrow> kafka_end \<times> pacer \<times> timers" where
  "kafka_loop kafka [] s = (Consuming, s)"
| "kafka_loop kafka (e # es) s =
    (case e of
       No_Message \<Rightarrow> kafka_loop kafka es s
     | Partition_Eof \<Rightarrow> kafka_loop kafka es s
     | Consumer_Error \<Rightarrow> (Returned_1, s)
     | Payload env ret payload \<Rightarrow> kafka_loop kafka es
         (if kafka then fDoQinfoAssessmentKafka env ret (strtoul payload) s else s)
     | Evaluation_Fires \<Rightarrow> kafka_loop kafka es
         (fst s, qEvaluation_TimerID_Handler ((snd s)\<lparr>eval_armed := False\<rparr>))
     | Sigint \<Rightarrow> (Closed_Waiting, s))"

text \<open>\<open>None\<close>: the program is aborted, as \<open>g_error\<close> does, when the configuration cannot be read, the
  consumer not be created or the topic not be subscribed to.\<close>

definition fDoRunKafkaConsume ::
  "bool \<Rightarrow> bool \<Rightarrow> bool \<Rightarrow> bool \<Rightarrow> kafka_event list \<Rightarrow> pacer \<times> timers \<Rightarrow> (kafka_end \<times> pacer \<times> timers) option" where
  "fDoRunKafkaConsume kafka config consumer subscribed es s =
    (if config \<and> consumer \<and> subscribed then Some (kafka_loop kafka es s) else None)"

section \<open>The helper process\<close>

text \<open>\<open>fDoRunHelperDtn\<close> keeps \<open>help_dtn.sh\<close> running: every five seconds it looks for the process and forks
  again when it is gone.  Before it forks it waits; as SIGCHLD is ignored, \<open>wait\<close> returns only when no
  child of the daemon is left.\<close>

datatype helper_event = Looked bool | No_Child_Left

record helper_dtn =
  hd_waiting :: bool      \<comment> \<open>in \<open>wait\<close>\<close>
  hd_forks :: nat
  hd_ran :: "string list"

abbreviation look_cmd :: string where
  "look_cmd \<equiv> ''ps -ef | grep -v grep | grep -v defunct | grep help_dtn.sh  > /tmp/help_dtn_alive.out 2>/dev/null''"

abbreviation forget_cmd :: string where "forget_cmd \<equiv> ''rm -f /tmp/help_dtn_alive.out''"

definition helper_start :: "bool \<Rightarrow> helper_dtn" where
  "helper_start runaway = \<lparr>hd_waiting = False, hd_forks = 1,
     hd_ran = ''ps -ef | grep -v grep | grep help_dtn.sh  > /tmp/help_dtn_alive.out 2>/dev/null''
       # (if runaway then [''pkill -9 help_dtn.sh''] else []) @ [forget_cmd]\<rparr>"

definition helper_step :: "helper_event \<Rightarrow> helper_dtn \<Rightarrow> helper_dtn" where
  "helper_step e h = (case e of
     Looked alive \<Rightarrow> if hd_waiting h then h
       else h\<lparr>hd_ran := hd_ran h @ [look_cmd, forget_cmd], hd_waiting := \<not> alive\<rparr>
   | No_Child_Left \<Rightarrow> if hd_waiting h then h\<lparr>hd_waiting := False, hd_forks := hd_forks h + 1\<rparr> else h)"

definition fDoRunHelperDtn :: "bool \<Rightarrow> helper_event list \<Rightarrow> helper_dtn" where
  "fDoRunHelperDtn runaway es = fold helper_step es (helper_start runaway)"

section \<open>The threads\<close>

datatype thread = Perf_Loop | Http_Thread | Thresholds_Thread | Helper_Dtn | Highest_Rtt | Messages_From_Peer
  | Messages_To_Peer | Retransmission_Rate | Hpn_Env | Kafka_Consumer

definition main_threads :: "bool \<Rightarrow> thread list" where
  "main_threads kafka =
    (if kafka then [] else [Perf_Loop])
    @ [Http_Thread, Thresholds_Thread, Helper_Dtn, Highest_Rtt, Messages_From_Peer, Messages_To_Peer,
       Retransmission_Rate, Hpn_Env]
    @ (if kafka then [Kafka_Consumer] else [])"

definition hello_hpn :: PeerMsg where
  "hello_hpn = zero_msg\<lparr>msg_text := ''Hello there!!! This is a Hpn msg...'' @ nl, msg_no := htonl HPNSSH_MSG\<rparr>"

record main_state =
  ms_timers :: "timer_made list"    \<comment> \<open>made by \<open>main\<close> itself\<close>
  ms_started :: "thread list"
  ms_joined :: "thread list"        \<comment> \<open>those it waits for, in order\<close>
  ms_hpn :: hpn_shared

text \<open>From the start of the threads to the end of \<open>main\<close>'s waiting; \<open>Inl\<close>: \<open>main\<close> returns.\<close>

definition main_start :: "bool \<Rightarrow> user_settings \<Rightarrow> int \<Rightarrow> (thread \<Rightarrow> int) \<Rightarrow> qinfo_stats \<Rightarrow> int + main_state" where
  "main_start kafka s timerRc create st =
    (if kafka \<and> timerRc \<noteq> 0 then Inl 1
     else
       let started = filter (\<lambda>t. create t = 0) (main_threads kafka) in
       Inr \<lparr>ms_timers = (if kafka then [(''qEvaluation_TimerID'', evaluation_timer s, False)] else []),
         ms_started = started, ms_joined = started,
         ms_hpn = \<lparr>hs_ret = \<lparr>sHpnRetMsg = hello_hpn, sHpnRetMsg2 = hello_hpn, hpnretcdone = False\<rparr>, hs_stats = st\<rparr>\<rparr>)"

section \<open>Lemmas: the maps\<close>

lemma open_maps_names: "map fst (fst (open_maps fd i ds)) = map fst ds"
  by (induction fd i ds rule: open_maps.induct) simp_all

lemma open_maps_all:
  "snd (open_maps fd i ds) \<longleftrightarrow> (\<forall>j < length ds. 0 \<le> fd (i + j))"
  by (induction fd i ds rule: open_maps.induct) (auto simp: less_Suc_eq_0_disj)

text \<open>The descriptors a thread gets hold of, when 0 is not one of them.\<close>

lemma close_opened:
  assumes "\<forall>j < length ds. fd (i + j) \<noteq> 0"
  shows "close_fds (fst (open_maps fd i ds)) =
    Inr (takeWhile (\<lambda>x. 0 < x) (map (\<lambda>j. fd (i + j)) [0..<length ds]), snd (open_maps fd i ds))"
  using assms
proof (induction fd i ds rule: open_maps.induct)
  case (2 fd i n v ds)
  have ne: "fd i \<noteq> 0" using "2.prems" by (auto dest: spec [of _ 0])
  have up: "map (\<lambda>j. fd (i + j)) [0..<length ((n, v) # ds)] = fd i # map (\<lambda>j. fd (i + 1 + j)) [0..<length ds]"
    using map_upt_Suc [of "\<lambda>j. fd (i + j)" "length ds"] by (simp del: upt_Suc)
  show ?case
  proof (cases "fd i < 0")
    case True
    then show ?thesis unfolding up by simp
  next
    case False
    have "\<forall>j < length ds. fd (i + 1 + j) \<noteq> 0" using "2.prems" by (auto dest: spec [of _ "Suc _"])
    from "2.IH" [OF False this] show ?thesis unfolding up using False ne by simp
  qed
qed simp


lemma make_timers_all: "make_timers rc i ts = (ts, True) \<longleftrightarrow> (\<forall>j < length ts. rc (i + j) = 0)"
  by (induction rc i ts rule: make_timers.induct)
    (auto simp: less_Suc_eq_0_disj prod_eq_iff)

lemma open_maps_not_empty: "fst (open_maps fd i no_maps) \<noteq> []"
  using open_maps_names [of fd i no_maps] by (auto simp: no_maps_def)

section \<open>Lemmas: what the consumer does with the pacing\<close>

text \<open>Commands that leave the rate within a tenth and 95% of the speed of the NIC.\<close>

definition Gb_speed :: "pace_env \<Rightarrow> double" where
  "Gb_speed env = ddiv (dint (netDeviceSpeed env)) 1000"

definition rate_allowed :: "double \<Rightarrow> tc_cmd \<Rightarrow> bool" where
  "rate_allowed speed c \<longleftrightarrow> (case rate_of c of None \<Rightarrow> c = Tc_Change_Nopacing
     | Some r \<Rightarrow> dmul speed (dlit (10 / 100)) \<le> r \<and> r < dmul speed (dlit (95 / 100)))"

text \<open>What one payload adds: at most a command, and only through the gate it closes.\<close>

definition paced :: "double \<Rightarrow> pacer \<times> timers \<Rightarrow> pacer \<times> timers \<Rightarrow> nat \<Rightarrow> bool" where
  "paced speed s s' k \<longleftrightarrow> (\<exists>cs. system_cmds (trace (fst s')) = system_cmds (trace (fst s)) @ cs
     \<and> list_all (rate_allowed speed) cs
     \<and> length cs + of_bool (vCanStartEvaluationTimer (snd s')) \<le> k + of_bool (vCanStartEvaluationTimer (snd s)))"

lemma paced_refl: "paced speed s s k"
  by (auto simp: paced_def intro: exI [of _ "[]"])

lemma paced_trans: "paced speed s s' k \<Longrightarrow> paced speed s' s'' l \<Longrightarrow> paced speed s s'' (k + l)"
  unfolding paced_def
proof (elim exE conjE)
  fix cs ds
  assume "system_cmds (trace (fst s')) = system_cmds (trace (fst s)) @ cs" "list_all (rate_allowed speed) cs"
    "length cs + of_bool (vCanStartEvaluationTimer (snd s')) \<le> k + of_bool (vCanStartEvaluationTimer (snd s))"
    "system_cmds (trace (fst s'')) = system_cmds (trace (fst s')) @ ds" "list_all (rate_allowed speed) ds"
    "length ds + of_bool (vCanStartEvaluationTimer (snd s'')) \<le> l + of_bool (vCanStartEvaluationTimer (snd s'))"
  then show "\<exists>cs. system_cmds (trace (fst s'')) = system_cmds (trace (fst s)) @ cs \<and> list_all (rate_allowed speed) cs
      \<and> length cs + of_bool (vCanStartEvaluationTimer (snd s'')) \<le> k + l + of_bool (vCanStartEvaluationTimer (snd s))"
    by (intro exI [of _ "cs @ ds"]) simp
qed

lemma system_cmds_maps [simp]: "system_cmds (map System cs) = cs" "system_cmds (map Suggest cs) = []"
  by (induction cs) simp_all

lemma trace_record [simp]: "trace (record_pacing b f v p) = trace p"
  by (simp add: record_pacing_def shm_write_def)

lemma kafka_remove_paced: "paced speed s (kafka_remove env 0 s) 0"
proof -
  obtain p t where s: "s = (p, t)" by (cases s)
  have "rate_allowed speed Tc_Change_Nopacing" by (simp add: rate_allowed_def)
  then show ?thesis
    by (auto simp: paced_def kafka_remove_def s run_cmds_def fStartEvaluationTimer_def intro: exI [of _ "[]"])
qed

lemma kafka_adjust_paced:
  assumes "dmul speed (dlit (10 / 100)) \<le> v" "v < dmul speed (dlit (95 / 100))"
  shows "paced speed s (kafka_adjust env 0 is_set v s) 0"
proof -
  obtain p t where s: "s = (p, t)" by (cases s)
  have "rate_allowed speed (Tc_Change_Maxrate v)" "rate_allowed speed (Tc_Add_Maxrate v)"
    using assms by (simp_all add: rate_allowed_def)
  then show ?thesis
    by (auto simp: paced_def kafka_adjust_def s Let_def run_cmds_def suggest_cmds_def fStartEvaluationTimer_def)
qed

lemma assessment_paced:
  assumes "Gb_speed env = speed"
  shows "paced speed s (fDoQinfoAssessmentKafka env 0 bw s) 0"
proof -
  obtain p t where s: "s = (p, t)" by (cases s)
  show ?thesis
  proof (cases "vGlobal_average_tx_Gbits_per_sec env = 0")
    case True
    then show ?thesis by (simp add: s fDoQinfoAssessmentKafka_def Let_def paced_refl)
  next
    case False
    obtain b p1 where p1: "pacing_set (pe_attach env 0) p = (b, p1)" by fastforce
    have "trace p1 = trace p" using p1 by (auto simp: pacing_set_def shm_read_def split: if_splits)
    then have e: "paced speed (p, t) x k = paced speed (p1, t) x k" for x k by (simp add: paced_def)
    show ?thesis
      using False e kafka_remove_paced [of speed "(p1, t)" env]
        kafka_adjust_paced [of speed "kafka_pacing (vGlobal_average_tx_Gbits_per_sec env) (kafka_Gbps bw)" "(p1, t)" env b]
        paced_refl [of speed "(p1, t)" 0] assms
      by (cases b) (simp_all add: s fDoQinfoAssessmentKafka_def Let_def p1 Gb_speed_def not_less not_le)
  qed
qed

text \<open>Payloads for which the evaluation timer could be started, on a NIC of one speed.\<close>

fun timed_payload :: "double \<Rightarrow> kafka_event \<Rightarrow> bool" where
  "timed_payload speed (Payload env ret payload) \<longleftrightarrow> ret = 0 \<and> Gb_speed env = speed"
| "timed_payload speed e \<longleftrightarrow> True"

definition firings :: "kafka_event list \<Rightarrow> nat" where
  "firings es = length (filter (\<lambda>e. e = Evaluation_Fires) es)"

lemma kafka_loop_paced:
  "\<forall>e \<in> set es. timed_payload speed e \<Longrightarrow> paced speed s (snd (kafka_loop kafka es s)) (firings es)"
proof (induction es arbitrary: s)
  case Nil
  then show ?case by (simp add: paced_refl)
next
  case (Cons e es)
  have ih: "paced speed s' (snd (kafka_loop kafka es s')) (firings es)" for s' using Cons by simp
  show ?case
  proof (cases e)
    case (Payload env ret payload)
    then have "ret = 0" "Gb_speed env = speed" using Cons.prems by simp_all
    then have "paced speed s (fDoQinfoAssessmentKafka env ret (strtoul payload) s) 0" using assessment_paced by simp
    from paced_trans [OF this ih] ih [of s] Payload show ?thesis by (cases kafka) (simp_all add: firings_def)
  next
    case Evaluation_Fires
    let ?s = "(fst s, qEvaluation_TimerID_Handler ((snd s)\<lparr>eval_armed := False\<rparr>))"
    have "paced speed s ?s 1" by (simp add: paced_def qEvaluation_TimerID_Handler_def)
    from paced_trans [OF this ih] Evaluation_Fires show ?thesis by (simp add: firings_def)
  qed (use ih [of s] in \<open>simp_all add: firings_def paced_def\<close>, (fastforce simp: paced_def)?)
qed


text \<open>A helper that died is not started again while any child is left, and at once when none is.\<close>

lemma helper_restarted:
  assumes "\<not> hd_waiting h" "\<forall>e \<in> set es. e \<noteq> No_Child_Left"
  shows "fold helper_step (Looked False # es) h = helper_step (Looked False) h"
    and "hd_forks (fold helper_step (Looked False # es @ [No_Child_Left]) h) = hd_forks h + 1"
proof -
  let ?h = "helper_step (Looked False) h"
  have w: "hd_waiting ?h" "hd_forks ?h = hd_forks h" using assms(1) by (simp_all add: helper_step_def)
  have "fold helper_step es ?h = ?h" using assms(2)
  proof (induction es)
    case (Cons e es)
    then have "helper_step e ?h = ?h" using w(1) by (cases e) (simp_all add: helper_step_def)
    with Cons show ?case by simp
  qed simp
  then show "fold helper_step (Looked False # es) h = helper_step (Looked False) h"
    and "hd_forks (fold helper_step (Looked False # es @ [No_Child_Left]) h) = hd_forks h + 1"
    using w by (simp_all add: helper_step_def [of No_Child_Left])
qed

section \<open>Properties\<close>

text \<open>C35: The perf loop's thread gives back what it took.  When none of the descriptors is 0, the thread,
  wherever it ends, never looks at a variable it has not assigned, closes exactly the descriptors of
  the maps it opened, in their order, and frees the buffer exactly if it was made.\<close>

theorem perf_thread_cleans_up:
  assumes "\<forall>j < 4. pw_timers w j = 0" "\<forall>j < 5. pw_maps w j \<noteq> 0"
  shows "\<exists>r. fDoRunBpfCollectionPerfEventArray2 s w h = (wanted_timers s, Inr r) \<and>
    (case r of No_Timers \<Rightarrow> False
     | Polling h' \<Rightarrow> (\<forall>j < 5. 0 < pw_maps w j) \<and> pw_buffer w \<noteq> 0 \<and> perf_event_loop (pw_polls w) h = (False, h')
     | Perf_Ended fds freed h' \<Rightarrow> fds = takeWhile (\<lambda>x. 0 < x) (map (pw_maps w) [0..<5])
         \<and> freed = ((\<forall>j < 5. 0 < pw_maps w j) \<and> pw_buffer w \<noteq> 0)
         \<and> (freed \<longrightarrow> perf_event_loop (pw_polls w) h = (True, h')))"
proof -
  have l: "length no_maps = 5" "length (wanted_timers s) = 4" by (simp_all add: no_maps_def wanted_timers_def)
  have t: "make_timers (pw_timers w) 0 (wanted_timers s) = (wanted_timers s, True)"
    using assms(1) make_timers_all [of "pw_timers w" 0 "wanted_timers s"] l by simp
  obtain ds opened where ds: "open_maps (pw_maps w) 0 no_maps = (ds, opened)" by fastforce
  have "\<forall>j < length no_maps. pw_maps w (0 + j) \<noteq> 0" using assms(2) l by simp
  from close_opened [OF this] ds l
  have c: "close_fds ds = Inr (takeWhile (\<lambda>x. 0 < x) (map (pw_maps w) [0..<5]), opened)" by simp
  have "opened \<longleftrightarrow> (\<forall>j < 5. 0 \<le> pw_maps w j)" using open_maps_all [of "pw_maps w" 0 no_maps] ds l by simp
  also have "\<dots> \<longleftrightarrow> (\<forall>j < 5. 0 < pw_maps w j)" using assms(2) by (fastforce simp: order_less_le)
  finally have o: "opened \<longleftrightarrow> (\<forall>j < 5. 0 < pw_maps w j)" .
  obtain ended h1 where e: "perf_event_loop (pw_polls w) h = (ended, h1)" by fastforce
  show ?thesis
  proof (cases opened)
    case False
    with o show ?thesis
      by (simp only: fDoRunBpfCollectionPerfEventArray2_def Let_def t ds prod.case close_maps_def c bindE_simps)
        simp
  next
    case True
    with o have all: "\<forall>j < 5. 0 < pw_maps w j" by simp
    show ?thesis
      using True all e
      by (simp only: fDoRunBpfCollectionPerfEventArray2_def Let_def t ds prod.case close_maps_def c bindE_simps)
        simp
  qed
qed


text \<open>An error of \<open>accept\<close> does not stop the server: a thread is started for descriptor -1, and as
  every read from it fails, it takes what the stack held for a request, again and again.\<close>

theorem accept_error_replays:
  assumes "last rs = Accept_Fail" "rs \<noteq> []" "length from_cli = sizeof_PeerMsg"
  shows "last (hl_handlers (doHandleHpnsshQfactorEnv rs l)) = - 1
    \<and> doProcessHpnClientReq from_cli (replicate k Read_Fail) = (replicate k (hpn_request (decode_msg from_cli)), False)"
proof -
  obtain rs' where rs: "rs = rs' @ [Accept_Fail]" using assms(1,2) by (metis append_butlast_last_id)
  have n: "0 < sizeof_PeerMsg" by (simp add: sizeof_PeerMsg_def)
  have "serve sizeof_PeerMsg from_cli [] = ([], False)"
    using n by (subst serve.simps) (simp add: Readn_def readn_def)
  then have "serve sizeof_PeerMsg from_cli (replicate k Read_Fail) = (replicate k from_cli, False)"
    by (induction k) (simp_all add: serve_fail [OF n])
  then show ?thesis
    by (simp add: rs doHandleHpnsshQfactorEnv_def hpn_accept_def hpn_connection_def doProcessHpnClientReq_def)
qed

text \<open>C19: The consumer paces gently.  Whatever the payloads and the measured rates are, while the evaluation
  timer can be started, every rate the consumer sets is at least a tenth and less than 95% of the speed
  of the NIC, and between two firings of the evaluation timer it runs at most one command.\<close>

theorem kafka_paces_gently:
  assumes "\<forall>e \<in> set es. timed_payload speed e"
    and "fDoRunKafkaConsume kafka config consumer subscribed es (p, t) = Some (r, p', t')"
  shows "\<exists>cs. system_cmds (trace p') = system_cmds (trace p) @ cs \<and> list_all (rate_allowed speed) cs
    \<and> length cs \<le> Suc (length (filter (\<lambda>e. e = Evaluation_Fires) es))"
proof -
  have "paced speed (p, t) (p', t') (firings es)"
    using kafka_loop_paced [OF assms(1), of "(p, t)" kafka] assms(2)
    by (auto simp: fDoRunKafkaConsume_def split: if_splits)
  then show ?thesis by (auto simp: paced_def firings_def of_bool_def split: if_splits intro: le_SucI)
qed

text \<open>With Kafka the perf loop is not started: nothing is published, and clients of the HPN-SSH server,
  which is started all the same, never get a reading.\<close>

lemma kafka_readers_wait:
  assumes "main_start True s rc create st = Inr m" "\<forall>w \<in> set ws. \<forall>h. w \<noteq> Published h"
  shows "Perf_Loop \<notin> set (ms_started m) \<and> fst (fDoHpnReadAll stack ws rs (ms_hpn m) seq) = []"
proof -
  have no_perf: "Perf_Loop \<notin> set (main_threads True)" by (simp add: main_threads_def)
  have "rc = 0" using assms(1) by (simp add: main_start_def split: if_splits)
  with assms(1) have m: "Perf_Loop \<notin> set (ms_started m)" "\<not> is_done (ms_hpn m)"
    using no_perf by (auto simp: main_start_def Let_def is_done_def)
  have "fst (fDoHpnReadAll stack ws rs h seq) = []" if "\<not> is_done h" "\<forall>w \<in> set ws. \<forall>h. w \<noteq> Published h" for h
    using that
  proof (induction ws)
    case Nil
    then show ?case by (subst fDoHpnReadAll.simps) simp
  next
    case (Cons w ws)
    then have ih: "fst (fDoHpnReadAll stack ws rs h seq) = []" by simp
    show ?case
    proof (cases w)
      case (Published h')
      then show ?thesis using Cons.prems by simp
    next
      case (Timed_Out y errno)
      then show ?thesis using ih Cons.prems(1) by (subst fDoHpnReadAll.simps) simp
    next
      case Wait_Error
      then show ?thesis using ih Cons.prems(1) by (subst fDoHpnReadAll.simps) simp
    qed
  qed
  with m assms(2) show ?thesis by blast
qed

text \<open>Concrete runs.\<close>

definition broken_world :: perf_world where
  "broken_world = \<lparr>pw_timers = (\<lambda>_. 0), pw_maps = (\<lambda>i. if i = 3 then - 2 else int i + 4), pw_buffer = 1, pw_polls = []\<rparr>"

theorem perf_thread_cleans_up_witness:
  "\<exists>h. fDoRunBpfCollectionPerfEventArray2 initial_settings broken_world idle_hpn =
     (wanted_timers initial_settings, Inr (Perf_Ended [4, 5, 6] False h))"
proof -
  have m: "\<forall>j < 5. pw_maps broken_world j \<noteq> 0" "\<forall>j < 4. pw_timers broken_world j = 0"
    by (auto simp: broken_world_def)
  have "pw_maps broken_world 3 < 0" "(3 :: nat) < 5" by (simp_all add: broken_world_def)
  then have n: "\<not> (\<forall>j < 5. 0 < pw_maps broken_world j)" by (meson order_less_asym)
  have f: "takeWhile (\<lambda>x. 0 < x) (map (pw_maps broken_world) [0..<5]) = [4, 5, 6]"
    by (simp add: broken_world_def upt_rec)
  from perf_thread_cleans_up [OF m(2,1), of initial_settings idle_hpn] n f show ?thesis
    by (elim exE conjE, rename_tac r, case_tac r) (simp_all only: perf_end.case simp_thms, blast+)
qed


theorem accept_error_replays_witness:
  "doProcessHpnClientReq (replicate sizeof_PeerMsg 0) (replicate 3 Read_Fail) = (replicate 3 A_Ignored, False)"
proof -
  have "hpn_request (decode_msg (replicate sizeof_PeerMsg 0)) = A_Ignored"
    by (simp add: hpn_request_def decode_msg_def sizeof_PeerMsg_def load32_def ntohl_def htonl_def byte_of_def HPNSSH_MSG_def)
  then show ?thesis
    using accept_error_replays [of "[Accept_Fail]" "replicate sizeof_PeerMsg 0" undefined 3] by simp
qed

definition two_payloads :: "kafka_event list" where
  "two_payloads = [No_Message, Payload tuning_env 0 ''5000000000'', Partition_Eof, Payload tuning_env 0 ''1'', Sigint]"

theorem kafka_paces_gently_witness:
  "\<exists>r p' t' cs. fDoRunKafkaConsume True True True True two_payloads (no_pacing, initial_timers) = Some (r, p', t')
    \<and> system_cmds (trace p') = cs \<and> list_all (rate_allowed (Gb_speed tuning_env)) cs \<and> length cs \<le> 1"
proof -
  obtain r p' t' where k: "fDoRunKafkaConsume True True True True two_payloads (no_pacing, initial_timers) = Some (r, p', t')"
    by (metis fDoRunKafkaConsume_def prod_cases3)
  have "\<forall>e \<in> set two_payloads. timed_payload (Gb_speed tuning_env) e" by (simp add: two_payloads_def)
  from kafka_paces_gently [OF this k] k show ?thesis by (auto simp: no_pacing_def two_payloads_def)
qed

end
