(* ===== verification/Packet_Helpers.thy ===== *)
theory Packet_Helpers
  imports Dtn_Prelude
begin

text \<open>
  The packet helpers for XDP programs (\<open>src/common/parsing_helpers.h\<close>,
  \<open>src/common/rewrite_helpers.h\<close>, \<open>src/common/xdp_stats_kern.h\<close>), on the little-endian hosts the module
  runs on.  A packet is the list of its bytes from \<open>data\<close> to \<open>data_end\<close>, a pointer into it is an offset,
  and a read outside is a fault.  Whether \<open>bpf_xdp_adjust_head\<close> moves the head is the kernel's decision
  and an argument: to the front it adds bytes of any value, to the back it removes bytes.
\<close>

unbundle bit_operations_syntax

section \<open>Reading the packet\<close>

definition rd8 :: "byte list \<Rightarrow> nat \<Rightarrow> c_fault + byte" where
  "rd8 bs i = (if i < length bs then Inr (bs ! i) else Inl (Out_Of_Bounds ''data'' (int i)))"

definition rd16 :: "byte list \<Rightarrow> nat \<Rightarrow> c_fault + u16" where
  "rd16 bs i = (if i + 1 < length bs then Inr (load16 bs i) else Inl (Out_Of_Bounds ''data'' (int i)))"

definition rd_bytes :: "byte list \<Rightarrow> nat \<Rightarrow> nat \<Rightarrow> c_fault + byte list" where
  "rd_bytes bs i n = (if i + n \<le> length bs then Inr (take n (drop i bs)) else Inl (Out_Of_Bounds ''data'' (int i)))"

definition ntohs :: "u16 \<Rightarrow> u16" where
  "ntohs w = htons w"

text \<open>What a parser returns: its value, \<open>nh->pos\<close>, and the header pointer if it assigned one.\<close>

record parsed =
  ret :: int
  nh_pos :: nat
  hdr :: "nat option"

definition failed :: "nat \<Rightarrow> parsed" where
  "failed pos = \<lparr>ret = -1, nh_pos = pos, hdr = None\<rparr>"

section \<open>Ethernet with VLAN tags\<close>

definition VLAN_MAX_DEPTH :: nat where "VLAN_MAX_DEPTH = 2"
definition VLAN_VID_MASK :: u16 where "VLAN_VID_MASK = 0x0fff"
definition ETH_P_8021Q :: u16 where "ETH_P_8021Q = 0x8100"
definition ETH_P_8021AD :: u16 where "ETH_P_8021AD = 0x88A8"
definition sizeof_ethhdr :: nat where "sizeof_ethhdr = 14"
definition sizeof_vlan_hdr :: nat where "sizeof_vlan_hdr = 4"

definition proto_is_vlan :: "u16 \<Rightarrow> bool" where
  "proto_is_vlan h_proto \<longleftrightarrow> h_proto = htons ETH_P_8021Q \<or> h_proto = htons ETH_P_8021AD"

text \<open>The loop over the tags: \<open>n\<close> turns are left, \<open>vlans\<close> is the array \<open>id\<close> unless it is NULL.\<close>

fun skip_vlans :: "byte list \<Rightarrow> nat \<Rightarrow> nat \<Rightarrow> u16 \<Rightarrow> u16 list option \<Rightarrow>
    c_fault + (u16 \<times> nat \<times> u16 list option)" where
  "skip_vlans bs 0 vlh h_proto vlans = Inr (h_proto, vlh, vlans)"
| "skip_vlans bs (Suc n) vlh h_proto vlans =
    (if \<not> proto_is_vlan h_proto then Inr (h_proto, vlh, vlans)
     else if length bs < vlh + sizeof_vlan_hdr then Inr (h_proto, vlh, vlans)
     else bindE (rd16 bs (vlh + 2)) (\<lambda>p.
       bindE (case vlans of None \<Rightarrow> Inr None
              | Some ids \<Rightarrow> bindE (rd16 bs vlh) (\<lambda>tci.
                  Inr (Some (ids[VLAN_MAX_DEPTH - Suc n := ntohs tci AND VLAN_VID_MASK])))) (\<lambda>vlans'.
       skip_vlans bs n (vlh + sizeof_vlan_hdr) p vlans')))"

definition parse_ethhdr_vlan :: "byte list \<Rightarrow> u16 list option \<Rightarrow> nat \<Rightarrow> c_fault + (parsed \<times> u16 list option)" where
  "parse_ethhdr_vlan bs vlans pos =
    (if length bs < pos + sizeof_ethhdr then Inr (failed pos, vlans)
     else bindE (rd16 bs (pos + 12)) (\<lambda>h_proto.
       bindE (skip_vlans bs VLAN_MAX_DEPTH (pos + sizeof_ethhdr) h_proto vlans) (\<lambda>(p, vlh, vlans').
         Inr (\<lparr>ret = int (unat p), nh_pos = vlh, hdr = Some pos\<rparr>, vlans'))))"

definition parse_ethhdr :: "byte list \<Rightarrow> nat \<Rightarrow> c_fault + parsed" where
  "parse_ethhdr bs pos = bindE (parse_ethhdr_vlan bs None pos) (\<lambda>(r, vlans). Inr r)"

section \<open>The other headers\<close>

definition parse_ip6hdr :: "byte list \<Rightarrow> nat \<Rightarrow> c_fault + parsed" where
  "parse_ip6hdr bs pos =
    (if length bs < pos + 40 then Inr (failed pos)
     else bindE (rd8 bs (pos + 6)) (\<lambda>nexthdr. Inr \<lparr>ret = int (unat nexthdr), nh_pos = pos + 40, hdr = Some pos\<rparr>))"

text \<open>\<open>ihl\<close> is the low half of the first byte, \<open>doff\<close> the high half of the thirteenth.\<close>

definition parse_iphdr :: "byte list \<Rightarrow> nat \<Rightarrow> c_fault + parsed" where
  "parse_iphdr bs pos =
    (if length bs < pos + 20 then Inr (failed pos)
     else bindE (rd8 bs pos) (\<lambda>b.
       let hdrsize = unat (b AND 0x0F) * 4 in
       if hdrsize < 20 then Inr (failed pos)
       else if length bs < pos + hdrsize then Inr (failed pos)
       else bindE (rd8 bs (pos + 9)) (\<lambda>protocol.
         Inr \<lparr>ret = int (unat protocol), nh_pos = pos + hdrsize, hdr = Some pos\<rparr>)))"

definition parse_icmp6hdr :: "byte list \<Rightarrow> nat \<Rightarrow> c_fault + parsed" where
  "parse_icmp6hdr bs pos =
    (if length bs < pos + 8 then Inr (failed pos)
     else bindE (rd8 bs pos) (\<lambda>ty. Inr \<lparr>ret = int (unat ty), nh_pos = pos + 8, hdr = Some pos\<rparr>))"

definition parse_icmphdr :: "byte list \<Rightarrow> nat \<Rightarrow> c_fault + parsed" where
  "parse_icmphdr bs pos =
    (if length bs < pos + 8 then Inr (failed pos)
     else bindE (rd8 bs pos) (\<lambda>ty. Inr \<lparr>ret = int (unat ty), nh_pos = pos + 8, hdr = Some pos\<rparr>))"

definition parse_icmphdr_common :: "byte list \<Rightarrow> nat \<Rightarrow> c_fault + parsed" where
  "parse_icmphdr_common bs pos =
    (if length bs < pos + 4 then Inr (failed pos)
     else bindE (rd8 bs pos) (\<lambda>ty. Inr \<lparr>ret = int (unat ty), nh_pos = pos + 4, hdr = Some pos\<rparr>))"

text \<open>A UDP length below the header's fails, but after the cursor and the pointer were moved.\<close>

definition parse_udphdr :: "byte list \<Rightarrow> nat \<Rightarrow> c_fault + parsed" where
  "parse_udphdr bs pos =
    (if length bs < pos + 8 then Inr (failed pos)
     else bindE (rd16 bs (pos + 4)) (\<lambda>l.
       let len = int (unat (ntohs l)) - 8 in
       Inr \<lparr>ret = (if len < 0 then -1 else len), nh_pos = pos + 8, hdr = Some pos\<rparr>))"

definition parse_tcphdr :: "byte list \<Rightarrow> nat \<Rightarrow> c_fault + parsed" where
  "parse_tcphdr bs pos =
    (if length bs < pos + 20 then Inr (failed pos)
     else bindE (rd8 bs (pos + 12)) (\<lambda>b.
       let len = unat (drop_bit 4 b) * 4 in
       if len < 20 then Inr (failed pos)
       else if length bs < pos + len then Inr (failed pos)
       else Inr \<lparr>ret = int len, nh_pos = pos + len, hdr = Some pos\<rparr>))"

section \<open>Rewriting\<close>

definition put_bytes :: "nat \<Rightarrow> byte list \<Rightarrow> byte list \<Rightarrow> byte list" where
  "put_bytes i xs bs = take i bs @ xs @ drop (i + length xs) bs"

text \<open>\<open>moved\<close> is whether the head could be moved.  \<open>eth\<close> is where the caller found the header.\<close>

definition vlan_tag_pop :: "bool \<Rightarrow> nat \<Rightarrow> byte list \<Rightarrow> c_fault + (int \<times> byte list)" where
  "vlan_tag_pop moved eth bs =
    bindE (rd16 bs (eth + 12)) (\<lambda>proto.
     if \<not> proto_is_vlan proto then Inr (-1, bs)
     else if length bs < eth + sizeof_ethhdr + sizeof_vlan_hdr then Inr (-1, bs)
     else bindE (rd16 bs (eth + 14)) (\<lambda>tci. bindE (rd16 bs (eth + 16)) (\<lambda>h_proto.
       bindE (rd_bytes bs eth sizeof_ethhdr) (\<lambda>eth_cpy.
         if \<not> moved then Inr (-1, bs)
         else let bs1 = drop sizeof_vlan_hdr bs in
           if length bs1 < sizeof_ethhdr then Inr (-1, bs1)
           else Inr (int (unat (ntohs tci)), put_bytes 12 (store16 h_proto) (put_bytes 0 eth_cpy bs1))))))"

text \<open>\<open>room\<close> is what the four bytes in front of the packet hold, unless the head cannot be moved.\<close>

definition vlan_tag_push :: "byte list option \<Rightarrow> nat \<Rightarrow> int \<Rightarrow> byte list \<Rightarrow> c_fault + (int \<times> byte list)" where
  "vlan_tag_push room eth vlid bs =
    bindE (rd_bytes bs eth sizeof_ethhdr) (\<lambda>eth_cpy.
     case room of None \<Rightarrow> Inr (-1, bs)
     | Some j \<Rightarrow>
        (let bs1 = j @ bs in
         if length bs1 < sizeof_ethhdr then Inr (-1, bs1)
         else let bs2 = put_bytes 0 eth_cpy bs1 in
         if length bs2 < sizeof_ethhdr + sizeof_vlan_hdr then Inr (-1, bs2)
         else bindE (rd16 bs2 12) (\<lambda>h_proto.
           Inr (0, put_bytes 12 (store16 (htons ETH_P_8021Q))
                (put_bytes 16 (store16 h_proto) (put_bytes 14 (store16 (htons (word_of_int vlid))) bs2))))))"

definition swap_src_dst_mac :: "nat \<Rightarrow> byte list \<Rightarrow> c_fault + byte list" where
  "swap_src_dst_mac eth bs =
    bindE (rd_bytes bs (eth + 6) 6) (\<lambda>h_tmp. bindE (rd_bytes bs eth 6) (\<lambda>h_dest.
      Inr (put_bytes eth h_tmp (put_bytes (eth + 6) h_dest bs))))"

definition swap_src_dst_ipv6 :: "nat \<Rightarrow> byte list \<Rightarrow> c_fault + byte list" where
  "swap_src_dst_ipv6 ip bs =
    bindE (rd_bytes bs (ip + 8) 16) (\<lambda>tmp. bindE (rd_bytes bs (ip + 24) 16) (\<lambda>daddr.
      Inr (put_bytes (ip + 24) tmp (put_bytes (ip + 8) daddr bs))))"

definition swap_src_dst_ipv4 :: "nat \<Rightarrow> byte list \<Rightarrow> c_fault + byte list" where
  "swap_src_dst_ipv4 ip bs =
    bindE (rd_bytes bs (ip + 12) 4) (\<lambda>tmp. bindE (rd_bytes bs (ip + 16) 4) (\<lambda>daddr.
      Inr (put_bytes (ip + 16) tmp (put_bytes (ip + 12) daddr bs))))"

section \<open>Statistics\<close>

record datarec =
  rx_packets :: u64
  rx_bytes :: u64

definition XDP_ABORTED :: u32 where "XDP_ABORTED = 0"
definition XDP_ACTION_MAX :: u32 where "XDP_ACTION_MAX = 5"

text \<open>The records of this CPU, as the map has them.\<close>

definition xdp_stats_record_action ::
  "byte list \<Rightarrow> u32 \<Rightarrow> (u32 \<Rightarrow> datarec option) \<Rightarrow> u32 \<times> (u32 \<Rightarrow> datarec option)" where
  "xdp_stats_record_action bs action stats =
    (if XDP_ACTION_MAX \<le> action then (XDP_ABORTED, stats)
     else case stats action of None \<Rightarrow> (XDP_ABORTED, stats)
     | Some r \<Rightarrow> (action, stats(action \<mapsto> r\<lparr>rx_packets := rx_packets r + 1,
                                          rx_bytes := rx_bytes r + of_nat (length bs)\<rparr>)))"

section \<open>Lemmas: words in a packet\<close>

lemma bit_htons: "bit (htons w) n \<longleftrightarrow> (n < 8 \<and> bit w (n + 8)) \<or> (8 \<le> n \<and> n < 16 \<and> bit w (n - 8))"
proof -
  consider "n < 8" | "8 \<le> n" "n < 16" | "16 \<le> n" by linarith
  then show ?thesis
  proof cases
    case 3
    then have "\<not> bit (htons w) n" by (simp add: impossible_bit)
    with 3 show ?thesis by simp
  qed (simp_all add: htons_def byte_of_def bit_simps add.commute less_diff_conv2)
qed

lemma ntohs_htons [simp]: "ntohs (htons w) = w"
proof (rule bit_word_eqI)
  fix n :: nat
  consider "n < 8" | "8 \<le> n" "n < 16" | "16 \<le> n" by linarith
  then show "bit (ntohs (htons w)) n \<longleftrightarrow> bit w n"
  proof cases
    case 2
    then have "n - 8 < 8" "\<not> 8 \<le> n - 8" by simp_all
    with 2 show ?thesis by (simp add: ntohs_def bit_htons)
  qed (simp_all add: ntohs_def bit_htons impossible_bit)
qed

lemma store16_load16: "store16 (load16 (x # y # zs) 0) = [x, y]"
proof -
  have "ucast (load16 (x # y # zs) 0) = x"
    by (rule bit_word_eqI) (auto simp: load16_def bit_simps impossible_bit)
  moreover have "ucast (drop_bit 8 (load16 (x # y # zs) 0)) = y"
    by (rule bit_word_eqI) (auto simp: load16_def bit_simps impossible_bit)
  ultimately show ?thesis by (simp add: store16_def)
qed

text \<open>An Ethernet header: twelve bytes of addresses and the protocol.\<close>

lemma eth_split:
  assumes "sizeof_ethhdr \<le> length bs"
  obtains a r where "length a = 12" "bs = a @ store16 (load16 bs 12) @ r"
proof -
  have d: "length (take 12 bs) = 12" "length (drop 12 bs) = Suc (Suc (length bs - 14))"
    using assms by (auto simp: sizeof_ethhdr_def)
  obtain x y r where xy: "drop 12 bs = x # y # r" using d(2) by (metis length_Suc_conv)
  then have "bs = take 12 bs @ x # y # r" by (metis append_take_drop_id)
  moreover have "load16 bs 12 = load16 (x # y # r) 0"
    using load16_skip [of "take 12 bs" 12 "x # y # r"] d(1) xy by (metis append_take_drop_id diff_self_eq_0 order_refl)
  ultimately show ?thesis using that [of "take 12 bs" r] d(1) store16_load16 [of x y r] by simp
qed

lemma put_bytes_app:
  "length a = i \<Longrightarrow> length ys = length xs \<Longrightarrow> put_bytes i xs (a @ ys @ r) = a @ xs @ r"
  by (simp add: put_bytes_def)

lemma rd16_app: "length a = i \<Longrightarrow> rd16 (a @ store16 v @ r) i = Inr v"
  by (simp add: rd16_def load16_skip)

lemma rd_bytes_app: "length a = n \<Longrightarrow> rd_bytes (a @ r) 0 n = Inr a"
  by (simp add: rd_bytes_def)

lemma push_shape:
  assumes "length a = 12" "length j = 4"
  shows "vlan_tag_push (Some j) 0 vlid (a @ store16 p @ r) =
    Inr (0, a @ store16 (htons ETH_P_8021Q) @ store16 (htons (word_of_int vlid)) @ store16 p @ r)"
proof -
  have "length (drop 10 a) = 2" using assms(1) by simp
  then have d: "length (take 10 a) = 10" "length (drop 10 a) = length (store16 v)" for v
    using assms(1) by simp_all
  have "put_bytes 0 (a @ store16 p) (j @ a @ store16 p @ r) =
      put_bytes 0 (a @ store16 p) ([] @ (j @ take 10 a) @ drop 10 a @ store16 p @ r)"
    by (metis append.assoc append_Nil append_take_drop_id)
  also have "\<dots> = a @ store16 p @ drop 10 a @ store16 p @ r"
    using assms d(1) by (subst put_bytes_app) simp_all
  finally have c: "put_bytes 0 (a @ store16 p) (j @ a @ store16 p @ r) = a @ store16 p @ drop 10 a @ store16 p @ r" .
  have 1: "put_bytes 14 t (a @ store16 p @ drop 10 a @ s) = a @ store16 p @ t @ s" if "length t = 2" for t s
    using put_bytes_app [of "a @ store16 p" 14 "drop 10 a" t s] assms(1) that by simp
  have 2: "put_bytes 16 (store16 p) (a @ store16 p @ t @ store16 p @ r) = a @ store16 p @ t @ store16 p @ r"
    if "length t = 2" for t
    using put_bytes_app [of "a @ store16 p @ t" 16 "store16 p" "store16 p" r] assms(1) that by simp
  have 3: "put_bytes 12 t (a @ store16 p @ s) = a @ t @ s" if "length t = 2" for t s
    using put_bytes_app [of a 12 "store16 p" t s] assms(1) that by simp
  have "rd_bytes (a @ store16 p @ r) 0 14 = Inr (a @ store16 p)"
    using rd_bytes_app [of "a @ store16 p" 14 r] assms(1) by simp
  then show ?thesis
    using assms rd16_app [OF assms(1), of p "drop 10 a @ store16 p @ r"]
    by (simp add: vlan_tag_push_def sizeof_ethhdr_def sizeof_vlan_hdr_def Let_def c 1 2 3)
qed

lemma pop_shape:
  assumes "length a = 12" "proto_is_vlan q"
  shows "vlan_tag_pop True 0 (a @ store16 q @ store16 tci @ store16 p @ r) =
    Inr (int (unat (ntohs tci)), a @ store16 p @ r)"
proof -
  let ?bs = "a @ store16 q @ store16 tci @ store16 p @ r"
  have 1: "rd16 ?bs 12 = Inr q" "rd16 ?bs 14 = Inr tci" "rd16 ?bs 16 = Inr p"
    using rd16_app [of a 12 q] rd16_app [of "a @ store16 q" 14 tci] rd16_app [of "a @ store16 q @ store16 tci" 16 p]
      assms(1) by simp_all
  have 2: "rd_bytes ?bs 0 14 = Inr (a @ store16 q)"
    using rd_bytes_app [of "a @ store16 q" 14 "store16 tci @ store16 p @ r"] assms(1) by simp
  have "put_bytes 0 (a @ store16 q) (drop 4 ?bs) = a @ store16 q @ r"
    using assms(1) by (simp add: put_bytes_def)
  moreover have "put_bytes 12 (store16 p) (a @ store16 q @ r) = a @ store16 p @ r"
    using put_bytes_app [of a 12 "store16 q" "store16 p" r] assms(1) by simp
  ultimately show ?thesis
    using assms 1 2 by (simp add: vlan_tag_pop_def sizeof_ethhdr_def sizeof_vlan_hdr_def Let_def)
qed

section \<open>Parsers one after the other\<close>

datatype parser = P_Eth "u16 list option" | P_Ip6 | P_Ip | P_Icmp6 | P_Icmp | P_Icmp_Common | P_Udp | P_Tcp

fun run_parser :: "parser \<Rightarrow> byte list \<Rightarrow> nat \<Rightarrow> c_fault + parsed" where
  "run_parser (P_Eth vlans) bs pos = bindE (parse_ethhdr_vlan bs vlans pos) (\<lambda>(r, vlans'). Inr r)"
| "run_parser P_Ip6 bs pos = parse_ip6hdr bs pos"
| "run_parser P_Ip bs pos = parse_iphdr bs pos"
| "run_parser P_Icmp6 bs pos = parse_icmp6hdr bs pos"
| "run_parser P_Icmp bs pos = parse_icmphdr bs pos"
| "run_parser P_Icmp_Common bs pos = parse_icmphdr_common bs pos"
| "run_parser P_Udp bs pos = parse_udphdr bs pos"
| "run_parser P_Tcp bs pos = parse_tcphdr bs pos"

text \<open>A program may go on after a failure; the cursor is then where the failed parser left it.\<close>

fun parse_all :: "parser list \<Rightarrow> byte list \<Rightarrow> nat \<Rightarrow> c_fault + parsed list" where
  "parse_all [] bs pos = Inr []"
| "parse_all (p # ps) bs pos =
    bindE (run_parser p bs pos) (\<lambda>r. bindE (parse_all ps bs (nh_pos r)) (\<lambda>rs. Inr (r # rs)))"

definition within :: "byte list \<Rightarrow> nat \<Rightarrow> parsed \<Rightarrow> bool" where
  "within bs pos r \<longleftrightarrow> pos \<le> nh_pos r \<and> nh_pos r \<le> length bs \<and> -1 \<le> ret r \<and> ret r < 65536
     \<and> (case hdr r of None \<Rightarrow> ret r = -1 \<and> nh_pos r = pos | Some h \<Rightarrow> h = pos \<and> pos < nh_pos r)"

lemma unat_u16: "unat (w :: u16) < 65536" "uint w < 65536"
  using unsigned_less [of w] uint_lt2p [of w] by simp_all

lemma unat_byte: "unat (b :: byte) < 256" "uint b < 256"
  using unsigned_less [of b] uint_lt2p [of b] by simp_all

lemma minus_one_le_uint [simp]: "-1 \<le> uint w"
  by (rule order_trans [of _ 0]) simp_all

lemma within_failed [simp]: "within bs pos (failed pos) \<longleftrightarrow> pos \<le> length bs"
  by (simp add: within_def failed_def)

lemma skip_vlans_safe:
  "vlh \<le> length bs \<Longrightarrow> \<exists>p vlh' vs. skip_vlans bs n vlh h vlans = Inr (p, vlh', vs) \<and> vlh \<le> vlh' \<and> vlh' \<le> length bs"
proof (induction bs n vlh h vlans rule: skip_vlans.induct)
  case (2 bs n vlh h vlans)
  show ?case
  proof (cases "proto_is_vlan h \<and> vlh + sizeof_vlan_hdr \<le> length bs")
    case True
    then have r: "rd16 bs (vlh + 2) = Inr (load16 bs (vlh + 2))" "rd16 bs vlh = Inr (load16 bs vlh)"
      by (simp_all add: rd16_def sizeof_vlan_hdr_def)
    obtain vs where vs: "(case vlans of None \<Rightarrow> Inr None | Some ids \<Rightarrow> bindE (rd16 bs vlh) (\<lambda>tci.
        Inr (Some (ids[VLAN_MAX_DEPTH - Suc n := ntohs tci AND VLAN_VID_MASK])))) = (Inr vs :: c_fault + u16 list option)"
      using r(2) by (cases vlans) auto
    from "2.IH" [of "load16 bs (vlh + 2)" vs] True vs r(1) show ?thesis by fastforce
  next
    case False
    with "2.prems" show ?thesis by auto
  qed
qed simp

lemma run_parser_safe:
  assumes "pos \<le> length bs"
  shows "\<exists>r. run_parser p bs pos = Inr r \<and> within bs pos r"
proof (cases p)
  case (P_Eth vlans)
  show ?thesis
  proof (cases "pos + sizeof_ethhdr \<le> length bs")
    case True
    obtain h vlh vs where s: "skip_vlans bs VLAN_MAX_DEPTH (pos + sizeof_ethhdr) (load16 bs (pos + 12)) vlans =
        Inr (h, vlh, vs)" "pos + sizeof_ethhdr \<le> vlh" "vlh \<le> length bs"
      using skip_vlans_safe [OF True] by metis
    have "rd16 bs (pos + 12) = Inr (load16 bs (pos + 12))" using True by (simp add: rd16_def sizeof_ethhdr_def)
    with s True have e: "run_parser p bs pos = Inr \<lparr>ret = int (unat h), nh_pos = vlh, hdr = Some pos\<rparr>"
      using P_Eth by (simp add: parse_ethhdr_vlan_def)
    then show ?thesis using s unat_u16 [of h] by (simp add: within_def sizeof_ethhdr_def)
  next
    case False
    with P_Eth assms show ?thesis by (simp add: parse_ethhdr_vlan_def)
  qed
next
  case P_Ip
  then show ?thesis
    using P_Ip assms unat_byte [of "bs ! (pos + 9)"] by (auto simp: parse_iphdr_def rd8_def Let_def within_def failed_def)
next
  case P_Udp
  then show ?thesis
    using assms unat_u16 [of "ntohs (load16 bs (pos + 4))"] by (auto simp: parse_udphdr_def rd16_def Let_def within_def failed_def)
next
  case P_Tcp
  define n where "n = unat (drop_bit 4 (bs ! (pos + 12)))"
  have "n \<le> unat (bs ! (pos + 12))" unfolding n_def
    by (simp add: unsigned_drop_bit_eq drop_bit_nat_def) (rule order_trans [OF div_le_dividend take_bit_nat_less_eq_self])
  then have "n < 256" using unat_byte(1) [of "bs ! (pos + 12)"] by simp
  with P_Tcp assms show ?thesis
    by (auto simp: parse_tcphdr_def rd8_def Let_def within_def failed_def n_def [symmetric])
qed (use assms unat_byte [of "bs ! pos"] unat_byte [of "bs ! (pos + 6)"] in
    \<open>auto simp: parse_ip6hdr_def parse_icmp6hdr_def parse_icmphdr_def parse_icmphdr_common_def rd8_def within_def failed_def\<close>)

lemma parse_all_safe:
  "pos \<le> length bs \<Longrightarrow> \<exists>rs. parse_all ps bs pos = Inr rs \<and> length rs = length ps
     \<and> sorted (pos # map nh_pos rs) \<and> (\<forall>r \<in> set rs. nh_pos r \<le> length bs \<and> -1 \<le> ret r \<and> ret r < 65536
     \<and> (case hdr r of None \<Rightarrow> ret r = -1 | Some h \<Rightarrow> pos \<le> h \<and> h < nh_pos r))"
proof (induction ps arbitrary: pos)
  case (Cons p ps)
  obtain r where r: "run_parser p bs pos = Inr r" "within bs pos r" using run_parser_safe [OF Cons.prems] by blast
  then have "nh_pos r \<le> length bs" by (simp add: within_def)
  from Cons.IH [OF this] r show ?case by (fastforce simp: within_def split: option.splits)
qed simp

section \<open>Properties\<close>

text \<open>C8: No parser leaves the packet.  Whatever the bytes of a packet and whichever parsers a program runs
  one after the other from its start, none reads outside the packet; the cursor only moves on and
  never past the end; a returned header pointer lies before the cursor; and every value is -1 or
  fits in 16 bits.\<close>

theorem any_parse_safe:
  "\<exists>rs. parse_all ps bs 0 = Inr rs \<and> length rs = length ps \<and> sorted (map nh_pos rs)
    \<and> list_all (\<lambda>r. nh_pos r \<le> length bs \<and> -1 \<le> ret r \<and> ret r < 65536
        \<and> (case hdr r of None \<Rightarrow> ret r = -1 | Some h \<Rightarrow> h < nh_pos r)) rs"
  using parse_all_safe [of 0 bs ps] by (fastforce simp: list_all_iff split: option.splits)

text \<open>A pushed tag can be popped.  On any packet with an Ethernet header, when the head can be moved, a pushed
  VLAN tag makes the packet four bytes longer and reads back as the id that was pushed; popping it
  gives the packet back as it was, with the tag's sixteen bits as the result; and a parser that
  collects VLAN ids skips the tag of a packet that had none and finds the protocol the packet had.\<close>

theorem vlan_round_trip:
  assumes "sizeof_ethhdr \<le> length bs" "length j = 4" "0 \<le> vlid" "vlid < 65536"
  shows "\<exists>bs'. vlan_tag_push (Some j) 0 vlid bs = Inr (0, bs') \<and> length bs' = length bs + 4
    \<and> vlan_tag_pop True 0 bs' = Inr (vlid, bs)
    \<and> (\<not> proto_is_vlan (load16 bs 12) \<longrightarrow> parse_ethhdr_vlan bs' (Some [a, b]) 0 =
        Inr (\<lparr>ret = int (unat (load16 bs 12)), nh_pos = 18, hdr = Some 0\<rparr>,
          Some [word_of_int vlid AND VLAN_VID_MASK, b]))"
proof -
  obtain a0 r where ar: "length a0 = 12" "bs = a0 @ store16 (load16 bs 12) @ r"
    using eth_split [OF assms(1)] .
  let ?p = "load16 bs 12" and ?q = "htons ETH_P_8021Q" and ?t = "htons (word_of_int vlid)"
  let ?bs = "a0 @ store16 ?q @ store16 ?t @ store16 ?p @ r"
  have v: "proto_is_vlan ?q" by (simp add: proto_is_vlan_def)
  have push: "vlan_tag_push (Some j) 0 vlid bs = Inr (0, ?bs)"
    using push_shape [OF ar(1) assms(2), of vlid ?p r] ar(2) by simp
  have "int (unat (word_of_int vlid :: u16)) = vlid" using assms(3,4) by (simp add: unsigned_of_int take_bit_int_eq_self)
  then have pop: "vlan_tag_pop True 0 ?bs = Inr (vlid, bs)"
    using pop_shape [OF ar(1) v, of ?t ?p r] ar(2) by simp
  have rd: "rd16 ?bs 12 = Inr ?q" "rd16 ?bs 14 = Inr ?t" "rd16 ?bs 16 = Inr ?p"
    using rd16_app [of a0 12 ?q] rd16_app [of "a0 @ store16 ?q" 14 ?t] rd16_app [of "a0 @ store16 ?q @ store16 ?t" 16 ?p]
      ar(1) by simp_all
  have l: "length ?bs = length bs + 4" using ar by (metis (no_types, lifting) add.commute add.left_commute length_append length_store(1) numeral_Bit0)
  have "parse_ethhdr_vlan ?bs (Some [a, b]) 0 = Inr (\<lparr>ret = int (unat ?p), nh_pos = 18, hdr = Some 0\<rparr>,
      Some [word_of_int vlid AND VLAN_VID_MASK, b])" if "\<not> proto_is_vlan ?p"
    using that v rd l assms(1)
    by (simp add: parse_ethhdr_vlan_def sizeof_ethhdr_def sizeof_vlan_hdr_def VLAN_MAX_DEPTH_def eval_nat_numeral)
  with push pop l show ?thesis by blast
qed

theorem vlan_round_trip_witness:
  "\<exists>bs'. vlan_tag_push (Some [1, 2, 3, 4]) 0 100 (replicate 14 0) = Inr (0, bs')
     \<and> vlan_tag_pop True 0 bs' = Inr (100, replicate 14 0)"
  using vlan_round_trip [of "replicate 14 0" "[1, 2, 3, 4]" 100] by (auto simp: sizeof_ethhdr_def)

end
